(* ===== verification/Prelude.thy ===== *)
theory Prelude
  imports Main "HOL-Library.Word" "HOL-Library.Multiset" "HOL-Library.AList"
begin

text \<open>
  The part of the Go language the client's code relies on, shared by every component: machine
  integers as words, run-time panics as values, indexing and slicing with their bounds checks,
  the byte orders of package \<^verbatim>\<open>encoding/binary\<close>, and loops that stop at the first panic. Each
  operation is total: where the Go program panics, the model returns \<open>Inl\<close> of the panic.
\<close>

unbundle bit_operations_syntax

section \<open>Machine types\<close>

text \<open>
  Signed and unsigned Go integers of one width share a word type; \<open>sint\<close> reads the signed ones.
  A Go \<^verbatim>\<open>string\<close> is a sequence of bytes. A slice that may be \<^verbatim>\<open>nil\<close> is an \<open>option\<close> of a list.
  Floating point numbers are carried as their IEEE bit patterns, which is all that
  \<^verbatim>\<open>math.Float32bits\<close> and its kin look at.
\<close>

type_synonym byte = "8 word"
type_synonym i16 = "16 word"
type_synonym i32 = "32 word"
type_synonym i64 = "64 word"
type_synonym gostring = "byte list"

datatype float32 = Float32 (Float32bits: "32 word")
datatype float64 = Float64 (Float64bits: "64 word")

section \<open>Panics and sequencing\<close>

text \<open>
  \<open>Diverges\<close> is no panic: it is the value of a loop whose body, run once, leaves the loop where it
  was, so that the Go program would not come back.
\<close>

datatype go_panic =
    IndexOutOfRange
  | SliceBoundsOutOfRange
  | MakeSliceLenOutOfRange
  | DivideByZero
  | NilDereference
  | TypeAssertionFailed
  | UnhashableType
  | NegativePositionError
  | EOFError
  | Diverges
  | PanicMessage string
  | PanicError string
  | PanicIllegalArgument "8 word list"
  | PanicSerialization "8 word list"

type_synonym 'a go = "go_panic + 'a"

definition bind_go :: "'e + 'a \<Rightarrow> ('a \<Rightarrow> 'e + 'b) \<Rightarrow> 'e + 'b" where
  "bind_go m f = (case m of Inl e \<Rightarrow> Inl e | Inr x \<Rightarrow> f x)"

lemma bind_go_simps [simp]:
  "bind_go (Inl e) f = Inl e"
  "bind_go (Inr x) f = f x"
  by (simp_all add: bind_go_def)

lemma bind_go_Inr_iff: "bind_go m f = Inr y \<longleftrightarrow> (\<exists>x. m = Inr x \<and> f x = Inr y)"
  by (cases m) auto

lemma bind_goE: "bind_go m f = Inr y \<Longrightarrow> (\<And>x. m = Inr x \<Longrightarrow> f x = Inr y \<Longrightarrow> P) \<Longrightarrow> P"
  by (cases m) auto

lemma bind_go_assoc: "bind_go (bind_go m f) g = bind_go m (\<lambda>x. bind_go (f x) g)"
  by (cases m) auto

lemma bind_go_cong [fundef_cong]:
  "m = m' \<Longrightarrow> (\<And>x. m' = Inr x \<Longrightarrow> f x = g x) \<Longrightarrow> bind_go m f = bind_go m' g"
  by (cases m') auto

text \<open>The loop \<^verbatim>\<open>for _, x := range xs { body }\<close> over a state the body updates.\<close>

primrec for_each :: "('a \<Rightarrow> 's \<Rightarrow> 'e + 's) \<Rightarrow> 'a list \<Rightarrow> 's \<Rightarrow> 'e + 's" where
  "for_each f [] s = Inr s"
| "for_each f (x # xs) s = bind_go (f x s) (for_each f xs)"

lemma for_each_append:
  "for_each f (xs @ ys) s = bind_go (for_each f xs s) (for_each f ys)"
  by (induction xs arbitrary: s) (auto simp: bind_go_def split: sum.splits)

text \<open>The loop \<^verbatim>\<open>for j := 0; j < n; j++ { arr[j] = read() }\<close>.\<close>

primrec read_times :: "nat \<Rightarrow> ('s \<Rightarrow> 'e + ('a \<times> 's)) \<Rightarrow> 's \<Rightarrow> 'e + ('a list \<times> 's)" where
  "read_times 0 rd s = Inr ([], s)"
| "read_times (Suc n) rd s =
     bind_go (rd s) (\<lambda>(x, s'). bind_go (read_times n rd s') (\<lambda>(xs, s''). Inr (x # xs, s'')))"

text \<open>The loop \<^verbatim>\<open>for i, x := range xs { res[i] = f(x) }\<close> over a function that may panic.\<close>

primrec map_go :: "('a \<Rightarrow> 'e + 'b) \<Rightarrow> 'a list \<Rightarrow> 'e + 'b list" where
  "map_go f [] = Inr []"
| "map_go f (x # xs) = bind_go (f x) (\<lambda>y. bind_go (map_go f xs) (\<lambda>ys. Inr (y # ys)))"

lemma map_go_Inr: "(\<And>x. x \<in> set xs \<Longrightarrow> f x = Inr (g x)) \<Longrightarrow> map_go f xs = Inr (map g xs)"
  by (induction xs) simp_all

section \<open>Indexing and slicing\<close>

definition go_index :: "'a list \<Rightarrow> int \<Rightarrow> 'a go" where
  "go_index xs i = (if 0 \<le> i \<and> i < int (length xs) then Inr (xs ! nat i) else Inl IndexOutOfRange)"

definition go_update :: "'a list \<Rightarrow> int \<Rightarrow> 'a \<Rightarrow> 'a list go" where
  "go_update xs i v =
     (if 0 \<le> i \<and> i < int (length xs) then Inr (xs[nat i := v]) else Inl IndexOutOfRange)"

text \<open>\<open>xs[lo:]\<close>: the upper bound is the length of the slice.\<close>

definition go_slice_from :: "'a list \<Rightarrow> int \<Rightarrow> 'a list go" where
  "go_slice_from xs lo =
     (if 0 \<le> lo \<and> lo \<le> int (length xs) then Inr (drop (nat lo) xs) else Inl SliceBoundsOutOfRange)"

text \<open>
  \<open>xs[lo:hi]\<close>: Go bounds \<open>hi\<close> by the capacity of the slice, not by its length. The elements
  between length and capacity are the second argument.
\<close>

definition go_slice :: "'a list \<Rightarrow> 'a list \<Rightarrow> int \<Rightarrow> int \<Rightarrow> 'a list go" where
  "go_slice xs spare lo hi =
     (if 0 \<le> lo \<and> lo \<le> hi \<and> hi \<le> int (length xs + length spare)
      then Inr (take (nat (hi - lo)) (drop (nat lo) (xs @ spare))) else Inl SliceBoundsOutOfRange)"

text \<open>
  \<open>copy(dst[lo:], src)\<close>: as many elements as fit, and the number copied.
\<close>

definition go_copy_at :: "'a list \<Rightarrow> int \<Rightarrow> 'a list \<Rightarrow> ('a list \<times> nat) go" where
  "go_copy_at dst lo src =
     (if 0 \<le> lo \<and> lo \<le> int (length dst)
      then (let p = nat lo; n = min (length dst - p) (length src)
            in Inr (take p dst @ take n src @ drop (p + n) dst, n))
      else Inl SliceBoundsOutOfRange)"

text \<open>Go's \<open>%\<close> truncates towards zero.\<close>

definition go_rem :: "int \<Rightarrow> int \<Rightarrow> int" where
  "go_rem a b = sgn a * (\<bar>a\<bar> mod \<bar>b\<bar>)"

definition go_quot :: "int \<Rightarrow> int \<Rightarrow> int" where
  "go_quot a b = sgn a * sgn b * (\<bar>a\<bar> div \<bar>b\<bar>)"

lemma go_rem_nonneg: "0 \<le> a \<Longrightarrow> 0 < b \<Longrightarrow> go_rem a b = a mod b"
  by (cases "a = 0") (simp_all add: go_rem_def)

lemma go_quot_nonneg: "0 \<le> a \<Longrightarrow> 0 < b \<Longrightarrow> go_quot a b = a div b"
  by (cases "a = 0") (simp_all add: go_quot_def)

section \<open>Lists\<close>

lemma append_eq_split:
  "xs @ ys = us @ vs \<Longrightarrow> length us \<le> length xs \<Longrightarrow> \<exists>zs. xs = us @ zs \<and> zs @ ys = vs"
proof (induction us arbitrary: xs)
  case (Cons u us)
  then show ?case by (cases xs) auto
qed simp

section \<open>Maps\<close>

text \<open>
  A Go \<^verbatim>\<open>map\<close> is an association list with distinct keys, so that its length, its iteration and
  comparison with \<^verbatim>\<open>reflect.DeepEqual\<close> are computable. Lookup is \<open>map_of\<close>, assignment
  \<open>AList.update\<close>, \<^verbatim>\<open>delete\<close> is \<open>AList.delete\<close>. Where the order in which Go visits the entries
  can matter, that order is an argument of the definition.
\<close>

type_synonym ('k, 'v) gomap = "('k \<times> 'v) list"

abbreviation gomap_wf :: "('k, 'v) gomap \<Rightarrow> bool" where
  "gomap_wf m \<equiv> distinct (map fst m)"

definition map_deep_equal :: "('k, 'v) gomap \<Rightarrow> ('k, 'v) gomap \<Rightarrow> bool" where
  "map_deep_equal m n = list_all (\<lambda>(k, _). map_of m k = map_of n k) (m @ n)"

lemma map_deep_equal_iff: "map_deep_equal m n \<longleftrightarrow> map_of m = map_of n"
proof
  assume *: "map_deep_equal m n"
  show "map_of m = map_of n"
  proof
    fix k
    show "map_of m k = map_of n k"
    proof (cases "k \<in> fst ` set (m @ n)")
      case True
      with * show ?thesis by (auto simp: map_deep_equal_def list_all_iff)
    next
      case False
      then have "map_of m k = None" "map_of n k = None" by (auto simp: map_of_eq_None_iff image_Un)
      then show ?thesis by simp
    qed
  qed
qed (simp add: map_deep_equal_def list_all_iff split_def)

lemma map_of_aupdate [simp]: "map_of (AList.update k v m) = (map_of m)(k \<mapsto> v)"
  by (rule update_conv')

lemma map_of_adelete [simp]: "map_of (AList.delete k m) = (map_of m)(k := None)"
  by (rule delete_conv')

lemma gomap_wf_update [simp]: "gomap_wf m \<Longrightarrow> gomap_wf (AList.update k v m)"
  by (rule distinct_update)

lemma gomap_wf_delete [simp]: "gomap_wf m \<Longrightarrow> gomap_wf (AList.delete k m)"
  by (rule distinct_delete)

section \<open>Signed reading of words\<close>

text \<open>
  Sums and differences of signed 32-bit and 64-bit values are exact as long as the mathematical
  result is in range.
\<close>

lemma sint32_bounds: "- (2 ^ 31) \<le> sint (a :: i32)" "sint (a :: i32) < 2 ^ 31"
  using sint_greater_eq [of a] sint_less [of a] by simp_all

lemma sint32_add:
  "- (2 ^ 31) \<le> sint a + sint b \<Longrightarrow> sint a + sint b < 2 ^ 31 \<Longrightarrow> sint (a + b) = sint a + sint (b :: i32)"
  by (simp add: sint_word_ariths signed_take_bit_int_eq_self)

lemma sint32_of_nat: "n < 2 ^ 31 \<Longrightarrow> sint (word_of_nat n :: i32) = int n"
  by (simp add: signed_of_nat signed_take_bit_int_eq_self)

lemma sint32_of_int: "- (2 ^ 31) \<le> k \<Longrightarrow> k < 2 ^ 31 \<Longrightarrow> sint (word_of_int k :: i32) = k"
  by (simp add: signed_of_int signed_take_bit_int_eq_self)

section \<open>Byte orders\<close>

text \<open>
  \<open>PutUintN\<close> stores \<open>byte(v >> 8*i)\<close> at index \<open>i\<close> (little endian) or at index \<open>n-1-i\<close> (big
  endian); \<open>UintN\<close> joins the shifted bytes. Both first touch index \<open>n-1\<close>, so a short slice
  panics before anything is stored.
\<close>

datatype byte_order = LittleEndian | BigEndian

definition le_bytes :: "nat \<Rightarrow> 'a::len word \<Rightarrow> byte list" where
  "le_bytes n w = map (\<lambda>i. ucast (drop_bit (8 * i) w)) [0..<n]"

primrec le_word :: "byte list \<Rightarrow> 'a::len word" where
  "le_word [] = 0"
| "le_word (b # bs) = ucast b OR push_bit 8 (le_word bs)"

fun bo_bytes :: "byte_order \<Rightarrow> nat \<Rightarrow> 'a::len word \<Rightarrow> byte list" where
  "bo_bytes LittleEndian n w = le_bytes n w"
| "bo_bytes BigEndian n w = rev (le_bytes n w)"

fun bo_word :: "byte_order \<Rightarrow> byte list \<Rightarrow> 'a::len word" where
  "bo_word LittleEndian bs = le_word bs"
| "bo_word BigEndian bs = le_word (rev bs)"

text \<open>\<open>bo.PutUintN(buf[pos:], v)\<close> and \<open>bo.UintN(buf[pos:])\<close>, with \<open>n\<close> the width in bytes.\<close>

definition put_uint :: "byte_order \<Rightarrow> nat \<Rightarrow> byte list \<Rightarrow> int \<Rightarrow> 'a::len word \<Rightarrow> byte list go" where
  "put_uint bo n buf pos v =
     (if pos < 0 \<or> int (length buf) < pos then Inl SliceBoundsOutOfRange
      else if int (length buf) - pos < int n then Inl IndexOutOfRange
      else Inr (take (nat pos) buf @ bo_bytes bo n v @ drop (nat pos + n) buf))"

definition get_uint :: "byte_order \<Rightarrow> nat \<Rightarrow> byte list \<Rightarrow> int \<Rightarrow> 'a::len word go" where
  "get_uint bo n buf pos =
     (if pos < 0 \<or> int (length buf) < pos then Inl SliceBoundsOutOfRange
      else if int (length buf) - pos < int n then Inl IndexOutOfRange
      else Inr (bo_word bo (take n (drop (nat pos) buf))))"

lemma length_le_bytes [simp]: "length (le_bytes n w) = n"
  by (simp add: le_bytes_def)

lemma length_bo_bytes [simp]: "length (bo_bytes bo n w) = n"
  by (cases bo) simp_all

lemma bo_bytes_nonempty [simp]: "bo_bytes bo n w = [] \<longleftrightarrow> n = 0"
  by (metis length_0_conv length_bo_bytes)

lemma bit_le_word:
  "bit (le_word bs :: 'a::len word) k \<longleftrightarrow>
     k < LENGTH('a) \<and> k div 8 < length bs \<and> bit (bs ! (k div 8)) (k mod 8)"
proof (induction bs arbitrary: k)
  case Nil
  then show ?case by simp
next
  case (Cons b bs)
  show ?case
  proof (cases "k < 8")
    case True
    then show ?thesis
      by (auto simp: bit_or_iff bit_push_bit_iff bit_ucast_iff)
  next
    case False
    then have k: "k div 8 = Suc ((k - 8) div 8)" "(k - 8) mod 8 = k mod 8"
      by (simp_all add: le_div_geq le_mod_geq)
    from False have "\<not> bit b k"
      using bit_imp_le_length [of b k] by auto
    with False k Cons.IH [of "k - 8"] show ?thesis
      by (auto simp: bit_or_iff bit_push_bit_iff bit_ucast_iff)
  qed
qed

lemma bit_le_bytes_nth:
  "i < n \<Longrightarrow> j < 8 \<Longrightarrow> bit (le_bytes n w ! i) j \<longleftrightarrow> bit w (8 * i + j)"
  by (auto simp: le_bytes_def bit_ucast_iff bit_drop_bit_eq add.commute dest: bit_imp_le_length)

lemma le_word_bytes [simp]:
  assumes "LENGTH('a) \<le> 8 * n"
  shows "le_word (le_bytes n w) = (w :: 'a::len word)"
proof (rule bit_word_eqI)
  fix k assume "k < LENGTH('a)"
  with assms have "k div 8 < n" by linarith
  with \<open>k < LENGTH('a)\<close> show "bit (le_word (le_bytes n w) :: 'a word) k \<longleftrightarrow> bit w k"
    by (simp add: bit_le_word bit_le_bytes_nth)
qed

lemma le_bytes_word [simp]:
  assumes "8 * length bs \<le> LENGTH('a)"
  shows "le_bytes (length bs) (le_word bs :: 'a::len word) = bs"
proof (rule nth_equalityI)
  show "length (le_bytes (length bs) (le_word bs :: 'a word)) = length bs" by simp
next
  fix i assume i: "i < length (le_bytes (length bs) (le_word bs :: 'a word))"
  then have i': "i < length bs" by simp
  show "le_bytes (length bs) (le_word bs :: 'a word) ! i = bs ! i"
  proof (rule bit_word_eqI)
    fix j :: nat assume j: "j < LENGTH(8)"
    then have j8: "j < 8" by simp
    with i' have "8 * i + j < 8 * length bs" by linarith
    with assms have "8 * i + j < LENGTH('a)" by linarith
    with i' j8 show "bit (le_bytes (length bs) (le_word bs :: 'a word) ! i) j \<longleftrightarrow> bit (bs ! i) j"
      by (simp add: bit_le_bytes_nth bit_le_word)
  qed
qed

lemma bo_word_bytes [simp]:
  "LENGTH('a) \<le> 8 * n \<Longrightarrow> bo_word bo (bo_bytes bo n w) = (w :: 'a::len word)"
  by (cases bo) simp_all

lemma bo_bytes_word:
  "8 * length bs \<le> LENGTH('a) \<Longrightarrow> bo_bytes bo (length bs) (bo_word bo bs :: 'a::len word) = bs"
  using le_bytes_word [of "rev bs", where 'a = 'a] by (cases bo) simp_all

lemma put_uint_ok:
  "0 \<le> pos \<Longrightarrow> pos + int n \<le> int (length buf) \<Longrightarrow>
   put_uint bo n buf pos v = Inr (take (nat pos) buf @ bo_bytes bo n v @ drop (nat pos + n) buf)"
  by (simp add: put_uint_def)

lemma get_uint_ok:
  "0 \<le> pos \<Longrightarrow> pos + int n \<le> int (length buf) \<Longrightarrow>
   get_uint bo n buf pos = Inr (bo_word bo (take n (drop (nat pos) buf)))"
  by (simp add: get_uint_def)

lemma get_put_uint:
  assumes "put_uint bo n buf pos (v :: 'a::len word) = Inr buf'" and "LENGTH('a) \<le> 8 * n"
  shows "get_uint bo n buf' pos = Inr v"
proof -
  from assms(1) have pos: "0 \<le> pos" "pos + int n \<le> int (length buf)"
    and buf': "buf' = take (nat pos) buf @ bo_bytes bo n v @ drop (nat pos + n) buf"
    by (auto simp: put_uint_def split: if_splits)
  from pos have "nat pos \<le> length buf" by linarith
  then have "take n (drop (nat pos) buf') = bo_bytes bo n v"
    by (simp add: buf')
  moreover from pos buf' have "pos + int n \<le> int (length buf')" by simp
  ultimately show ?thesis using pos assms(2) by (simp add: get_uint_ok)
qed

lemma put_uint_length: "put_uint bo n buf pos v = Inr buf' \<Longrightarrow> length buf' = length buf"
  by (auto simp: put_uint_def split: if_splits)

text \<open>A store leaves every range it does not touch as it was.\<close>

lemma get_put_uint_disjoint:
  assumes "put_uint bo n buf pos v = Inr buf'" and "q + int m \<le> pos \<or> pos + int n \<le> q"
  shows "get_uint bo' m buf' q = (get_uint bo' m buf q :: 'b::len word go)"
proof -
  from assms(1) have pos: "0 \<le> pos" "pos + int n \<le> int (length buf)"
    and buf': "buf' = take (nat pos) buf @ bo_bytes bo n v @ drop (nat pos + n) buf"
    by (auto simp: put_uint_def split: if_splits)
  have len: "length buf' = length buf" using assms(1) by (rule put_uint_length)
  show ?thesis
  proof (cases "0 \<le> q \<and> q + int m \<le> int (length buf)")
    case True
    have "take m (drop (nat q) buf') = take m (drop (nat q) buf)"
    proof (rule nth_equalityI)
      show "length (take m (drop (nat q) buf')) = length (take m (drop (nat q) buf))"
        by (simp add: len)
    next
      fix i assume "i < length (take m (drop (nat q) buf'))"
      then have i: "i < m" "nat q + i < length buf" by (auto simp: len)
      have "buf' ! (nat q + i) = buf ! (nat q + i)"
      proof (cases "nat q + i < nat pos")
        case True
        with pos show ?thesis by (simp add: buf' nth_append)
      next
        case False
        with assms(2) i True pos have *: "nat pos + n \<le> nat q + i" by linarith
        then have "\<not> nat q + i < nat pos" "\<not> nat q + i - nat pos < n" by linarith+
        with * pos i show ?thesis by (simp add: buf' nth_append)
      qed
      with i show "take m (drop (nat q) buf') ! i = take m (drop (nat q) buf) ! i"
        by (simp add: len)
    qed
    with True show ?thesis by (simp add: get_uint_ok len)
  next
    case False
    then show ?thesis by (auto simp: get_uint_def len)
  qed
qed

declare bo_bytes.simps [simp del] bo_word.simps [simp del]

section \<open>Text\<close>

definition gostr :: "string \<Rightarrow> gostring" where
  "gostr s = map of_char s"

text \<open>\<open>strconv.Itoa\<close> and the verb \<open>%d\<close>.\<close>

fun dec_digits :: "nat \<Rightarrow> gostring" where
  "dec_digits n =
     (if n < 10 then [48 + word_of_nat n] else dec_digits (n div 10) @ [48 + word_of_nat (n mod 10)])"

declare dec_digits.simps [simp del]

definition itoa :: "int \<Rightarrow> gostring" where
  "itoa i = (if i < 0 then 45 # dec_digits (nat (- i)) else dec_digits (nat i))"

text \<open>
  \<open>strconv.Atoi\<close>: an optional sign and at least one decimal digit; a value that does not fit a
  64-bit \<^verbatim>\<open>int\<close> is an error.
\<close>

definition is_digit :: "byte \<Rightarrow> bool" where
  "is_digit b \<longleftrightarrow> 48 \<le> b \<and> b \<le> 57"

definition dec_value :: "gostring \<Rightarrow> nat" where
  "dec_value = foldl (\<lambda>n b. 10 * n + (unat b - 48)) 0"

definition parse_digits :: "gostring \<Rightarrow> nat option" where
  "parse_digits s = (if s \<noteq> [] \<and> list_all is_digit s then Some (dec_value s) else None)"

definition atoi :: "gostring \<Rightarrow> int option" where
  "atoi s =
     (let (neg, ds) = (case s of [] \<Rightarrow> (False, []) | c # cs \<Rightarrow>
                         if c = 45 then (True, cs) else if c = 43 then (False, cs) else (False, s))
      in case parse_digits ds of
           None \<Rightarrow> None
         | Some n \<Rightarrow> let v = (if neg then - int n else int n)
                     in if - (2 ^ 63) \<le> v \<and> v < 2 ^ 63 then Some v else None)"

text \<open>\<open>strings.Split(s, sep)\<close> with a separator of one byte.\<close>

fun split_byte :: "byte \<Rightarrow> gostring \<Rightarrow> gostring list" where
  "split_byte c [] = [[]]"
| "split_byte c (b # bs) =
     (if b = c then [] # split_byte c bs
      else (case split_byte c bs of [] \<Rightarrow> [[b]] | t # ts \<Rightarrow> (b # t) # ts))"

lemma unat_digit: "n < 10 \<Longrightarrow> unat (48 + word_of_nat n :: byte) = 48 + n"
  by (simp add: unat_word_ariths unsigned_of_nat take_bit_nat_eq_self)

lemma is_digit_digit: "n < 10 \<Longrightarrow> is_digit (48 + word_of_nat n)"
  using unat_digit [of n] by (simp add: is_digit_def word_le_nat_alt)

lemma dec_digits_wf [simp]: "dec_digits n \<noteq> [] \<and> list_all is_digit (dec_digits n)"
proof (induction n rule: dec_digits.induct)
  case (1 n)
  then show ?case
    by (subst (1 2) dec_digits.simps) (simp add: is_digit_digit)
qed

lemma dec_value_digits [simp]: "dec_value (dec_digits n) = n"
proof (induction n rule: dec_digits.induct)
  case (1 n)
  show ?case
  proof (cases "n < 10")
    case True
    then show ?thesis by (subst dec_digits.simps) (simp add: dec_value_def unat_digit)
  next
    case False
    have "dec_value (dec_digits n) = 10 * dec_value (dec_digits (n div 10)) + n mod 10"
      using False by (subst dec_digits.simps) (simp add: dec_value_def unat_digit)
    with False 1 show ?thesis by simp
  qed
qed

lemma dec_digits_no_sign: "c \<notin> {48..57} \<Longrightarrow> c \<notin> set (dec_digits n)"
  using dec_digits_wf [of n] by (auto simp: list_all_iff is_digit_def)

lemma atoi_itoa: "- (2 ^ 63) \<le> i \<Longrightarrow> i < 2 ^ 63 \<Longrightarrow> atoi (itoa i) = Some i"
proof -
  assume i: "- (2 ^ 63) \<le> i" "i < 2 ^ 63"
  obtain c cs where c: "dec_digits (nat i) = c # cs"
    using dec_digits_wf [of "nat i"] by (cases "dec_digits (nat i)") auto
  then have "c \<noteq> 45" "c \<noteq> 43"
    using dec_digits_no_sign [of 45 "nat i"] dec_digits_no_sign [of 43 "nat i"] by auto
  moreover have "parse_digits (c # cs) = Some (nat i)"
    using dec_digits_wf [of "nat i"] dec_value_digits [of "nat i"] by (simp add: parse_digits_def c)
  ultimately show ?thesis
    using i dec_digits_wf [of "nat (- i)"]
    by (simp add: atoi_def itoa_def c parse_digits_def)
qed

lemma split_byte_none: "c \<notin> set s \<Longrightarrow> split_byte c s = [s]"
  by (induction s) auto

lemma split_byte_append: "c \<notin> set s \<Longrightarrow> split_byte c (s @ c # t) = s # split_byte c t"
  by (induction s) auto

text \<open>
  The conversion of a string to \<^verbatim>\<open>[]rune\<close>: UTF-8 with the ranges of RFC 3629; a byte that starts no
  valid sequence becomes U+FFFD.
\<close>

type_synonym rune = "32 word"

definition utf8_cont :: "byte \<Rightarrow> bool" where
  "utf8_cont b \<longleftrightarrow> 0x80 \<le> b \<and> b \<le> 0xBF"

definition rune_bits :: "byte \<Rightarrow> nat \<Rightarrow> nat \<Rightarrow> rune" where
  "rune_bits b m s = push_bit s (take_bit m (ucast b))"

definition utf8_second :: "byte \<Rightarrow> byte \<Rightarrow> bool" where
  "utf8_second b0 b1 \<longleftrightarrow>
     (if b0 = 0xE0 then 0xA0 \<le> b1 \<and> b1 \<le> 0xBF
      else if b0 = 0xED then 0x80 \<le> b1 \<and> b1 \<le> 0x9F
      else if b0 = 0xF0 then 0x90 \<le> b1 \<and> b1 \<le> 0xBF
      else if b0 = 0xF4 then 0x80 \<le> b1 \<and> b1 \<le> 0x8F
      else utf8_cont b1)"

function utf8_runes :: "gostring \<Rightarrow> rune list" where
  "utf8_runes s = (case s of
     [] \<Rightarrow> []
   | b0 # r \<Rightarrow>
       if b0 < 0x80 then ucast b0 # utf8_runes r
       else (case r of
         b1 # r1 \<Rightarrow>
           if 0xC2 \<le> b0 \<and> b0 \<le> 0xDF \<and> utf8_cont b1
           then (rune_bits b0 5 6 OR rune_bits b1 6 0) # utf8_runes r1
           else (case r1 of
             b2 # r2 \<Rightarrow>
               if 0xE0 \<le> b0 \<and> b0 \<le> 0xEF \<and> utf8_second b0 b1 \<and> utf8_cont b2
               then (rune_bits b0 4 12 OR rune_bits b1 6 6 OR rune_bits b2 6 0) # utf8_runes r2
               else (case r2 of
                 b3 # r3 \<Rightarrow>
                   if 0xF0 \<le> b0 \<and> b0 \<le> 0xF4 \<and> utf8_second b0 b1 \<and> utf8_cont b2 \<and> utf8_cont b3
                   then (rune_bits b0 3 18 OR rune_bits b1 6 12 OR rune_bits b2 6 6 OR rune_bits b3 6 0)
                          # utf8_runes r3
                   else 0xFFFD # utf8_runes r
               | [] \<Rightarrow> 0xFFFD # utf8_runes r)
           | [] \<Rightarrow> 0xFFFD # utf8_runes r)
       | [] \<Rightarrow> 0xFFFD # utf8_runes r))"
  by pat_completeness auto
termination
  by (relation "measure length") auto

declare utf8_runes.simps [simp del]

text \<open>\<open>strings.TrimSpace(s) == ""\<close>: every rune is white space in the sense of \<^verbatim>\<open>unicode.IsSpace\<close>.\<close>

definition is_space :: "rune \<Rightarrow> bool" where
  "is_space r \<longleftrightarrow> 0x09 \<le> r \<and> r \<le> 0x0D \<or> r = 0x20 \<or> r = 0x85 \<or> r = 0xA0 \<or> r = 0x1680
     \<or> 0x2000 \<le> r \<and> r \<le> 0x200A \<or> r = 0x2028 \<or> r = 0x2029 \<or> r = 0x202F \<or> r = 0x205F \<or> r = 0x3000"

definition is_blank :: "gostring \<Rightarrow> bool" where
  "is_blank s \<longleftrightarrow> list_all is_space (utf8_runes s)"

lemma is_blank_Nil [simp]: "is_blank []"
  by (simp add: is_blank_def utf8_runes.simps)

end
