(* ===== verification/Hzerrors.thy ===== *)
theory Hzerrors
  imports Prelude
begin

text \<open>
  The client's errors: the sentinels of \<^verbatim>\<open>hzerrors/errors.go\<close>, the wrappers of
  \<^verbatim>\<open>internal/hzerrors/errors.go\<close> and \<^verbatim>\<open>internal/cb/errors.go\<close>, the error codes a member sends
  (\<^verbatim>\<open>internal/cluster/error_codes.go\<close>) and their conversion in \<^verbatim>\<open>internal/cluster/connection.go\<close>.
  \<open>errors_Is\<close> and \<open>errors_As_NonRetryable\<close> follow the chain of \<^verbatim>\<open>Unwrap\<close> the way package
  \<^verbatim>\<open>errors\<close> does. Sentinels are package variables, so each is equal to itself only.
\<close>

section \<open>Errors and wrappers\<close>

datatype (plugins only:) sentinel =
  ErrClientOffline | ErrClientNotAllowedInCluster | ErrClientNotActive | ErrAddressNotFound |
  ErrUndefined | ErrArrayIndexOutOfBounds | ErrArrayStore | ErrAuthentication | ErrCache |
  ErrCacheLoader | ErrCacheNotExists | ErrCacheWriter | ErrCallerNotMember | ErrCancellation |
  ErrClassCast | ErrClassNotFound | ErrConcurrentModification | ErrConfigMismatch |
  ErrDistributedObjectDestroyed | ErrEOF | ErrEntryProcessor | ErrExecution | ErrHazelcast |
  ErrHazelcastInstanceNotActive | ErrHazelcastOverLoad | ErrHazelcastSerialization | ErrIO |
  ErrIllegalArgument | ErrIllegalAccessException | ErrIllegalAccess | ErrIllegalMonitorState |
  ErrIllegalState | ErrIllegalThreadState | ErrIndexOutOfBounds | ErrInterrupted |
  ErrInvalidAddress | ErrInvalidConfiguration | ErrMemberLeft | ErrNegativeArraySize |
  ErrNoSuchElement | ErrNotSerializable | ErrNilPointer | ErrOperationTimeout |
  ErrPartitionMigrating | ErrQuery | ErrQueryResultSizeExceeded | ErrSplitBrainProtection |
  ErrReachedMaxSize | ErrRejectedExecution | ErrResponseAlreadySent | ErrRetryableHazelcast |
  ErrRetryableIO | ErrRuntime | ErrSecurity | ErrSocket | ErrStaleSequence |
  ErrTargetDisconnected | ErrTargetNotMember | ErrTimeout | ErrTopicOverload | ErrTransaction |
  ErrTransactionNotActive | ErrTransactionTimedOut | ErrURISyntax | ErrUTFDataFormat |
  ErrUnsupportedOperation | ErrWrongTarget | ErrXA | ErrAccessControl | ErrLogin |
  ErrUnsupportedCallback | ErrNoDataMember | ErrReplicatedMapCantBeCreated |
  ErrMaxMessageSizeExceeded | ErrWANReplicationQueueFull | ErrAssertion | ErrOutOfMemory |
  ErrStackOverflow | ErrNativeOutOfMemory | ErrServiceNotFound | ErrStaleTaskID |
  ErrDuplicateTask | ErrStaleTask | ErrLocalMemberReset | ErrIndeterminateOperationState |
  ErrFlakeIDNodeIDOutOfRangeException | ErrTargetNotReplicaException |
  ErrMutationDisallowedException | ErrConsistencyLostException | ErrSessionExpiredException |
  ErrWaitKeyCancelledException | ErrLockAcquireLimitReachedException |
  ErrLockOwnershipLostException | ErrCPGroupDestroyedException | ErrCannotReplicateException |
  ErrLeaderDemotedException | ErrStaleAppendRequestException | ErrNotLeaderException |
  ErrVersionMismatchException | ErrNoSuchMethod | ErrNoSuchMethodException | ErrNoSuchField |
  ErrNoSuchFieldException | ErrNoClassDefFound | ErrSQL

text \<open>The sentinels made by \<open>retryable(...)\<close>, whose dynamic type is \<^verbatim>\<open>*RetryableError\<close>.\<close>

definition retryable_sentinels :: "sentinel list" where
  "retryable_sentinels =
     [ErrCallerNotMember, ErrMemberLeft, ErrPartitionMigrating, ErrRetryableHazelcast,
      ErrRetryableIO, ErrTargetNotMember, ErrWrongTarget, ErrTargetNotReplicaException,
      ErrCannotReplicateException]"

definition is_RetryableError :: "sentinel \<Rightarrow> bool" where
  "is_RetryableError s \<longleftrightarrow> s \<in> set retryable_sentinels"

record stack_trace_element =
  ste_ClassName :: gostring
  ste_MethodName :: gostring
  ste_FileName :: gostring
  ste_LineNumber :: i32

record error_holder =
  eh_ClassName :: gostring
  eh_Message :: gostring
  eh_StackTraceElements :: "stack_trace_element list"
  eh_ErrorCode :: i32

definition NewErrorHolder :: "i32 \<Rightarrow> gostring \<Rightarrow> gostring \<Rightarrow> stack_trace_element list \<Rightarrow> error_holder" where
  "NewErrorHolder errorCode className message stackTraceElements =
     \<lparr>eh_ClassName = className, eh_Message = message, eh_StackTraceElements = stackTraceElements,
      eh_ErrorCode = errorCode\<rparr>"

text \<open>
  \<open>ClientError msg wrapped err\<close> has the fields Message, WrappedErr and Err; \<open>WrapError\<close> is
  \<^verbatim>\<open>fmt.Errorf\<close> with \<open>%w\<close>; \<open>NonRetryable err persistent\<close> is \<^verbatim>\<open>*cb.NonRetryableError\<close>.
\<close>

datatype (plugins only: size) go_error =
    Sentinel sentinel
  | ContextCanceled
  | ContextDeadlineExceeded
  | ErrCircuitOpen
  | CbErrDeadlineExceeded
  | ErrResponseChannelClosed
  | ServerError "error_holder list"
  | ClientError gostring "go_error option" "go_error option"
  | WrapError gostring go_error
  | NonRetryable go_error bool
  | OtherError gostring

definition NewTargetDisconnectedError :: "gostring \<Rightarrow> go_error option \<Rightarrow> go_error" where
  "NewTargetDisconnectedError msg err = ClientError msg err (Some (Sentinel ErrTargetDisconnected))"

definition NewIOError :: "gostring \<Rightarrow> go_error option \<Rightarrow> go_error" where
  "NewIOError msg err = ClientError msg err (Some (Sentinel ErrIO))"

definition NewSerializationError :: "gostring \<Rightarrow> go_error option \<Rightarrow> go_error" where
  "NewSerializationError msg err = ClientError msg err (Some (Sentinel ErrHazelcastSerialization))"

definition WrapNonRetryableError :: "go_error \<Rightarrow> go_error" where
  "WrapNonRetryableError err = NonRetryable err False"

definition WrapNonRetryableErrorPersistent :: "go_error \<Rightarrow> go_error" where
  "WrapNonRetryableErrorPersistent err = NonRetryable err True"

section \<open>Unwrapping\<close>

text \<open>
  \<open>ClientError\<close> unwraps to WrappedErr, and its \<open>Is\<close> method asks whether the target's own chain
  holds Err. \<open>NonRetryable\<close> claims to be any \<open>NonRetryable\<close> target.
\<close>

function errors_Is :: "go_error \<Rightarrow> go_error \<Rightarrow> bool" where
  "errors_Is (ClientError msg wrapped err) t =
     (ClientError msg wrapped err = t
      \<or> (case err of None \<Rightarrow> False | Some e \<Rightarrow> errors_Is t e)
      \<or> (case wrapped of None \<Rightarrow> False | Some w \<Rightarrow> errors_Is w t))"
| "errors_Is (WrapError msg e) t = (WrapError msg e = t \<or> errors_Is e t)"
| "errors_Is (NonRetryable e p) t =
     (NonRetryable e p = t \<or> (case t of NonRetryable _ _ \<Rightarrow> True | _ \<Rightarrow> False) \<or> errors_Is e t)"
| "errors_Is (Sentinel s) t = (Sentinel s = t)"
| "errors_Is ContextCanceled t = (ContextCanceled = t)"
| "errors_Is ContextDeadlineExceeded t = (ContextDeadlineExceeded = t)"
| "errors_Is ErrCircuitOpen t = (ErrCircuitOpen = t)"
| "errors_Is CbErrDeadlineExceeded t = (CbErrDeadlineExceeded = t)"
| "errors_Is ErrResponseChannelClosed t = (ErrResponseChannelClosed = t)"
| "errors_Is (ServerError hs) t = (ServerError hs = t)"
| "errors_Is (OtherError msg) t = (OtherError msg = t)"
  by pat_completeness auto
termination
  by (relation "measure (\<lambda>(e, t). size e + size t)") (auto simp: size_option_def)

fun errors_As_NonRetryable :: "go_error \<Rightarrow> (go_error \<times> bool) option" where
  "errors_As_NonRetryable (NonRetryable e p) = Some (e, p)"
| "errors_As_NonRetryable (ClientError msg wrapped err) =
     (case wrapped of None \<Rightarrow> None | Some w \<Rightarrow> errors_As_NonRetryable w)"
| "errors_As_NonRetryable (WrapError msg e) = errors_As_NonRetryable e"
| "errors_As_NonRetryable _ = None"

definition ClientError_IsRetryable :: "go_error option \<Rightarrow> bool" where
  "ClientError_IsRetryable err = (case err of Some (Sentinel s) \<Rightarrow> is_RetryableError s | _ \<Rightarrow> False)"

definition IsRetryable :: "go_error \<Rightarrow> bool" where
  "IsRetryable e = (case e of
     Sentinel s \<Rightarrow> is_RetryableError s
   | ClientError _ _ err \<Rightarrow> ClientError_IsRetryable err
   | _ \<Rightarrow> False)"

definition contextErr :: "go_error \<Rightarrow> bool" where
  "contextErr e \<longleftrightarrow> errors_Is e ContextCanceled \<or> errors_Is e ContextDeadlineExceeded"

section \<open>Error codes of the members\<close>

text \<open>The two halves of the switch in \<open>convertErrorCodeToError\<close>; any other code gives \<^verbatim>\<open>nil\<close>.\<close>

definition error_codes_0_49 :: "(i32 \<times> sentinel) list" where
  "error_codes_0_49 =
     [(0, ErrUndefined), (1, ErrArrayIndexOutOfBounds), (2, ErrArrayStore), (3, ErrAuthentication),
      (4, ErrCache), (5, ErrCacheLoader), (6, ErrCacheNotExists), (7, ErrCacheWriter),
      (8, ErrCallerNotMember), (9, ErrCancellation), (10, ErrClassCast), (11, ErrClassNotFound),
      (12, ErrConcurrentModification), (13, ErrConfigMismatch),
      (14, ErrDistributedObjectDestroyed), (15, ErrEOF), (16, ErrEntryProcessor),
      (17, ErrExecution), (18, ErrHazelcast), (19, ErrHazelcastInstanceNotActive),
      (20, ErrHazelcastOverLoad), (21, ErrHazelcastSerialization), (22, ErrIO),
      (23, ErrIllegalArgument), (24, ErrIllegalAccessException), (25, ErrIllegalAccess),
      (26, ErrIllegalMonitorState), (27, ErrIllegalState), (28, ErrIllegalThreadState),
      (29, ErrIndexOutOfBounds), (30, ErrInterrupted), (31, ErrInvalidAddress),
      (32, ErrInvalidConfiguration), (33, ErrMemberLeft), (34, ErrNegativeArraySize),
      (35, ErrNoSuchElement), (36, ErrNotSerializable), (37, ErrNilPointer),
      (38, ErrOperationTimeout), (39, ErrPartitionMigrating), (40, ErrQuery),
      (41, ErrQueryResultSizeExceeded), (42, ErrSplitBrainProtection), (43, ErrReachedMaxSize),
      (44, ErrRejectedExecution), (45, ErrResponseAlreadySent), (46, ErrRetryableHazelcast),
      (47, ErrRetryableIO), (48, ErrRuntime), (49, ErrSecurity)]"

definition error_codes_50_99 :: "(i32 \<times> sentinel) list" where
  "error_codes_50_99 =
     [(50, ErrSocket), (51, ErrStaleSequence), (52, ErrTargetDisconnected),
      (53, ErrTargetNotMember), (54, ErrTimeout), (55, ErrTopicOverload), (56, ErrTransaction),
      (57, ErrTransactionNotActive), (58, ErrTransactionTimedOut), (59, ErrURISyntax),
      (60, ErrUTFDataFormat), (61, ErrUnsupportedOperation), (62, ErrWrongTarget), (63, ErrXA),
      (64, ErrAccessControl), (65, ErrLogin), (66, ErrUnsupportedCallback), (67, ErrNoDataMember),
      (68, ErrReplicatedMapCantBeCreated), (69, ErrMaxMessageSizeExceeded),
      (70, ErrWANReplicationQueueFull), (71, ErrAssertion), (72, ErrOutOfMemory),
      (73, ErrStackOverflow), (74, ErrNativeOutOfMemory), (75, ErrServiceNotFound),
      (76, ErrStaleTaskID), (77, ErrDuplicateTask), (78, ErrStaleTask), (79, ErrLocalMemberReset),
      (80, ErrIndeterminateOperationState), (81, ErrFlakeIDNodeIDOutOfRangeException),
      (82, ErrTargetNotReplicaException), (83, ErrMutationDisallowedException),
      (84, ErrConsistencyLostException), (85, ErrSessionExpiredException),
      (86, ErrWaitKeyCancelledException), (87, ErrLockAcquireLimitReachedException),
      (88, ErrLockOwnershipLostException), (89, ErrCPGroupDestroyedException),
      (90, ErrCannotReplicateException), (91, ErrLeaderDemotedException),
      (92, ErrStaleAppendRequestException), (93, ErrNotLeaderException),
      (94, ErrVersionMismatchException), (95, ErrNoSuchMethod), (96, ErrNoSuchMethodException),
      (97, ErrNoSuchField), (98, ErrNoSuchFieldException), (99, ErrNoClassDefFound)]"

definition convertErrorCodeToError :: "i32 \<Rightarrow> sentinel option" where
  "convertErrorCodeToError code =
     (case map_of error_codes_0_49 code of
        Some e \<Rightarrow> Some e
      | None \<Rightarrow> map_of error_codes_50_99 code)"

text \<open>\<open>ErrorCode()\<close> reads the first holder, so it panics on an empty list.\<close>

definition ServerError_ErrorCode :: "error_holder list \<Rightarrow> i32 go" where
  "ServerError_ErrorCode hs = bind_go (go_index hs 0) (\<lambda>h. Inr (eh_ErrorCode h))"

definition stack_trace_text :: "stack_trace_element \<Rightarrow> gostring" where
  "stack_trace_text t =
     [9] @ ste_ClassName t @ gostr ''.'' @ ste_MethodName t @ gostr ''('' @ ste_FileName t
       @ gostr '':'' @ itoa (sint (ste_LineNumber t)) @ gostr '')'' @ [10]"

definition ServerError_String :: "error_holder list \<Rightarrow> gostring" where
  "ServerError_String hs =
     gostr ''server error:'' @ [10]
       @ concat (map (\<lambda>h. eh_ClassName h @ gostr '': '' @ eh_Message h @ [10]
                          @ concat (map stack_trace_text (eh_StackTraceElements h))) hs)"

definition wrapError :: "error_holder list \<Rightarrow> go_error go" where
  "wrapError hs =
     bind_go (ServerError_ErrorCode hs)
       (\<lambda>code. Inr (ClientError (ServerError_String hs) (Some (ServerError hs))
                        (map_option Sentinel (convertErrorCodeToError code))))"

section \<open>Facts\<close>

lemma error_codes_keys:
  "map fst error_codes_0_49 = map word_of_nat [0..<50]"
  "map fst error_codes_50_99 = map word_of_nat [50..<100]"
  by (simp_all add: error_codes_0_49_def error_codes_50_99_def upt_rec)

lemma error_sentinels_distinct:
  "distinct (map snd (error_codes_0_49 @ error_codes_50_99))"
  by (simp add: error_codes_0_49_def error_codes_50_99_def)

lemma convertErrorCodeToError_map_of:
  "convertErrorCodeToError c = map_of (error_codes_0_49 @ error_codes_50_99) c"
  by (auto simp: convertErrorCodeToError_def map_add_def split: option.splits)

text \<open>
  The conversion of error codes is defined exactly on the codes 0 to 99, and no two codes
  share a sentinel.
\<close>

theorem error_code_table:
  "dom convertErrorCodeToError = {c. unat c < 100} \<and> inj_on convertErrorCodeToError {c. unat c < 100}"
proof -
  let ?t = "error_codes_0_49 @ error_codes_50_99"
  have keys: "map fst ?t = map word_of_nat [0..<100]"
    using upt_add_eq_append [of 0 50 50] by (simp add: error_codes_keys)
  have dom: "dom convertErrorCodeToError = {c. unat c < 100}"
  proof -
    have "dom convertErrorCodeToError = set (map fst ?t)"
      by (auto simp: convertErrorCodeToError_map_of [abs_def] dom_map_of_conv_image_fst)
    also have "\<dots> = word_of_nat ` {0..<100}" by (simp only: keys) simp
    also have "\<dots> = {c :: i32. unat c < 100}"
    proof (intro equalityI subsetI)
      fix c :: i32 assume "c \<in> {c. unat c < 100}"
      then show "c \<in> word_of_nat ` {0..<100}" by (intro image_eqI [of _ _ "unat c"]) simp_all
    qed (auto simp: unsigned_of_nat take_bit_nat_eq_self)
    finally show ?thesis .
  qed
  have "inj_on convertErrorCodeToError (dom convertErrorCodeToError)"
  proof (rule inj_onI)
    fix c d assume "c \<in> dom convertErrorCodeToError" "convertErrorCodeToError c = convertErrorCodeToError d"
    then obtain e where "map_of ?t c = Some e" "map_of ?t d = Some e"
      by (auto simp: convertErrorCodeToError_map_of)
    then have "(c, e) \<in> set ?t" "(d, e) \<in> set ?t" by (blast dest: map_of_SomeD)+
    moreover have "inj_on snd (set ?t)" using error_sentinels_distinct distinct_map by blast
    ultimately have "(c, e) = (d, e)" using inj_onD [of snd "set ?t" "(c, e)" "(d, e)"] by simp
    then show "c = d" by simp
  qed
  with dom show ?thesis by simp
qed


end
