(* ===== verification/Frames.thy ===== *)
theory Frames
  imports Hzerrors
begin

text \<open>
  Frames and client messages: \<^verbatim>\<open>internal/proto/message.go\<close> and \<^verbatim>\<open>internal/proto/message_const.go\<close>.
  A frame is its content and 16 flag bits; a message is a list of frames whose first frame carries
  the header fields at fixed offsets.
\<close>

unbundle bit_operations_syntax

section \<open>Constants\<close>

definition BeginFragmentFlag :: "16 word" where "BeginFragmentFlag = push_bit 15 1"
definition EndFragmentFlag :: "16 word" where "EndFragmentFlag = push_bit 14 1"
definition IsFinalFlag :: "16 word" where "IsFinalFlag = push_bit 13 1"
definition BeginDataStructureFlag :: "16 word" where "BeginDataStructureFlag = push_bit 12 1"
definition EndDataStructureFlag :: "16 word" where "EndDataStructureFlag = push_bit 11 1"
definition IsNullFlag :: "16 word" where "IsNullFlag = push_bit 10 1"
definition IsEventFlag :: "16 word" where "IsEventFlag = push_bit 9 1"
definition BackupEventFlag :: "16 word" where "BackupEventFlag = push_bit 7 1"
definition UnfragmentedMessage :: "16 word" where "UnfragmentedMessage = BeginFragmentFlag OR EndFragmentFlag"

lemmas flag_defs =
  BeginFragmentFlag_def EndFragmentFlag_def IsFinalFlag_def BeginDataStructureFlag_def
  EndDataStructureFlag_def IsNullFlag_def IsEventFlag_def BackupEventFlag_def UnfragmentedMessage_def

definition TypeFieldOffset :: int where "TypeFieldOffset = 0"
definition CorrelationIDFieldOffset :: int where "CorrelationIDFieldOffset = TypeFieldOffset + 4"
definition FragmentationIDOffset :: int where "FragmentationIDOffset = 0"
definition PartitionIDOffset :: int where "PartitionIDOffset = CorrelationIDFieldOffset + 8"
definition ResponseBackupAcksOffset :: int where "ResponseBackupAcksOffset = CorrelationIDFieldOffset + 8"
definition SizeOfFrameLengthAndFlags :: nat where "SizeOfFrameLengthAndFlags = 4 + 2"

lemmas offset_defs =
  TypeFieldOffset_def CorrelationIDFieldOffset_def FragmentationIDOffset_def PartitionIDOffset_def
  ResponseBackupAcksOffset_def

section \<open>Frames\<close>

record frame =
  fr_Content :: "byte list"
  fr_flags :: "16 word"

definition NewFrame :: "byte list \<Rightarrow> frame" where
  "NewFrame content = \<lparr>fr_Content = content, fr_flags = 0\<rparr>"

definition NewFrameWith :: "byte list \<Rightarrow> 16 word \<Rightarrow> frame" where
  "NewFrameWith content flags = \<lparr>fr_Content = content, fr_flags = flags\<rparr>"

definition NullFrame :: frame where "NullFrame = NewFrameWith [] IsNullFlag"
definition BeginFrame :: frame where "BeginFrame = NewFrameWith [] BeginDataStructureFlag"
definition EndFrame :: frame where "EndFrame = NewFrameWith [] EndDataStructureFlag"

definition IsFlagSet :: "16 word \<Rightarrow> frame \<Rightarrow> bool" where
  "IsFlagSet flagMask f \<longleftrightarrow> fr_flags f AND flagMask = flagMask"

definition IsEndFrame :: "frame \<Rightarrow> bool" where "IsEndFrame = IsFlagSet EndDataStructureFlag"
definition IsBeginFrame :: "frame \<Rightarrow> bool" where "IsBeginFrame = IsFlagSet BeginDataStructureFlag"
definition IsNullFrame :: "frame \<Rightarrow> bool" where "IsNullFrame = IsFlagSet IsNullFlag"
definition frame_HasEventFlag :: "frame \<Rightarrow> bool" where "frame_HasEventFlag = IsFlagSet IsEventFlag"
definition frame_HasBackupEventFlag :: "frame \<Rightarrow> bool" where "frame_HasBackupEventFlag = IsFlagSet BackupEventFlag"
definition frame_HasUnFragmentedMessageFlags :: "frame \<Rightarrow> bool" where
  "frame_HasUnFragmentedMessageFlags = IsFlagSet UnfragmentedMessage"
definition IsFinalFrame :: "frame \<Rightarrow> bool" where "IsFinalFrame = IsFlagSet IsFinalFlag"

definition GetLength :: "frame \<Rightarrow> nat" where
  "GetLength f = SizeOfFrameLengthAndFlags + length (fr_Content f)"

section \<open>Client messages\<close>

record client_message =
  cm_Err :: "go_error option"
  cm_Frames :: "frame list"
  cm_Retryable :: bool

definition NewClientMessageForEncode :: client_message where
  "NewClientMessageForEncode = \<lparr>cm_Err = None, cm_Frames = [], cm_Retryable = False\<rparr>"

definition AddFrame :: "frame \<Rightarrow> client_message \<Rightarrow> client_message" where
  "AddFrame f m = m\<lparr>cm_Frames := cm_Frames m @ [f]\<rparr>"

definition NewClientMessage :: "frame \<Rightarrow> client_message" where
  "NewClientMessage startFrame = AddFrame startFrame NewClientMessageForEncode"

definition SetRetryable :: "bool \<Rightarrow> client_message \<Rightarrow> client_message" where
  "SetRetryable retryable m = m\<lparr>cm_Retryable := retryable\<rparr>"

text \<open>\<open>Copy\<close> deep-copies the first frame; as a value it is the same message, or a panic when empty.\<close>

definition message_Copy :: "client_message \<Rightarrow> client_message go" where
  "message_Copy m = bind_go (go_index (cm_Frames m) 0) (\<lambda>_. Inr m)"

definition header_get :: "nat \<Rightarrow> int \<Rightarrow> client_message \<Rightarrow> 'a::len word go" where
  "header_get n off m = bind_go (go_index (cm_Frames m) 0) (\<lambda>f. get_uint LittleEndian n (fr_Content f) off)"

definition header_put :: "nat \<Rightarrow> int \<Rightarrow> 'a::len word \<Rightarrow> client_message \<Rightarrow> client_message go" where
  "header_put n off v m = bind_go (go_index (cm_Frames m) 0)
     (\<lambda>f. bind_go (put_uint LittleEndian n (fr_Content f) off v)
            (\<lambda>c. Inr (m\<lparr>cm_Frames := (cm_Frames m)[0 := f\<lparr>fr_Content := c\<rparr>]\<rparr>)))"

definition message_Type :: "client_message \<Rightarrow> i32 go" where
  "message_Type = header_get 4 TypeFieldOffset"

definition CorrelationID :: "client_message \<Rightarrow> i64 go" where
  "CorrelationID = header_get 8 CorrelationIDFieldOffset"

definition FragmentationID :: "client_message \<Rightarrow> i64 go" where
  "FragmentationID = header_get 8 FragmentationIDOffset"

definition NumberOfBackupAcks :: "client_message \<Rightarrow> byte go" where
  "NumberOfBackupAcks m = bind_go (go_index (cm_Frames m) 0) (\<lambda>f. go_index (fr_Content f) ResponseBackupAcksOffset)"

definition message_PartitionID :: "client_message \<Rightarrow> i32 go" where
  "message_PartitionID = header_get 4 PartitionIDOffset"

definition SetCorrelationID :: "i64 \<Rightarrow> client_message \<Rightarrow> client_message go" where
  "SetCorrelationID = header_put 8 CorrelationIDFieldOffset"

definition SetMessageType :: "i32 \<Rightarrow> client_message \<Rightarrow> client_message go" where
  "SetMessageType = header_put 4 TypeFieldOffset"

definition SetPartitionId :: "i32 \<Rightarrow> client_message \<Rightarrow> client_message go" where
  "SetPartitionId = header_put 4 PartitionIDOffset"

definition TotalLength :: "client_message \<Rightarrow> nat" where
  "TotalLength m = sum_list (map GetLength (cm_Frames m))"

definition DropFragmentationFrame :: "client_message \<Rightarrow> client_message go" where
  "DropFragmentationFrame m = bind_go (go_slice_from (cm_Frames m) 1) (\<lambda>fs. Inr (m\<lparr>cm_Frames := fs\<rparr>))"

definition first_frame :: "(frame \<Rightarrow> bool) \<Rightarrow> client_message \<Rightarrow> bool go" where
  "first_frame p m = bind_go (go_index (cm_Frames m) 0) (\<lambda>f. Inr (p f))"

definition HasEventFlag :: "client_message \<Rightarrow> bool go" where
  "HasEventFlag = first_frame frame_HasEventFlag"

definition HasBackupEventFlag :: "client_message \<Rightarrow> bool go" where
  "HasBackupEventFlag = first_frame frame_HasBackupEventFlag"

definition HasUnFragmentedMessageFlags :: "client_message \<Rightarrow> bool go" where
  "HasUnFragmentedMessageFlags = first_frame frame_HasUnFragmentedMessageFlags"

definition HasFinalFrame :: "client_message \<Rightarrow> bool go" where
  "HasFinalFrame m =
     bind_go (go_index (cm_Frames m) (int (length (cm_Frames m)) - 1)) (\<lambda>f. Inr (IsFinalFrame f))"

text \<open>
  \<open>Write\<close> sends a header and the content of each frame; the last frame gets the final flag. The
  writer \<open>w\<close> takes bytes and its own state and may fail.
\<close>

definition frame_header :: "nat \<Rightarrow> 16 word \<Rightarrow> byte list" where
  "frame_header n flags =
     bo_bytes LittleEndian 4 (word_of_nat (n + SizeOfFrameLengthAndFlags) :: 32 word) @ bo_bytes LittleEndian 2 flags"

fun write_frames ::
  "(byte list \<Rightarrow> 's \<Rightarrow> go_error option \<times> 's) \<Rightarrow> frame list \<Rightarrow> 's \<Rightarrow> go_error option \<times> 's" where
  "write_frames w [] s = (None, s)"
| "write_frames w (f # fs) s =
     (let flags = (if fs = [] then fr_flags f OR IsFinalFlag else fr_flags f)
      in case w (frame_header (length (fr_Content f)) flags) s of
           (Some err, s) \<Rightarrow> (Some err, s)
         | (None, s) \<Rightarrow>
             (case w (fr_Content f) s of
                (Some err, s) \<Rightarrow> (Some err, s)
              | (None, s) \<Rightarrow> write_frames w fs s))"

definition message_Write ::
  "(byte list \<Rightarrow> 's \<Rightarrow> go_error option \<times> 's) \<Rightarrow> client_message \<Rightarrow> 's \<Rightarrow> go_error option \<times> 's" where
  "message_Write w m s = write_frames w (cm_Frames m) s"

section \<open>Iteration over frames\<close>

record frame_iterator =
  it_frames :: "frame list"
  it_next :: nat

definition FrameIterator :: "client_message \<Rightarrow> frame_iterator" where
  "FrameIterator m = \<lparr>it_frames = cm_Frames m, it_next = 0\<rparr>"

definition it_Next :: "frame_iterator \<Rightarrow> (frame \<times> frame_iterator) go" where
  "it_Next it = bind_go (go_index (it_frames it) (int (it_next it)))
     (\<lambda>f. Inr (f, it\<lparr>it_next := it_next it + 1\<rparr>))"

definition HasNext :: "frame_iterator \<Rightarrow> bool" where
  "HasNext it \<longleftrightarrow> it_next it < length (it_frames it)"

definition PeekNext :: "frame_iterator \<Rightarrow> frame go" where
  "PeekNext it = go_index (it_frames it) (int (it_next it))"

section \<open>Facts\<close>

text \<open>The bytes of a frame, of a list of frames, and of a message as it is sent.\<close>

definition frame_bytes :: "frame \<Rightarrow> byte list" where
  "frame_bytes f = frame_header (length (fr_Content f)) (fr_flags f) @ fr_Content f"

definition set_final :: "frame \<Rightarrow> frame" where
  "set_final f = f\<lparr>fr_flags := fr_flags f OR IsFinalFlag\<rparr>"

fun final_last :: "frame list \<Rightarrow> frame list" where
  "final_last [] = []"
| "final_last [f] = [set_final f]"
| "final_last (f # g # fs) = f # final_last (g # fs)"

lemma length_frame_header [simp]: "length (frame_header n flags) = 6"
  by (simp add: frame_header_def)

lemma length_frame_bytes [simp]: "length (frame_bytes f) = 6 + length (fr_Content f)"
  by (simp add: frame_bytes_def)

text \<open>What a writer that collects the bytes receives.\<close>

definition collect :: "byte list \<Rightarrow> byte list \<Rightarrow> go_error option \<times> byte list" where
  "collect bs s = (None, s @ bs)"

lemma write_frames_collect:
  "write_frames collect fs s = (None, s @ concat (map frame_bytes (final_last fs)))"
  by (induction fs arbitrary: s rule: final_last.induct)
     (simp_all add: collect_def frame_bytes_def set_final_def)

lemma length_final_last [simp]: "length (final_last fs) = length fs"
  by (induction fs rule: final_last.induct) simp_all

lemma TotalLength_bytes:
  "TotalLength m = length (concat (map frame_bytes (final_last (cm_Frames m))))"
proof -
  have "sum_list (map GetLength fs) = length (concat (map frame_bytes (final_last fs)))" for fs
    by (induction fs rule: final_last.induct)
       (simp_all add: GetLength_def SizeOfFrameLengthAndFlags_def set_final_def)
  then show ?thesis by (simp add: TotalLength_def)
qed

lemma IsFlagSet_bits:
  "IsFlagSet (push_bit k 1) f \<longleftrightarrow> bit (fr_flags f) k \<or> 16 \<le> k"
  by (auto simp: IsFlagSet_def bit_eq_iff [of "_ :: 16 word"] bit_and_iff bit_exp_iff not_le)

lemma IsFlagSet_or: "IsFlagSet (a OR b) f \<longleftrightarrow> IsFlagSet a f \<and> IsFlagSet b f"
  by (auto simp: IsFlagSet_def bit_eq_iff bit_and_iff bit_or_iff)

lemma bit_or_flag: "bit (w OR push_bit m 1 :: 16 word) k \<longleftrightarrow> bit w k \<or> k = m \<and> m < 16"
  by (auto simp: bit_or_iff bit_exp_iff)

lemma flag_bits:
  "IsFinalFrame f \<longleftrightarrow> bit (fr_flags f) 13"
  "IsBeginFrame f \<longleftrightarrow> bit (fr_flags f) 12"
  "IsEndFrame f \<longleftrightarrow> bit (fr_flags f) 11"
  "IsNullFrame f \<longleftrightarrow> bit (fr_flags f) 10"
  by (simp_all only: IsFinalFrame_def IsBeginFrame_def IsEndFrame_def IsNullFrame_def flag_defs IsFlagSet_bits) simp_all

lemma unfragmented_bits:
  "frame_HasUnFragmentedMessageFlags f \<longleftrightarrow> bit (fr_flags f) 15 \<and> bit (fr_flags f) 14"
  by (simp only: frame_HasUnFragmentedMessageFlags_def flag_defs IsFlagSet_bits IsFlagSet_or) simp

lemma set_final_bits:
  "bit (fr_flags (set_final f)) k \<longleftrightarrow> bit (fr_flags f) k \<or> k = 13"
  "fr_Content (set_final f) = fr_Content f"
proof -
  have "bit (fr_flags (set_final f)) k \<longleftrightarrow> bit (fr_flags f OR push_bit 13 1) k"
    by (simp add: set_final_def IsFinalFlag_def)
  then show "bit (fr_flags (set_final f)) k \<longleftrightarrow> bit (fr_flags f) k \<or> k = 13"
    using bit_or_flag [of "fr_flags f" 13 k] by simp
qed (simp add: set_final_def)

end
