(* ===== verification/MessageReader.thy ===== *)
theory MessageReader
  imports Frames
begin

text \<open>
  Reassembly of messages from the byte chunks a socket delivers: \<^verbatim>\<open>internal/cluster/client_message.go\<close>
  and the inner loop of \<open>socketReadLoop\<close> in \<^verbatim>\<open>internal/cluster/connection.go\<close>. The reader keeps the
  bytes not consumed yet, the header of a frame whose content has not arrived, and the message
  under construction.
\<close>

section \<open>The reader\<close>

record message_reader =
  mr_src :: "byte list"
  mr_clientMessage :: "client_message option"
  mr_currentFrameLength :: "32 word"
  mr_currentFlags :: "16 word"
  mr_readHeader :: bool

definition newClientMessageReader :: message_reader where
  "newClientMessageReader = \<lparr>mr_src = [], mr_clientMessage = None, mr_currentFrameLength = 0,
     mr_currentFlags = 0, mr_readHeader = False\<rparr>"

definition reader_Append :: "byte list \<Rightarrow> message_reader \<Rightarrow> message_reader" where
  "reader_Append buf r = r\<lparr>mr_src := mr_src r @ buf\<rparr>"

text \<open>The first half of \<open>readFrame\<close>: the header, when none is pending and six bytes are there.\<close>

definition read_header :: "message_reader \<Rightarrow> (bool \<times> message_reader) go" where
  "read_header r =
     (if mr_readHeader r then Inr (True, r)
      else if length (mr_src r) < SizeOfFrameLengthAndFlags then Inr (False, r)
      else let frameLength = bo_word LittleEndian (take 4 (mr_src r));
               rest = drop 4 (mr_src r)
           in if unat (frameLength :: 32 word) < SizeOfFrameLengthAndFlags
              then Inl (PanicMessage ''frame length is less than SizeOfFrameLengthAndFlags'')
              else Inr (True, r\<lparr>mr_src := drop 2 rest, mr_currentFrameLength := frameLength,
                             mr_currentFlags := bo_word LittleEndian (take 2 rest), mr_readHeader := True\<rparr>))"

definition readFrame :: "message_reader \<Rightarrow> (bool \<times> message_reader) go" where
  "readFrame r = bind_go (read_header r)
     (\<lambda>(ok, r). if \<not> ok then Inr (False, r)
        else let size' = unat (mr_currentFrameLength r) - SizeOfFrameLengthAndFlags
             in if length (mr_src r) < size' then Inr (False, r)
                else let f = NewFrameWith (take size' (mr_src r)) (mr_currentFlags r);
                         m = (case mr_clientMessage r of None \<Rightarrow> NewClientMessage f | Some m \<Rightarrow> AddFrame f m)
                     in Inr (True, r\<lparr>mr_src := drop size' (mr_src r), mr_clientMessage := Some m,
                                    mr_readHeader := False\<rparr>))"

definition reader_measure :: "message_reader \<Rightarrow> nat" where
  "reader_measure r = 2 * length (mr_src r) + (if mr_readHeader r then 1 else 0)"

lemma readFrame_measure: "readFrame r = Inr (True, r') \<Longrightarrow> reader_measure r' < reader_measure r"
  by (auto simp: readFrame_def read_header_def reader_measure_def SizeOfFrameLengthAndFlags_def Let_def
      split: if_splits)

function reader_Read :: "message_reader \<Rightarrow> (client_message option \<times> message_reader) go" where
  "reader_Read r = bind_go (readFrame r)
     (\<lambda>res. if fst res
        then (case mr_clientMessage (snd res) of
                None \<Rightarrow> Inl NilDereference
              | Some m \<Rightarrow> bind_go (HasFinalFrame m)
                  (\<lambda>final. if final then Inr (Some m, snd res) else reader_Read (snd res)))
        else Inr (None, snd res))"
  by pat_completeness auto
termination
  by (relation "measure reader_measure") (auto intro: readFrame_measure)

declare reader_Read.simps [simp del]

definition ResetMessage :: "message_reader \<Rightarrow> message_reader" where
  "ResetMessage r = r\<lparr>mr_clientMessage := None\<rparr>"

text \<open>\<open>ResetBuffer\<close> writes the unread bytes into a fresh or emptied buffer.\<close>

definition ResetBuffer :: "message_reader \<Rightarrow> message_reader" where
  "ResetBuffer r =
     (let allCopy = mr_src r; r = r\<lparr>mr_src := []\<rparr>
      in if length allCopy > 0 then reader_Append allCopy r else r)"

section \<open>The read loop\<close>

lemma reader_Read_measure: "reader_Read r = Inr (Some m, r') \<Longrightarrow> reader_measure r' < reader_measure r"
proof (induction r rule: reader_Read.induct)
  case (1 r)
  obtain ok r1 where f: "readFrame r = Inr (ok, r1)"
    using "1.prems" by (cases "readFrame r") (auto simp: reader_Read.simps [of r])
  with "1.prems" have ok: ok by (cases ok) (auto simp: reader_Read.simps [of r])
  with f have less: "reader_measure r1 < reader_measure r" using readFrame_measure by simp
  obtain cm final where c: "mr_clientMessage r1 = Some cm" "HasFinalFrame cm = Inr final"
    using "1.prems" f ok
    by (cases "mr_clientMessage r1"; cases "HasFinalFrame (the (mr_clientMessage r1))") (auto simp: reader_Read.simps [of r])
  show ?case
  proof (cases final)
    case True
    with "1.prems" f ok c less show ?thesis by (auto simp: reader_Read.simps [of r])
  next
    case False
    with "1.prems" f ok c have "reader_Read r1 = Inr (Some m, r')" by (auto simp: reader_Read.simps [of r])
    with "1.IH" [OF f] ok c False less show ?thesis by fastforce
  qed
qed

text \<open>
  The inner loop of \<open>socketReadLoop\<close>. \<open>handle\<close> is what happens to a complete message; it returns
  whether the loop ends there. A message whose first frame is not marked as unfragmented is neither
  handled nor reset.
\<close>

function drain ::
  "(client_message \<Rightarrow> 's \<Rightarrow> (bool \<times> 's) go) \<Rightarrow> 's \<Rightarrow> message_reader \<Rightarrow> (bool \<times> 's \<times> message_reader) go" where
  "drain handle s r = bind_go (reader_Read r)
     (\<lambda>res. case fst res of
        None \<Rightarrow> Inr (False, s, snd res)
      | Some m \<Rightarrow> bind_go (HasUnFragmentedMessageFlags m)
          (\<lambda>unfragmented. if unfragmented
             then bind_go (handle m s) (\<lambda>res'. if fst res' then Inr (True, snd res', snd res)
                    else drain handle (snd res') (ResetMessage (snd res)))
             else drain handle s (snd res)))"
  by pat_completeness auto
termination
proof (relation "measure (\<lambda>(_, _, r). reader_measure r)")
  show "wf (measure (\<lambda>(_, _, r). reader_measure r))" by simp
  fix handle :: "client_message \<Rightarrow> 's \<Rightarrow> (bool \<times> 's) go" and s r res m unfr res'
  assume "reader_Read r = Inr res" "fst res = Some m"
  then have *: "reader_measure (snd res) < reader_measure r"
    using reader_Read_measure [of r m "snd res"] by (metis prod.collapse)
  then show "((handle, s, snd res), (handle, s, r)) \<in> measure (\<lambda>(_, _, r). reader_measure r)" by simp
  from * show "((handle, snd res', ResetMessage (snd res)), (handle, s, r)) \<in> measure (\<lambda>(_, _, r). reader_measure r)"
    by (simp add: ResetMessage_def reader_measure_def)
qed

declare drain.simps [simp del]

definition read_chunk ::
  "(client_message \<Rightarrow> 's \<Rightarrow> (bool \<times> 's) go) \<Rightarrow> byte list \<Rightarrow> 's \<Rightarrow> message_reader \<Rightarrow> (bool \<times> 's \<times> message_reader) go" where
  "read_chunk handle buf s r =
     bind_go (drain handle s (reader_Append buf r))
       (\<lambda>(stop, s, r). if stop then Inr (True, s, r) else Inr (False, s, ResetBuffer r))"

fun read_chunks ::
  "(client_message \<Rightarrow> 's \<Rightarrow> (bool \<times> 's) go) \<Rightarrow> byte list list \<Rightarrow> 's \<Rightarrow> message_reader \<Rightarrow> (bool \<times> 's \<times> message_reader) go" where
  "read_chunks handle [] s r = Inr (False, s, r)"
| "read_chunks handle (c # cs) s r =
     (if c = [] then read_chunks handle cs s r
      else bind_go (read_chunk handle c s r)
             (\<lambda>(stop, s, r). if stop then Inr (True, s, r) else read_chunks handle cs s r))"

section \<open>Reassembly does not depend on the chunks\<close>

text \<open>
  The frames a stream of bytes stands for are handed over one by one: \<open>absorb\<close> adds a frame to the
  message under construction and hands the message over when the frame is final.
\<close>

definition message_of :: "frame list \<Rightarrow> client_message" where
  "message_of fs = \<lparr>cm_Err = None, cm_Frames = fs, cm_Retryable = False\<rparr>"

definition absorb :: "(client_message \<Rightarrow> 's \<Rightarrow> 's) \<Rightarrow> frame \<Rightarrow> frame list \<times> 's \<Rightarrow> frame list \<times> 's" where
  "absorb g f = (\<lambda>(cur, s).
     let cur' = cur @ [f]
     in if IsFinalFrame f \<and> frame_HasUnFragmentedMessageFlags (hd cur') then ([], g (message_of cur') s)
        else (cur', s))"

definition frame_ok :: "frame \<Rightarrow> bool" where
  "frame_ok f \<longleftrightarrow> length (fr_Content f) + 6 < 2 ^ 32"

definition stream_bytes :: "frame list \<Rightarrow> byte list" where
  "stream_bytes fs = concat (map frame_bytes fs)"

text \<open>The bytes received and not yet turned into frames, a header already consumed included.\<close>

definition pending :: "message_reader \<Rightarrow> byte list" where
  "pending r = (if mr_readHeader r
     then bo_bytes LittleEndian 4 (mr_currentFrameLength r) @ bo_bytes LittleEndian 2 (mr_currentFlags r) else [])
     @ mr_src r"

definition reader_at :: "message_reader \<Rightarrow> frame list \<Rightarrow> byte list \<Rightarrow> bool" where
  "reader_at r cur p \<longleftrightarrow>
     mr_clientMessage r = (if cur = [] then None else Some (message_of cur)) \<and> pending r = p
     \<and> (mr_readHeader r \<longrightarrow> SizeOfFrameLengthAndFlags \<le> unat (mr_currentFrameLength r))"

lemma bo_bytes_inj: "LENGTH('a) \<le> 8 * n \<Longrightarrow> bo_bytes bo n (v :: 'a::len word) = bo_bytes bo n w \<Longrightarrow> v = w"
  by (metis bo_word_bytes)

lemma frame_header_length: "n + 6 < 2 ^ 32 \<Longrightarrow> unat (word_of_nat (n + 6) :: 32 word) = n + 6"
  by (simp add: unsigned_of_nat take_bit_nat_eq_self del: of_nat_add)

text \<open>\<open>read_header\<close> leaves the pending bytes as they are.\<close>

lemma read_header_complete:
  assumes "reader_at r cur p" "p @ x = frame_bytes f @ y" "6 \<le> length p" "frame_ok f"
  shows "\<exists>r'. read_header r = Inr (True, r') \<and> reader_at r' cur p \<and> mr_readHeader r'
     \<and> unat (mr_currentFrameLength r') = length (fr_Content f) + 6 \<and> mr_currentFlags r' = fr_flags f
     \<and> mr_src r' = drop 6 p"
proof -
  let ?n = "length (fr_Content f)"
  have n: "unat (word_of_nat (?n + 6) :: 32 word) = ?n + 6"
    using assms(4) by (intro frame_header_length) (simp add: frame_ok_def)
  have "take 6 p = take 6 (p @ x)" using assms(3) by simp
  also have "\<dots> = frame_header ?n (fr_flags f)" by (simp add: assms(2) frame_bytes_def)
  finally have hd6: "take 6 p = bo_bytes LittleEndian 4 (word_of_nat (?n + 6) :: 32 word) @ bo_bytes LittleEndian 2 (fr_flags f)"
    by (simp add: frame_header_def SizeOfFrameLengthAndFlags_def del: of_nat_add)
  show ?thesis
  proof (cases "mr_readHeader r")
    case True
    then have p: "p = (bo_bytes LittleEndian 4 (mr_currentFrameLength r) @ bo_bytes LittleEndian 2 (mr_currentFlags r)) @ mr_src r"
      using assms(1) by (simp add: reader_at_def pending_def)
    then have "bo_bytes LittleEndian 4 (mr_currentFrameLength r) @ bo_bytes LittleEndian 2 (mr_currentFlags r) = take 6 p"
      by simp
    with hd6 have "mr_currentFrameLength r = word_of_nat (?n + 6)" "mr_currentFlags r = fr_flags f"
      by (auto simp del: of_nat_add intro: bo_bytes_inj)
    with True p n assms(1) show ?thesis by (auto simp: read_header_def simp del: of_nat_add)
  next
    case False
    then have src: "mr_src r = p" and cm: "mr_clientMessage r = (if cur = [] then None else Some (message_of cur))"
      using assms(1) by (simp_all add: reader_at_def pending_def)
    have t4: "take 4 p = bo_bytes LittleEndian 4 (word_of_nat (?n + 6) :: 32 word)"
      using arg_cong [OF hd6, of "take 4"] by (simp del: of_nat_add)
    have t2: "take 2 (drop 4 p) = bo_bytes LittleEndian 2 (fr_flags f)"
      using arg_cong [OF hd6, of "drop 4"] by (simp add: drop_take del: of_nat_add)
    have "p = take 6 p @ drop 6 p" by simp
    then have "p = bo_bytes LittleEndian 4 (word_of_nat (?n + 6) :: 32 word) @ bo_bytes LittleEndian 2 (fr_flags f) @ drop 6 p"
      by (simp only: hd6 append_assoc)
    with False src cm t4 t2 n assms(3) show ?thesis
      by (auto simp: read_header_def SizeOfFrameLengthAndFlags_def Let_def reader_at_def pending_def add.commute
          simp del: of_nat_add)
  qed
qed

lemma readFrame_complete:
  assumes "reader_at r cur p" "p = frame_bytes f @ rest" "frame_ok f"
  shows "\<exists>r'. readFrame r = Inr (True, r') \<and> reader_at r' (cur @ [f]) rest"
proof -
  have "6 \<le> length p" by (simp add: assms(2))
  then obtain r1 where r1: "read_header r = Inr (True, r1)" "reader_at r1 cur p"
      "unat (mr_currentFrameLength r1) = length (fr_Content f) + 6" "mr_currentFlags r1 = fr_flags f" "mr_src r1 = drop 6 p"
    using read_header_complete [OF assms(1), of "[]" f rest] assms(2,3) by auto
  have src: "mr_src r1 = fr_Content f @ rest" by (simp add: r1(5) assms(2) frame_bytes_def)
  have "NewFrameWith (fr_Content f) (fr_flags f) = f" by (simp add: NewFrameWith_def)
  with r1(1-4) src show ?thesis
    by (auto simp: readFrame_def SizeOfFrameLengthAndFlags_def Let_def reader_at_def pending_def
        NewClientMessage_def AddFrame_def NewClientMessageForEncode_def message_of_def)
qed

lemma readFrame_incomplete:
  assumes "reader_at r cur p" "p @ x = frame_bytes f @ y" "length p < length (frame_bytes f)" "frame_ok f"
  shows "\<exists>r'. readFrame r = Inr (False, r') \<and> reader_at r' cur p"
proof (cases "6 \<le> length p")
  case True
  then obtain r1 where r1: "read_header r = Inr (True, r1)" "reader_at r1 cur p"
      "unat (mr_currentFrameLength r1) = length (fr_Content f) + 6" "mr_src r1 = drop 6 p"
    using read_header_complete [OF assms(1,2) _ assms(4)] by auto
  with assms(3) True show ?thesis by (auto simp: readFrame_def SizeOfFrameLengthAndFlags_def Let_def)
next
  case False
  then have "\<not> mr_readHeader r" using assms(1) by (auto simp: reader_at_def pending_def)
  with False assms(1) show ?thesis
    by (auto simp: readFrame_def read_header_def SizeOfFrameLengthAndFlags_def reader_at_def pending_def)
qed

lemma readFrame_empty: "reader_at r cur [] \<Longrightarrow> readFrame r = Inr (False, r)"
  by (auto simp: readFrame_def read_header_def SizeOfFrameLengthAndFlags_def reader_at_def pending_def split: if_splits)

text \<open>
  \<open>stuck p fs\<close>: the bytes at hand hold no complete frame of the stream. \<open>Read\<close> ends in such a state,
  or with the message that the first final frame completes.
\<close>

definition stuck :: "byte list \<Rightarrow> frame list \<Rightarrow> bool" where
  "stuck p fs \<longleftrightarrow> fs = [] \<or> length p < length (frame_bytes (hd fs))"

definition Read_waits :: "message_reader \<Rightarrow> frame list \<Rightarrow> byte list \<Rightarrow> frame list \<Rightarrow> bool" where
  "Read_waits r cur future fs \<longleftrightarrow> (\<exists>fs1 fs2 r' p'. fs = fs1 @ fs2 \<and> list_all (\<lambda>f. \<not> IsFinalFrame f) fs1
     \<and> reader_Read r = Inr (None, r') \<and> reader_at r' (cur @ fs1) p' \<and> p' @ future = stream_bytes fs2 \<and> stuck p' fs2)"

definition Read_completes :: "message_reader \<Rightarrow> frame list \<Rightarrow> byte list \<Rightarrow> frame list \<Rightarrow> bool" where
  "Read_completes r cur future fs \<longleftrightarrow> (\<exists>fs1 f fs2 r' p'. fs = fs1 @ f # fs2 \<and> list_all (\<lambda>f. \<not> IsFinalFrame f) fs1
     \<and> IsFinalFrame f \<and> reader_Read r = Inr (Some (message_of (cur @ fs1 @ [f])), r')
     \<and> reader_at r' (cur @ fs1 @ [f]) p' \<and> p' @ future = stream_bytes fs2)"

lemma HasFinalFrame_message_of: "HasFinalFrame (message_of (cur @ [f])) = Inr (IsFinalFrame f)"
  by (simp add: HasFinalFrame_def message_of_def go_index_def nth_append)

lemma Read_waits_Cons:
  assumes "reader_Read r = reader_Read r'" "\<not> IsFinalFrame f" "Read_waits r' (cur @ [f]) future fs"
  shows "Read_waits r cur future (f # fs)"
proof -
  from assms(3) obtain fs1 fs2 r2 p2 where "fs = fs1 @ fs2" "list_all (\<lambda>f. \<not> IsFinalFrame f) fs1"
    "reader_Read r' = Inr (None, r2)" "reader_at r2 ((cur @ [f]) @ fs1) p2" "p2 @ future = stream_bytes fs2" "stuck p2 fs2"
    unfolding Read_waits_def by blast
  with assms(1,2) show ?thesis
    unfolding Read_waits_def by (intro exI [of _ "f # fs1"] exI [of _ fs2] exI [of _ r2] exI [of _ p2]) simp
qed

lemma Read_completes_Cons:
  assumes "reader_Read r = reader_Read r'" "\<not> IsFinalFrame f" "Read_completes r' (cur @ [f]) future fs"
  shows "Read_completes r cur future (f # fs)"
proof -
  from assms(3) obtain fs1 g fs2 r2 p2 where "fs = fs1 @ g # fs2" "list_all (\<lambda>f. \<not> IsFinalFrame f) fs1" "IsFinalFrame g"
    "reader_Read r' = Inr (Some (message_of ((cur @ [f]) @ fs1 @ [g])), r2)"
    "reader_at r2 ((cur @ [f]) @ fs1 @ [g]) p2" "p2 @ future = stream_bytes fs2"
    unfolding Read_completes_def by blast
  with assms(1,2) show ?thesis
    unfolding Read_completes_def
    by (intro exI [of _ "f # fs1"] exI [of _ g] exI [of _ fs2] exI [of _ r2] exI [of _ p2]) simp
qed

lemma reader_Read_spec:
  assumes "reader_at r cur p" "p @ future = stream_bytes fs" "list_all frame_ok fs"
  shows "Read_waits r cur future fs \<or> Read_completes r cur future fs"
  using assms
proof (induction fs arbitrary: r cur p)
  case Nil
  then have "p = []" "future = []" by (simp_all add: stream_bytes_def)
  with Nil have "reader_Read r = Inr (None, r)" by (simp add: reader_Read.simps [of r] readFrame_empty)
  with Nil \<open>p = []\<close> \<open>future = []\<close> show ?case by (auto simp: Read_waits_def stuck_def stream_bytes_def)
next
  case (Cons f fs)
  from Cons.prems have eq: "p @ future = frame_bytes f @ stream_bytes fs" and ok: "frame_ok f" "list_all frame_ok fs"
    by (simp_all add: stream_bytes_def)
  show ?case
  proof (cases "length p < length (frame_bytes f)")
    case True
    then obtain r' where r': "readFrame r = Inr (False, r')" "reader_at r' cur p"
      using readFrame_incomplete [OF Cons.prems(1) eq] ok by blast
    then have "reader_Read r = Inr (None, r')" by (simp add: reader_Read.simps [of r])
    with r' True Cons.prems(2) have "Read_waits r cur future (f # fs)"
      unfolding Read_waits_def
      by (intro exI [of _ "[]"] exI [of _ "f # fs"] exI [of _ r'] exI [of _ p]) (simp add: stuck_def)
    then show ?thesis ..
  next
    case False
    with eq obtain rest where rest: "p = frame_bytes f @ rest" "rest @ future = stream_bytes fs"
      using append_eq_split by (meson not_less)
    then obtain r' where r': "readFrame r = Inr (True, r')" "reader_at r' (cur @ [f]) rest"
      using readFrame_complete [OF Cons.prems(1)] ok by blast
    then have cm: "mr_clientMessage r' = Some (message_of (cur @ [f]))" by (simp add: reader_at_def)
    show ?thesis
    proof (cases "IsFinalFrame f")
      case True
      with r' cm have "reader_Read r = Inr (Some (message_of (cur @ [f])), r')"
        by (simp add: reader_Read.simps [of r] HasFinalFrame_message_of)
      with r' rest True have "Read_completes r cur future (f # fs)"
        unfolding Read_completes_def
        by (intro exI [of _ "[]"] exI [of _ f] exI [of _ fs] exI [of _ r'] exI [of _ rest]) simp
      then show ?thesis ..
    next
      case False
      with r' cm have step: "reader_Read r = reader_Read r'"
        by (simp add: reader_Read.simps [of r] HasFinalFrame_message_of)
      from Cons.IH [OF r'(2) rest(2) ok(2)] show ?thesis
        using Read_waits_Cons [OF step False] Read_completes_Cons [OF step False] by blast
    qed
  qed
qed

lemma fold_absorb_nonfinal:
  "list_all (\<lambda>f. \<not> IsFinalFrame f) fs \<Longrightarrow> fold (absorb g) fs (cur, s) = (cur @ fs, s)"
  by (induction fs arbitrary: cur) (simp_all add: absorb_def)

lemma HasUnFragmentedMessageFlags_message_of:
  "fs \<noteq> [] \<Longrightarrow> HasUnFragmentedMessageFlags (message_of fs) = Inr (frame_HasUnFragmentedMessageFlags (hd fs))"
  by (simp add: HasUnFragmentedMessageFlags_def first_frame_def message_of_def go_index_def hd_conv_nth)

definition drained ::
  "(client_message \<Rightarrow> 's \<Rightarrow> 's) \<Rightarrow> frame list \<Rightarrow> 's \<Rightarrow> byte list \<Rightarrow> frame list \<Rightarrow> (bool \<times> 's \<times> message_reader) go \<Rightarrow> bool" where
  "drained g cur s future fs res \<longleftrightarrow> (\<exists>fs1 fs2 r' p'. fs = fs1 @ fs2
     \<and> res = Inr (False, snd (fold (absorb g) fs1 (cur, s)), r')
     \<and> reader_at r' (fst (fold (absorb g) fs1 (cur, s))) p' \<and> p' @ future = stream_bytes fs2 \<and> stuck p' fs2)"

lemma drained_prefix:
  assumes "drained g cur' s' future fs2 res" "fold (absorb g) fs1 (cur, s) = (cur', s')"
  shows "drained g cur s future (fs1 @ fs2) res"
proof -
  from assms(1) obtain fs3 fs4 r' p' where d: "fs2 = fs3 @ fs4" "res = Inr (False, snd (fold (absorb g) fs3 (cur', s')), r')"
    "reader_at r' (fst (fold (absorb g) fs3 (cur', s'))) p'" "p' @ future = stream_bytes fs4" "stuck p' fs4"
    unfolding drained_def by blast
  with assms(2) show ?thesis
    unfolding drained_def by (intro exI [of _ "fs1 @ fs3"] exI [of _ fs4] exI [of _ r'] exI [of _ p']) simp
qed

lemma drain_spec:
  assumes "reader_at r cur p" "p @ future = stream_bytes fs" "list_all frame_ok fs"
  shows "drained g cur s future fs (drain (\<lambda>m s. Inr (False, g m s)) s r)"
  using assms
proof (induction "length fs" arbitrary: r cur p s fs rule: less_induct)
  case less
  let ?h = "\<lambda>m s. Inr (False, g m s)"
  from reader_Read_spec [OF less.prems] show ?case
  proof
    assume "Read_waits r cur future fs"
    then obtain fs1 fs2 r2 p2 where w: "fs = fs1 @ fs2" "list_all (\<lambda>f. \<not> IsFinalFrame f) fs1"
      "reader_Read r = Inr (None, r2)" "reader_at r2 (cur @ fs1) p2" "p2 @ future = stream_bytes fs2" "stuck p2 fs2"
      unfolding Read_waits_def by blast
    then show ?thesis
      unfolding drained_def
      by (intro exI [of _ fs1] exI [of _ fs2] exI [of _ r2] exI [of _ p2]) (simp add: drain.simps [of ?h] fold_absorb_nonfinal)
  next
    assume "Read_completes r cur future fs"
    then obtain fs1 f fs2 r2 p2 where c: "fs = fs1 @ f # fs2" "list_all (\<lambda>f. \<not> IsFinalFrame f) fs1" "IsFinalFrame f"
      "reader_Read r = Inr (Some (message_of (cur @ fs1 @ [f])), r2)"
      "reader_at r2 (cur @ fs1 @ [f]) p2" "p2 @ future = stream_bytes fs2"
      unfolding Read_completes_def by blast
    let ?cur = "cur @ fs1 @ [f]"
    define u where "u = frame_HasUnFragmentedMessageFlags (hd ?cur)"
    define r3 where "r3 = (if u then ResetMessage r2 else r2)"
    define cs where "cs = (if u then ([], g (message_of ?cur) s) else (?cur, s))"
    have d: "drain ?h s r = drain ?h (snd cs) r3"
      using c(4) HasUnFragmentedMessageFlags_message_of [of ?cur]
      by (simp add: drain.simps [of ?h s r] u_def r3_def cs_def)
    have "reader_at r3 (fst cs) p2"
      using c(5) by (auto simp: r3_def cs_def reader_at_def ResetMessage_def pending_def)
    then have "drained g (fst cs) (snd cs) future fs2 (drain ?h (snd cs) r3)"
      using less.hyps [of fs2 r3 "fst cs" p2] c(1,6) less.prems(3) by simp
    moreover have "fold (absorb g) (fs1 @ [f]) (cur, s) = (fst cs, snd cs)"
      using c(2,3) by (simp add: fold_absorb_nonfinal absorb_def cs_def u_def)
    ultimately show ?thesis using drained_prefix [of g "fst cs" "snd cs" future fs2 _ "fs1 @ [f]"] c(1) d by simp
  qed
qed

lemma ResetBuffer_id [simp]: "ResetBuffer r = r"
  by (simp add: ResetBuffer_def reader_Append_def Let_def)

lemma reader_at_Append: "reader_at r cur p \<Longrightarrow> reader_at (reader_Append c r) cur (p @ c)"
  by (auto simp: reader_at_def reader_Append_def pending_def)

lemma read_chunks_spec:
  assumes "reader_at r cur p" "p @ concat chunks = stream_bytes fs" "list_all frame_ok fs" "stuck p fs"
  shows "\<exists>r'. read_chunks (\<lambda>m s. Inr (False, g m s)) chunks s r = Inr (False, snd (fold (absorb g) fs (cur, s)), r')
     \<and> reader_at r' (fst (fold (absorb g) fs (cur, s))) []"
  using assms
proof (induction chunks arbitrary: r cur p s fs)
  case Nil
  then have "fs = []" by (cases fs) (auto simp: stuck_def stream_bytes_def)
  with Nil show ?case by (simp add: stream_bytes_def)
next
  case (Cons c chunks)
  show ?case
  proof (cases "c = []")
    case True
    with Cons show ?thesis by simp
  next
    case False
    have "reader_at (reader_Append c r) cur (p @ c)" using Cons.prems(1) by (rule reader_at_Append)
    moreover have "(p @ c) @ concat chunks = stream_bytes fs" using Cons.prems(2) by simp
    ultimately have "drained g cur s (concat chunks) fs (drain (\<lambda>m s. Inr (False, g m s)) s (reader_Append c r))"
      using Cons.prems(3) by (rule drain_spec)
    then obtain fs1 fs2 r' p' where d: "fs = fs1 @ fs2"
        "drain (\<lambda>m s. Inr (False, g m s)) s (reader_Append c r) = Inr (False, snd (fold (absorb g) fs1 (cur, s)), r')"
        "reader_at r' (fst (fold (absorb g) fs1 (cur, s))) p'" "p' @ concat chunks = stream_bytes fs2" "stuck p' fs2"
      unfolding drained_def by blast
    have "list_all frame_ok fs2" using Cons.prems(3) d(1) by simp
    from Cons.IH [OF d(3,4) this d(5), of "snd (fold (absorb g) fs1 (cur, s))"] d(1,2) False show ?thesis
      by (simp add: read_chunk_def)
  qed
qed


text \<open>A message as the client sends it: no frame is marked final, and the first one is unfragmented.\<close>

definition sendable :: "client_message \<Rightarrow> bool" where
  "sendable m \<longleftrightarrow> cm_Frames m \<noteq> [] \<and> list_all (\<lambda>f. frame_ok f \<and> \<not> IsFinalFrame f) (cm_Frames m)
     \<and> frame_HasUnFragmentedMessageFlags (hd (cm_Frames m))"

definition sent_bytes :: "client_message \<Rightarrow> byte list" where
  "sent_bytes m = snd (message_Write collect m [])"

lemma final_last_snoc: "final_last (fs @ [f]) = fs @ [set_final f]"
  by (induction fs rule: final_last.induct) simp_all

lemma sent_bytes_stream: "sent_bytes m = stream_bytes (final_last (cm_Frames m))"
  by (simp add: sent_bytes_def message_Write_def write_frames_collect stream_bytes_def)

lemma absorb_sendable:
  assumes "sendable m"
  shows "fold (absorb g) (final_last (cm_Frames m)) ([], s) = ([], g (message_of (final_last (cm_Frames m))) s)"
    and "list_all frame_ok (final_last (cm_Frames m))"
proof -
  obtain fs f where fs: "cm_Frames m = fs @ [f]" using assms by (cases "cm_Frames m" rule: rev_cases) (auto simp: sendable_def)
  have nf: "list_all (\<lambda>f. \<not> IsFinalFrame f) fs" and ok: "list_all frame_ok fs" "frame_ok f"
    using assms by (simp_all add: sendable_def fs list_all_iff)
  have "IsFinalFrame (set_final f)" by (simp add: flag_bits set_final_bits)
  moreover have "frame_HasUnFragmentedMessageFlags (hd (fs @ [set_final f]))"
    using assms by (cases fs) (simp_all add: sendable_def fs unfragmented_bits set_final_bits)
  ultimately show "fold (absorb g) (final_last (cm_Frames m)) ([], s) = ([], g (message_of (final_last (cm_Frames m))) s)"
    using nf by (simp add: fs final_last_snoc fold_absorb_nonfinal absorb_def)
  show "list_all frame_ok (final_last (cm_Frames m))"
    using ok by (simp add: fs final_last_snoc frame_ok_def set_final_bits)
qed

lemma absorb_all:
  "list_all sendable ms \<Longrightarrow>
   fold (absorb (\<lambda>m s. s @ [m])) (concat (map (\<lambda>m. final_last (cm_Frames m)) ms)) ([], s)
     = ([], s @ map (\<lambda>m. message_of (final_last (cm_Frames m))) ms)"
  by (induction ms arbitrary: s) (simp_all add: absorb_sendable)


definition demo_message :: client_message where
  "demo_message = message_of [NewFrameWith [1, 2, 3] UnfragmentedMessage, NewFrame [7]]"


text \<open>
  A final frame of a message whose first frame is not marked unfragmented leaves that message in the
  reader; the frames of every later message are appended to it and none is handed over.
\<close>

lemma fragment_swallows:
  "cur \<noteq> [] \<Longrightarrow> \<not> frame_HasUnFragmentedMessageFlags (hd cur) \<Longrightarrow> fold (absorb g) fs (cur, s) = (cur @ fs, s)"
  by (induction fs arbitrary: cur) (simp_all add: absorb_def)

text \<open>
  C21: once a message arrives whose first frame is not marked unfragmented, no message is handed over
  any more, whatever follows and however it is cut into chunks: every later frame is appended to
  that message.
\<close>

theorem fragment_blocks_delivery:
  assumes "list_all frame_ok (f # fs)" "\<not> frame_HasUnFragmentedMessageFlags f"
    and "concat chunks = stream_bytes (f # fs)"
  shows "\<exists>r. read_chunks (\<lambda>m out. Inr (False, out @ [m])) chunks [] newClientMessageReader = Inr (False, [], r)
     \<and> mr_clientMessage r = Some (message_of (f # fs))"
proof -
  have "reader_at newClientMessageReader [] []"
    by (simp add: reader_at_def newClientMessageReader_def pending_def)
  moreover have "stuck [] (f # fs)" by (simp add: stuck_def)
  moreover have "fold (absorb (\<lambda>m s. s @ [m])) (f # fs) ([], []) = (f # fs, [])"
    using fragment_swallows [of "[f]" "\<lambda>m s. s @ [m]" fs "[]"] assms(2) by (simp add: absorb_def)
  ultimately show ?thesis
    using read_chunks_spec [of newClientMessageReader "[]" "[]" chunks "f # fs" "\<lambda>m s. s @ [m]" "[]"] assms(1,3)
    by (auto simp: reader_at_def)
qed

theorem fragment_blocks_delivery_witness:
  "\<exists>r. read_chunks (\<lambda>m out. Inr (False, out @ [m]))
       [stream_bytes [NewFrameWith [1] IsFinalFlag, set_final (NewFrameWith [2] UnfragmentedMessage)]] []
       newClientMessageReader = Inr (False, [], r)
     \<and> mr_clientMessage r = Some (message_of [NewFrameWith [1] IsFinalFlag, set_final (NewFrameWith [2] UnfragmentedMessage)])"
  using fragment_blocks_delivery [of "NewFrameWith [1] IsFinalFlag" "[set_final (NewFrameWith [2] UnfragmentedMessage)]"
      "[stream_bytes [NewFrameWith [1] IsFinalFlag, set_final (NewFrameWith [2] UnfragmentedMessage)]]"]
  by (simp add: frame_ok_def NewFrameWith_def set_final_def unfragmented_bits flag_defs)

end
