(* ===== verification/Uuid.thy ===== *)
theory Uuid
  imports Prelude
begin

text \<open>
  \<^verbatim>\<open>types/uuid.go\<close>: the two 64-bit halves of a UUID, its big-endian bytes and its text form.
\<close>

unbundle bit_operations_syntax

record uuid =
  mostSigBits :: "64 word"
  leastSigBits :: "64 word"

definition NewUUIDWith :: "64 word \<Rightarrow> 64 word \<Rightarrow> uuid" where
  "NewUUIDWith most least = \<lparr>mostSigBits = most, leastSigBits = least\<rparr>"

definition uuid_Default :: "uuid \<Rightarrow> bool" where
  "uuid_Default u \<longleftrightarrow> mostSigBits u = 0 \<and> leastSigBits u = 0"

text \<open>The zero value of the struct, Go's \<^verbatim>\<open>types.UUID{}\<close>.\<close>

abbreviation zero_uuid :: uuid where
  "zero_uuid \<equiv> \<lparr>mostSigBits = 0, leastSigBits = 0\<rparr>"

text \<open>Version 4 of a random UUID: \<open>rand\<close> is the 16 bytes read from the random source.\<close>

definition NewUUID :: "byte list \<Rightarrow> uuid" where
  "NewUUID rand =
     (let buf1 = rand[6 := (rand ! 6) AND 0x0f];
          buf2 = buf1[6 := (buf1 ! 6) OR 0x40];
          buf3 = buf2[8 := (buf2 ! 8) AND 0x3f];
          buf4 = buf3[8 := (buf3 ! 8) OR 0x80]
      in NewUUIDWith (bo_word BigEndian (take 8 buf4)) (bo_word BigEndian (drop 8 buf4)))"

definition ExtractInto :: "uuid \<Rightarrow> byte list \<Rightarrow> byte list go" where
  "ExtractInto u b =
     (if length b < 16 then Inl (PanicMessage ''uuid: slice of size 16 is required'')
      else Inr (bo_bytes BigEndian 8 (mostSigBits u) @ bo_bytes BigEndian 8 (leastSigBits u) @ drop 16 b))"

text \<open>\<open>hex.Encode\<close>: two lower case digits for each byte.\<close>

definition hex_digit :: "byte \<Rightarrow> byte" where
  "hex_digit n = (if unat n < 10 then 48 + n else 87 + n)"

definition hex_encode :: "byte list \<Rightarrow> byte list" where
  "hex_encode bs = concat (map (\<lambda>b. [hex_digit (drop_bit 4 b), hex_digit (b AND 15)]) bs)"

text \<open>Each \<open>hex.Encode\<close> fills the digits of its own part of \<open>dst\<close>; byte 45 is the dash.\<close>

definition uuid_text :: "byte list \<Rightarrow> gostring" where
  "uuid_text d =
     hex_encode (take 4 d) @ [45] @ hex_encode (take 2 (drop 4 d)) @ [45]
     @ hex_encode (take 2 (drop 6 d)) @ [45] @ hex_encode (take 2 (drop 8 d)) @ [45]
     @ hex_encode (drop 10 d)"

definition asString :: "uuid \<Rightarrow> gostring go" where
  "asString u = bind_go (ExtractInto u (replicate 16 0)) (\<lambda>d. Inr (uuid_text d))"

section \<open>Properties\<close>

lemma uuid_Default_iff: "uuid_Default u \<longleftrightarrow> u = zero_uuid"
  by (cases u) (simp add: uuid_Default_def)

lemma hex_digit_inj:
  assumes "unat a < 16" "unat b < 16" "hex_digit a = hex_digit b"
  shows "a = b"
proof -
  have "unat (hex_digit n) = (if unat n < 10 then 48 + unat n else 87 + unat n)" if "unat n < 16" for n :: byte
    using that by (auto simp: hex_digit_def unat_word_ariths)
  from this [OF assms(1)] this [OF assms(2)] assms(3) have "unat a = unat b"
    using assms(1,2) by (auto split: if_splits)
  then show ?thesis by (rule unsigned_word_eqI)
qed

lemma nibbles_less: "unat (drop_bit 4 (b :: byte)) < 16" "unat (b AND 15) < 16"
proof -
  have "unat b < 256" using unsigned_less [of b, where 'a = nat] by simp
  then show "unat (drop_bit 4 b) < 16"
    by (simp add: drop_bit_eq_div unat_div_distrib)
  have "b AND 15 = take_bit 4 b"
    by (simp add: take_bit_eq_mask mask_eq_exp_minus_1)
  then show "unat (b AND 15) < 16"
    by (simp add: take_bit_eq_mod unat_mod_distrib)
qed

lemma nibbles_eq:
  assumes "drop_bit 4 (a :: byte) = drop_bit 4 b" "a AND 15 = b AND 15"
  shows "a = b"
proof -
  have "x AND 15 = take_bit 4 x" for x :: byte
    by (simp add: take_bit_eq_mask mask_eq_exp_minus_1)
  with assms show ?thesis using bits_ident [of 4 a] bits_ident [of 4 b] by metis
qed

lemma length_hex_encode [simp]: "length (hex_encode bs) = 2 * length bs"
  by (induction bs) (simp_all add: hex_encode_def)

lemma hex_encode_inj: "length xs = length ys \<Longrightarrow> hex_encode xs = hex_encode ys \<Longrightarrow> xs = ys"
proof (induction xs ys rule: list_induct2)
  case Nil
  then show ?case by simp
next
  case (Cons x xs y ys)
  then have "hex_digit (drop_bit 4 x) = hex_digit (drop_bit 4 y)"
    "hex_digit (x AND 15) = hex_digit (y AND 15)" "hex_encode xs = hex_encode ys"
    by (simp_all add: hex_encode_def)
  with Cons.IH show ?case
    by (metis hex_digit_inj nibbles_less nibbles_eq)
qed

lemma hex_encode_append: "hex_encode (xs @ ys) = hex_encode xs @ hex_encode ys"
  by (simp add: hex_encode_def)

lemma asString_eq:
  "asString u = Inr (uuid_text (bo_bytes BigEndian 8 (mostSigBits u) @ bo_bytes BigEndian 8 (leastSigBits u)))"
  by (simp add: asString_def ExtractInto_def)

lemma length_uuid_text: "length d = 16 \<Longrightarrow> length (uuid_text d) = 36"
  by (simp add: uuid_text_def)

lemma drop_split: "m = n + k \<Longrightarrow> take k (drop n x) @ drop m x = drop n x"
  by (metis append_take_drop_id drop_drop add.commute)

lemma uuid_text_inj:
  assumes "length d = 16" "length e = 16" "uuid_text d = uuid_text e"
  shows "d = e"
proof -
  from assms have parts: "hex_encode (take 4 d) = hex_encode (take 4 e)"
    "hex_encode (take 2 (drop 4 d)) = hex_encode (take 2 (drop 4 e))"
    "hex_encode (take 2 (drop 6 d)) = hex_encode (take 2 (drop 6 e))"
    "hex_encode (take 2 (drop 8 d)) = hex_encode (take 2 (drop 8 e))"
    "hex_encode (drop 10 d) = hex_encode (drop 10 e)"
    by (simp_all add: uuid_text_def)
  have "take 4 d = take 4 e" "take 2 (drop 4 d) = take 2 (drop 4 e)" "take 2 (drop 6 d) = take 2 (drop 6 e)"
    "take 2 (drop 8 d) = take 2 (drop 8 e)" "drop 10 d = drop 10 e"
    by (rule hex_encode_inj [OF _ parts(1)] hex_encode_inj [OF _ parts(2)] hex_encode_inj [OF _ parts(3)]
             hex_encode_inj [OF _ parts(4)] hex_encode_inj [OF _ parts(5)], simp add: assms(1,2))+
  moreover have "x = take 4 x @ take 2 (drop 4 x) @ take 2 (drop 6 x) @ take 2 (drop 8 x) @ drop 10 x"
    for x :: "byte list"
    using drop_split [of 4 0 4 x] drop_split [of 6 4 2 x] drop_split [of 8 6 2 x] drop_split [of 10 8 2 x]
    by simp
  ultimately show ?thesis by metis
qed

lemma asString_injective:
  assumes "asString u = asString v"
  shows "u = v"
proof -
  have inj: "a = b" if "bo_bytes BigEndian 8 a = bo_bytes BigEndian 8 b" for a b :: "64 word"
    using arg_cong [OF that, of "bo_word BigEndian :: byte list \<Rightarrow> 64 word"] by (simp del: bo_bytes.simps bo_word.simps)
  from assms have "uuid_text (bo_bytes BigEndian 8 (mostSigBits u) @ bo_bytes BigEndian 8 (leastSigBits u))
      = uuid_text (bo_bytes BigEndian 8 (mostSigBits v) @ bo_bytes BigEndian 8 (leastSigBits v))"
    by (simp only: asString_eq sum.inject)
  then have "bo_bytes BigEndian 8 (mostSigBits u) @ bo_bytes BigEndian 8 (leastSigBits u)
      = bo_bytes BigEndian 8 (mostSigBits v) @ bo_bytes BigEndian 8 (leastSigBits v)"
    by (rule uuid_text_inj [rotated 2]) simp_all
  then have "mostSigBits u = mostSigBits v" "leastSigBits u = leastSigBits v"
    by (simp_all add: inj del: bo_bytes.simps)
  then show ?thesis by simp
qed

section \<open>Properties\<close>

text \<open>The text of a UUID has 36 characters, and no two UUIDs have the same text.\<close>

theorem uuid_string_injective:
  "(\<exists>t. asString u = Inr t \<and> length t = 36) \<and> (asString u = asString v \<longleftrightarrow> u = v)"
proof
  show "\<exists>t. asString u = Inr t \<and> length t = 36" by (simp add: asString_eq length_uuid_text)
  show "asString u = asString v \<longleftrightarrow> u = v" using asString_injective by blast
qed

end
