(* ===== verification/FixedCodec.thy ===== *)
theory FixedCodec
  imports Frames Uuid
begin

text \<open>
  Values of a fixed size inside the content of a frame: the methods of \<^verbatim>\<open>fixSizedTypesCodec\<close> in
  \<^verbatim>\<open>internal/proto/codec/builtin.go\<close> and the lists of such values that fill one frame. Everything on
  this level is little endian.
\<close>

section \<open>Single values\<close>

definition EncodeBoolean :: "byte list \<Rightarrow> i32 \<Rightarrow> bool \<Rightarrow> byte list go" where
  "EncodeBoolean buffer offset value =
     (if value then go_update buffer (sint offset) 1 else go_update buffer (sint offset) 0)"

definition DecodeBoolean :: "byte list \<Rightarrow> i32 \<Rightarrow> bool go" where
  "DecodeBoolean buffer offset = bind_go (go_index buffer (sint offset)) (\<lambda>b. Inr (b = 1))"

definition EncodeByte :: "byte list \<Rightarrow> i32 \<Rightarrow> byte \<Rightarrow> byte list go" where
  "EncodeByte buffer offset value = go_update buffer (sint offset) value"

definition DecodeByte :: "byte list \<Rightarrow> i32 \<Rightarrow> byte go" where
  "DecodeByte buffer offset = go_index buffer (sint offset)"

text \<open>\<open>EncodeShort\<close> takes a 32-bit value and keeps its low half.\<close>

definition EncodeShort :: "byte list \<Rightarrow> i32 \<Rightarrow> i32 \<Rightarrow> byte list go" where
  "EncodeShort buffer offset value = put_uint LittleEndian 2 buffer (sint offset) (ucast value :: 16 word)"

definition DecodeShort :: "byte list \<Rightarrow> i32 \<Rightarrow> i16 go" where
  "DecodeShort buffer offset = get_uint LittleEndian 2 buffer (sint offset)"

definition EncodeInt :: "byte list \<Rightarrow> i32 \<Rightarrow> i32 \<Rightarrow> byte list go" where
  "EncodeInt buffer offset value = put_uint LittleEndian 4 buffer (sint offset) value"

definition DecodeInt :: "byte list \<Rightarrow> i32 \<Rightarrow> i32 go" where
  "DecodeInt buffer offset = get_uint LittleEndian 4 buffer (sint offset)"

definition EncodeLong :: "byte list \<Rightarrow> i32 \<Rightarrow> i64 \<Rightarrow> byte list go" where
  "EncodeLong buffer offset value = put_uint LittleEndian 8 buffer (sint offset) value"

definition DecodeLong :: "byte list \<Rightarrow> i32 \<Rightarrow> i64 go" where
  "DecodeLong buffer offset = get_uint LittleEndian 8 buffer (sint offset)"

definition EncodeFloat :: "byte list \<Rightarrow> i32 \<Rightarrow> float32 \<Rightarrow> byte list go" where
  "EncodeFloat buffer offset value = put_uint LittleEndian 4 buffer (sint offset) (Float32bits value)"

definition DecodeFloat :: "byte list \<Rightarrow> i32 \<Rightarrow> float32 go" where
  "DecodeFloat buffer offset = bind_go (get_uint LittleEndian 4 buffer (sint offset)) (\<lambda>w. Inr (Float32 w))"

definition EncodeDouble :: "byte list \<Rightarrow> i32 \<Rightarrow> float64 \<Rightarrow> byte list go" where
  "EncodeDouble buffer offset value = put_uint LittleEndian 8 buffer (sint offset) (Float64bits value)"

definition DecodeDouble :: "byte list \<Rightarrow> i32 \<Rightarrow> float64 go" where
  "DecodeDouble buffer offset = bind_go (get_uint LittleEndian 8 buffer (sint offset)) (\<lambda>w. Inr (Float64 w))"

text \<open>The zero UUID is encoded by the flag alone; the 16 bytes behind it stay as they are.\<close>

definition EncodeUUID :: "byte list \<Rightarrow> i32 \<Rightarrow> uuid \<Rightarrow> byte list go" where
  "EncodeUUID buffer offset uuid =
     (let isNullEncode = uuid_Default uuid
      in bind_go (EncodeBoolean buffer offset isNullEncode)
           (\<lambda>buffer. if isNullEncode then Inr buffer
              else let bufferOffset = offset + 1
                   in bind_go (EncodeLong buffer bufferOffset (mostSigBits uuid))
                        (\<lambda>buffer. EncodeLong buffer (bufferOffset + 8) (leastSigBits uuid))))"

definition DecodeUUID :: "byte list \<Rightarrow> i32 \<Rightarrow> uuid go" where
  "DecodeUUID buffer offset = bind_go (DecodeBoolean buffer offset)
     (\<lambda>isNull. if isNull then Inr zero_uuid
        else let mostSignificantOffset = offset + 1; leastSignificantOffset = mostSignificantOffset + 8
             in bind_go (DecodeLong buffer mostSignificantOffset)
                  (\<lambda>most. bind_go (DecodeLong buffer leastSignificantOffset)
                  (\<lambda>least. Inr (NewUUIDWith most least))))"

section \<open>Lists in one frame\<close>

type_synonym encoder = "client_message \<Rightarrow> client_message go"
type_synonym 'a decoder = "frame_iterator \<Rightarrow> ('a \<times> frame_iterator) go"

text \<open>
  A list of items of one size: \<open>make\<close> of the whole content and one encode call per item, at the
  32-bit offset of the item. Decoding divides the length of the content by the item size.
\<close>

definition encode_items ::
  "nat \<Rightarrow> (byte list \<Rightarrow> i32 \<Rightarrow> 'a \<Rightarrow> byte list go) \<Rightarrow> 'a list \<Rightarrow> encoder" where
  "encode_items sz enc entries m =
     bind_go (for_each (\<lambda>(i, x) c. enc c (word_of_nat (i * sz)) x) (enumerate 0 entries) (replicate (length entries * sz) 0))
       (\<lambda>c. Inr (AddFrame (NewFrame c) m))"

definition decode_items :: "nat \<Rightarrow> (byte list \<Rightarrow> i32 \<Rightarrow> 'a go) \<Rightarrow> 'a list decoder" where
  "decode_items sz dec it = bind_go (it_Next it)
     (\<lambda>(f, it). bind_go (map_go (\<lambda>i. dec (fr_Content f) (word_of_nat (i * sz))) [0..<length (fr_Content f) div sz])
                  (\<lambda>xs. Inr (xs, it)))"

definition EncodeListInteger :: "i32 list \<Rightarrow> encoder" where
  "EncodeListInteger = encode_items 4 EncodeInt"

definition DecodeListInteger :: "i32 list decoder" where
  "DecodeListInteger = decode_items 4 DecodeInt"

definition EncodeListLong :: "i64 list \<Rightarrow> encoder" where
  "EncodeListLong = encode_items 8 EncodeLong"

definition DecodeListLong :: "i64 list decoder" where
  "DecodeListLong = decode_items 8 DecodeLong"

definition EncodeLongArray :: "i64 list \<Rightarrow> encoder" where
  "EncodeLongArray = encode_items 8 EncodeLong"

definition DecodeLongArray :: "i64 list decoder" where
  "DecodeLongArray = decode_items 8 DecodeLong"

definition EncodeListUUID :: "uuid list \<Rightarrow> encoder" where
  "EncodeListUUID = encode_items 17 EncodeUUID"

definition DecodeListUUID :: "uuid list decoder" where
  "DecodeListUUID = decode_items 17 DecodeUUID"

text \<open>Entries: the second component starts where the first one ends.\<close>

definition encode_entry ::
  "(byte list \<Rightarrow> i32 \<Rightarrow> 'a \<Rightarrow> byte list go) \<Rightarrow> i32 \<Rightarrow> (byte list \<Rightarrow> i32 \<Rightarrow> 'b \<Rightarrow> byte list go)
     \<Rightarrow> byte list \<Rightarrow> i32 \<Rightarrow> 'a \<times> 'b \<Rightarrow> byte list go" where
  "encode_entry enck sz encv c offset = (\<lambda>(k, v). bind_go (enck c offset k) (\<lambda>c. encv c (offset + sz) v))"

definition decode_entry ::
  "(byte list \<Rightarrow> i32 \<Rightarrow> 'a go) \<Rightarrow> i32 \<Rightarrow> (byte list \<Rightarrow> i32 \<Rightarrow> 'b go) \<Rightarrow> byte list \<Rightarrow> i32 \<Rightarrow> ('a \<times> 'b) go" where
  "decode_entry deck sz decv c offset =
     bind_go (deck c offset) (\<lambda>k. bind_go (decv c (offset + sz)) (\<lambda>v. Inr (k, v)))"

definition EncodeEntryListUUIDLong :: "(uuid \<times> i64) list \<Rightarrow> encoder" where
  "EncodeEntryListUUIDLong = encode_items 25 (encode_entry EncodeUUID 17 EncodeLong)"

definition DecodeEntryListUUIDLong :: "(uuid \<times> i64) list decoder" where
  "DecodeEntryListUUIDLong = decode_items 25 (decode_entry DecodeUUID 17 DecodeLong)"

definition DecodeEntryListIntegerUUID :: "(i32 \<times> uuid) list decoder" where
  "DecodeEntryListIntegerUUID = decode_items 21 (decode_entry DecodeInt 4 DecodeUUID)"

definition DecodeEntryListIntegerLong :: "(i32 \<times> i64) list decoder" where
  "DecodeEntryListIntegerLong = decode_items 12 (decode_entry DecodeInt 4 DecodeLong)"

section \<open>The contract of a fixed-size codec\<close>

text \<open>
  Encoding into zeros at the offset puts the bytes of the value there and touches nothing else;
  decoding at that offset returns the value, whatever surrounds it.
\<close>

locale fixed_codec =
  fixes enc :: "byte list \<Rightarrow> i32 \<Rightarrow> 'a \<Rightarrow> byte list go"
    and dec :: "byte list \<Rightarrow> i32 \<Rightarrow> 'a go"
    and sz :: nat
    and bytes :: "'a \<Rightarrow> byte list"
  assumes enc_bytes: "length a + sz < 2 ^ 31 \<Longrightarrow>
      enc (a @ replicate sz 0 @ b) (word_of_nat (length a)) v = Inr (a @ bytes v @ b)"
    and dec_bytes: "length a + sz < 2 ^ 31 \<Longrightarrow> dec (a @ bytes v @ b) (word_of_nat (length a)) = Inr v"
    and length_bytes: "length (bytes v) = sz"
    and size_pos: "0 < sz"
begin

lemma length_concat_bytes: "length (concat (map bytes xs)) = length xs * sz"
  by (induction xs) (simp_all add: length_bytes)

lemma for_each_enc:
  assumes "length a = k * sz" "(k + length xs) * sz < 2 ^ 31"
  shows "for_each (\<lambda>(i, x) c. enc c (word_of_nat (i * sz)) x) (enumerate k xs) (a @ replicate (length xs * sz) 0)
     = Inr (a @ concat (map bytes xs))"
  using assms
proof (induction xs arbitrary: a k)
  case Nil
  then show ?case by simp
next
  case (Cons x xs)
  have "length a + sz \<le> (k + length (x # xs)) * sz" using Cons.prems(1) by (simp add: algebra_simps)
  with Cons.prems(2) have "length a + sz < 2 ^ 31" by linarith
  from enc_bytes [OF this, of "replicate (length xs * sz) 0" x] Cons.prems(1)
  have "enc (a @ replicate (length (x # xs) * sz) 0) (word_of_nat (k * sz)) x
      = Inr ((a @ bytes x) @ replicate (length xs * sz) 0)"
    by (simp add: replicate_add del: of_nat_mult)
  moreover have "for_each (\<lambda>(i, x) c. enc c (word_of_nat (i * sz)) x) (enumerate (Suc k) xs)
      ((a @ bytes x) @ replicate (length xs * sz) 0) = Inr ((a @ bytes x) @ concat (map bytes xs))"
    using Cons.prems by (intro Cons.IH) (simp_all add: length_bytes)
  ultimately show ?case by (simp del: of_nat_mult)
qed

lemma map_go_dec:
  assumes "length xs * sz < 2 ^ 31"
  shows "map_go (\<lambda>i. dec (concat (map bytes xs)) (word_of_nat (i * sz))) [0..<length xs] = Inr xs"
proof -
  have "dec (concat (map bytes xs)) (word_of_nat (i * sz)) = Inr (xs ! i)" if i: "i < length xs" for i
  proof -
    let ?a = "concat (map bytes (take i xs))"
    have a: "length ?a = i * sz" using i by (simp add: length_concat_bytes)
    have "Suc i * sz \<le> length xs * sz" using i by (intro mult_le_mono1) simp
    with assms a have "length ?a + sz < 2 ^ 31" by simp
    from dec_bytes [OF this, of "xs ! i" "concat (map bytes (drop (Suc i) xs))"]
    have "dec (?a @ bytes (xs ! i) @ concat (map bytes (drop (Suc i) xs))) (word_of_nat (i * sz)) = Inr (xs ! i)"
      by (simp only: a)
    moreover have "concat (map bytes xs) = ?a @ bytes (xs ! i) @ concat (map bytes (drop (Suc i) xs))"
      using i by (subst id_take_nth_drop [OF i]) simp
    ultimately show ?thesis by (simp del: of_nat_mult)
  qed
  then have "map_go (\<lambda>i. dec (concat (map bytes xs)) (word_of_nat (i * sz))) [0..<length xs]
      = Inr (map (\<lambda>i. xs ! i) [0..<length xs])"
    by (intro map_go_Inr) simp
  then show ?thesis by (simp add: map_nth)
qed

lemma encode_items_frame:
  "length xs * sz < 2 ^ 31 \<Longrightarrow> encode_items sz enc xs m = Inr (AddFrame (NewFrame (concat (map bytes xs))) m)"
  using for_each_enc [of "[]" 0 xs] by (simp add: encode_items_def)

lemma decode_items_frame:
  assumes "length xs * sz < 2 ^ 31" "it_Next it = Inr (f, it')" "fr_Content f = concat (map bytes xs)"
  shows "decode_items sz dec it = Inr (xs, it')"
proof -
  have "length (fr_Content f) div sz = length xs" using size_pos by (simp add: assms(3) length_concat_bytes)
  then show ?thesis using assms map_go_dec [of xs] by (simp add: decode_items_def del: of_nat_mult)
qed

end

section \<open>The codecs\<close>

lemma sint_offset: "length a + n < 2 ^ 31 \<Longrightarrow> sint (word_of_nat (length a) :: i32) = int (length a)"
  by (rule sint32_of_nat) linarith

lemma go_update_mid: "length a < 2 ^ 31 \<Longrightarrow>
    go_update (a @ x # b) (sint (word_of_nat (length a) :: i32)) v = Inr (a @ v # b)"
  by (simp add: sint32_of_nat go_update_def list_update_append)

lemma go_index_mid: "length a < 2 ^ 31 \<Longrightarrow> go_index (a @ x # b) (sint (word_of_nat (length a) :: i32)) = Inr x"
  by (simp add: sint32_of_nat go_index_def)

lemma put_uint_mid:
  assumes "length a + n < 2 ^ 31" "length x = n"
  shows "put_uint bo n (a @ x @ b) (sint (word_of_nat (length a) :: i32)) v = Inr (a @ bo_bytes bo n v @ b)"
  using assms by (simp add: sint_offset [OF assms(1)] put_uint_ok)

lemma get_uint_mid:
  assumes "length a + n < 2 ^ 31" "LENGTH('a) \<le> 8 * n"
  shows "get_uint bo n (a @ bo_bytes bo n (v :: 'a::len word) @ b) (sint (word_of_nat (length a) :: i32)) = Inr v"
  using assms by (simp add: sint_offset [OF assms(1)] get_uint_ok)

lemma one_zero: "replicate (Suc 0) (0 :: byte) @ b = 0 # b"
  by simp

interpretation boolean_fixed: fixed_codec EncodeBoolean DecodeBoolean 1 "\<lambda>v. [if v then 1 else 0]"
  by unfold_locales (simp_all add: EncodeBoolean_def DecodeBoolean_def go_update_mid go_index_mid)

interpretation byte_fixed: fixed_codec EncodeByte DecodeByte 1 "\<lambda>v. [v]"
  by unfold_locales (simp_all add: EncodeByte_def DecodeByte_def go_update_mid go_index_mid)

interpretation int_fixed: fixed_codec EncodeInt DecodeInt 4 "\<lambda>v. bo_bytes LittleEndian 4 v"
  by unfold_locales (simp_all add: EncodeInt_def DecodeInt_def put_uint_mid get_uint_mid)

interpretation long_fixed: fixed_codec EncodeLong DecodeLong 8 "\<lambda>v. bo_bytes LittleEndian 8 v"
  by unfold_locales (simp_all add: EncodeLong_def DecodeLong_def put_uint_mid get_uint_mid)

interpretation float_fixed: fixed_codec EncodeFloat DecodeFloat 4 "\<lambda>v. bo_bytes LittleEndian 4 (Float32bits v)"
  by unfold_locales (simp_all add: EncodeFloat_def DecodeFloat_def put_uint_mid get_uint_mid)

interpretation double_fixed: fixed_codec EncodeDouble DecodeDouble 8 "\<lambda>v. bo_bytes LittleEndian 8 (Float64bits v)"
  by unfold_locales (simp_all add: EncodeDouble_def DecodeDouble_def put_uint_mid get_uint_mid)

text \<open>Two fixed-size codecs in a row.\<close>

lemma encode_entry_fixed:
  assumes "fixed_codec e1 d1 s1 b1" "fixed_codec e2 d2 s2 b2"
  shows "fixed_codec (encode_entry e1 (word_of_nat s1) e2) (decode_entry d1 (word_of_nat s1) d2) (s1 + s2)
     (\<lambda>(k, v). b1 k @ b2 v)"
proof
  fix a b :: "byte list" and v :: "'a \<times> 'b"
  assume l: "length a + (s1 + s2) < 2 ^ 31"
  obtain x y where v: "v = (x, y)" by (cases v)
  have lb: "length (b1 x) = s1" using fixed_codec.length_bytes [OF assms(1)] .
  have r: "a @ replicate (s1 + s2) 0 @ b = a @ replicate s1 0 @ replicate s2 0 @ b" by (simp add: replicate_add)
  have off: "word_of_nat (length a) + word_of_nat s1 = (word_of_nat (length (a @ b1 x)) :: i32)" by (simp add: lb)
  have "e1 (a @ replicate s1 0 @ replicate s2 0 @ b) (word_of_nat (length a)) x = Inr (a @ b1 x @ replicate s2 0 @ b)"
    using l by (intro fixed_codec.enc_bytes [OF assms(1)]) simp
  moreover have "e2 ((a @ b1 x) @ replicate s2 0 @ b) (word_of_nat (length (a @ b1 x))) y = Inr ((a @ b1 x) @ b2 y @ b)"
    using l lb by (intro fixed_codec.enc_bytes [OF assms(2)]) simp
  ultimately show "encode_entry e1 (word_of_nat s1) e2 (a @ replicate (s1 + s2) 0 @ b) (word_of_nat (length a)) v
      = Inr (a @ (\<lambda>(k, v). b1 k @ b2 v) v @ b)"
    by (simp only: r v encode_entry_def prod.case off bind_go_simps) simp
  have "d1 (a @ b1 x @ b2 y @ b) (word_of_nat (length a)) = Inr x"
    using l by (intro fixed_codec.dec_bytes [OF assms(1)]) simp
  moreover have "d2 ((a @ b1 x) @ b2 y @ b) (word_of_nat (length (a @ b1 x))) = Inr y"
    using l lb by (intro fixed_codec.dec_bytes [OF assms(2)]) simp
  ultimately show "decode_entry d1 (word_of_nat s1) d2 (a @ (\<lambda>(k, v). b1 k @ b2 v) v @ b) (word_of_nat (length a)) = Inr v"
    by (simp add: v decode_entry_def off del: length_append)
next
  show "length ((\<lambda>(k, v). b1 k @ b2 v) v) = s1 + s2" for v :: "'a \<times> 'b"
    by (cases v) (simp add: fixed_codec.length_bytes [OF assms(1)] fixed_codec.length_bytes [OF assms(2)])
  show "0 < s1 + s2" using fixed_codec.size_pos [OF assms(1)] by simp
qed

definition uuid_bytes :: "uuid \<Rightarrow> byte list" where
  "uuid_bytes u = (if uuid_Default u then 1 # replicate 16 0
     else 0 # bo_bytes LittleEndian 8 (mostSigBits u) @ bo_bytes LittleEndian 8 (leastSigBits u))"

lemma EncodeUUID_bytes:
  assumes "length a + 17 < 2 ^ 31"
  shows "EncodeUUID (a @ replicate 17 0 @ b) (word_of_nat (length a)) u = Inr (a @ uuid_bytes u @ b)"
proof -
  have r: "replicate 17 (0 :: byte) = 0 # replicate 8 0 @ replicate 8 0"
    and r': "replicate 16 (0 :: byte) = replicate 8 0 @ replicate 8 0"
    by (simp_all add: numeral_eq_Suc)
  let ?m = "bo_bytes LittleEndian 8 (mostSigBits u)"
  have o1: "word_of_nat (length a) + 1 = (word_of_nat (length (a @ [0 :: byte])) :: i32)" by simp
  have o2: "word_of_nat (length (a @ [0 :: byte])) + 8 = (word_of_nat (length (a @ 0 # ?m)) :: i32)" by simp
  have "EncodeBoolean (a @ 0 # x) (word_of_nat (length a)) v = Inr (a @ (if v then 1 else 0) # x)" for v x
    using assms by (simp add: EncodeBoolean_def go_update_mid)
  moreover have "EncodeLong ((a @ [0]) @ replicate 8 0 @ replicate 8 0 @ b) (word_of_nat (length (a @ [0 :: byte]))) (mostSigBits u)
      = Inr ((a @ [0]) @ ?m @ replicate 8 0 @ b)"
    using assms by (intro long_fixed.enc_bytes) simp
  moreover have "EncodeLong ((a @ 0 # ?m) @ replicate 8 0 @ b) (word_of_nat (length (a @ 0 # ?m))) (leastSigBits u)
      = Inr ((a @ 0 # ?m) @ bo_bytes LittleEndian 8 (leastSigBits u) @ b)"
    using assms by (intro long_fixed.enc_bytes) simp
  ultimately show ?thesis
    by (simp add: EncodeUUID_def Let_def r r' o1 o2 uuid_bytes_def del: length_append replicate.simps)
qed

lemma DecodeUUID_bytes:
  assumes "length a + 17 < 2 ^ 31"
  shows "DecodeUUID (a @ uuid_bytes u @ b) (word_of_nat (length a)) = Inr u"
proof -
  let ?m = "bo_bytes LittleEndian 8 (mostSigBits u)" and ?l = "bo_bytes LittleEndian 8 (leastSigBits u)"
  have o1: "word_of_nat (length a) + 1 = (word_of_nat (length (a @ [0 :: byte])) :: i32)" by simp
  have o2: "word_of_nat (length (a @ [0 :: byte])) + 8 = (word_of_nat (length (a @ 0 # ?m)) :: i32)" by simp
  have "DecodeBoolean (a @ x # y) (word_of_nat (length a)) = Inr (x = 1)" for x y
    using assms by (simp add: DecodeBoolean_def go_index_mid)
  moreover have "DecodeLong ((a @ [0]) @ ?m @ ?l @ b) (word_of_nat (length (a @ [0 :: byte]))) = Inr (mostSigBits u)"
    using assms by (intro long_fixed.dec_bytes) simp
  moreover have "DecodeLong ((a @ 0 # ?m) @ ?l @ b) (word_of_nat (length (a @ 0 # ?m))) = Inr (leastSigBits u)"
    using assms by (intro long_fixed.dec_bytes) simp
  ultimately show ?thesis
    by (cases u) (auto simp: DecodeUUID_def Let_def o1 o2 uuid_bytes_def uuid_Default_def NewUUIDWith_def simp del: length_append)
qed

interpretation uuid_fixed: fixed_codec EncodeUUID DecodeUUID 17 uuid_bytes
proof
  show "length (uuid_bytes u) = 17" for u by (simp add: uuid_bytes_def)
qed (rule EncodeUUID_bytes DecodeUUID_bytes, assumption | simp)+

interpretation uuid_long_fixed: fixed_codec "encode_entry EncodeUUID 17 EncodeLong" "decode_entry DecodeUUID 17 DecodeLong"
    25 "\<lambda>(k, v). uuid_bytes k @ bo_bytes LittleEndian 8 v"
  using encode_entry_fixed [OF uuid_fixed.fixed_codec_axioms long_fixed.fixed_codec_axioms] by simp

interpretation int_uuid_fixed: fixed_codec "encode_entry EncodeInt 4 EncodeUUID" "decode_entry DecodeInt 4 DecodeUUID"
    21 "\<lambda>(k, v). bo_bytes LittleEndian 4 k @ uuid_bytes v"
  using encode_entry_fixed [OF int_fixed.fixed_codec_axioms uuid_fixed.fixed_codec_axioms] by simp

interpretation int_long_fixed: fixed_codec "encode_entry EncodeInt 4 EncodeLong" "decode_entry DecodeInt 4 DecodeLong"
    12 "\<lambda>(k, v). bo_bytes LittleEndian 4 k @ bo_bytes LittleEndian 8 v"
  using encode_entry_fixed [OF int_fixed.fixed_codec_axioms long_fixed.fixed_codec_axioms] by simp

end
