(* ===== verification/Murmur.thy ===== *)
theory Murmur
  imports Prelude
begin

text \<open>
  \<^verbatim>\<open>internal/murmur/murmur.go\<close> and \<^verbatim>\<open>internal/serialization/data.go\<close>: the hash that places a
  serialized key in a partition. The index arithmetic of \<open>M3A\<close> is kept at its widths
  (\<^verbatim>\<open>int32\<close> offsets, \<^verbatim>\<open>int\<close> length) with every slice expression checked; the reference definition
  \<open>murmur3_x86_32\<close> is MurmurHash3 for a list of bytes.
\<close>

unbundle bit_operations_syntax

section \<open>The code\<close>

definition defaultSeed :: "32 word" where
  "defaultSeed = 0x01000193"

definition rotl32 :: "32 word \<Rightarrow> 8 word \<Rightarrow> 32 word" where
  "rotl32 x r = push_bit (unat r) x OR drop_bit (unat (32 - r)) x"

definition fmix32 :: "32 word \<Rightarrow> 32 word" where
  "fmix32 h0 =
     (let h1 = h0 XOR drop_bit 16 h0;
          h2 = h1 * 0x85ebca6b;
          h3 = h2 XOR drop_bit 13 h2;
          h4 = h3 * 0xc2b2ae35
      in h4 XOR drop_bit 16 h4)"

definition m3a_k :: "32 word \<Rightarrow> 32 word" where
  "m3a_k k = rotl32 (k * 0xcc9e2d51) 15 * 0x1b873593"

definition m3a_h :: "32 word \<Rightarrow> 32 word \<Rightarrow> 32 word" where
  "m3a_h h k = rotl32 (h XOR k) 13 * 5 + 0xe6546b64"

text \<open>
  The body's loop. Its counter is an \<^verbatim>\<open>int32\<close>: were it to wrap around, the next slice expression
  would panic, so the loop ends on every input.
\<close>

function m3a_body :: "byte list \<Rightarrow> i32 \<Rightarrow> i32 \<Rightarrow> 32 word \<Rightarrow> 32 word go" where
  "m3a_body key i roundedEnd h =
     (if i <s roundedEnd
      then bind_go (get_uint LittleEndian 4 key (sint i))
             (\<lambda>k. m3a_body key (i + 4) roundedEnd (m3a_h h (m3a_k k)))
      else Inr h)"
  by pat_completeness auto
termination
proof (relation "measure (\<lambda>(key, i, e, h). if sint i < 0 then 0 else Suc (nat (2 ^ 31 - sint i)))", goal_cases)
  case 1
  show ?case by simp
next
  case (2 key i e h k)
  then have "0 \<le> sint i"
    by (auto simp: get_uint_def split: if_splits)
  moreover have "sint (i + 4) = sint i + 4 \<or> sint (i + 4) < 0"
  proof (cases "sint i + 4 < 2 ^ 31")
    case True
    with \<open>0 \<le> sint i\<close> show ?thesis by (simp add: sint32_add)
  next
    case False
    have "sint i < 2 ^ 31" by (rule sint32_bounds)
    with False have "(2147483652 + sint i - 4294967296) mod 4294967296 = sint i - 2147483644"
      by (subst mod_pos_pos_trivial) auto
    then have "(2147483652 + sint i) mod 4294967296 = sint i - 2147483644"
      by (simp only: minus_mod_self2)
    then have "signed_take_bit 31 (sint i + 4) = sint i + 4 - 2 ^ 32"
      by (simp add: signed_take_bit_eq_take_bit_shift take_bit_eq_mod)
    moreover have "sint (i + 4) = signed_take_bit 31 (sint i + 4)"
      by (simp add: sint_word_ariths)
    ultimately show ?thesis using \<open>sint i < 2 ^ 31\<close> by simp
  qed
  moreover have "sint i < 2 ^ 31" by (rule sint32_bounds)
  ultimately show ?case by auto
qed

declare m3a_body.simps [simp del]

text \<open>The switch on \<open>len & 3\<close>, with its fall-throughs.\<close>

definition m3a_tail :: "byte list \<Rightarrow> i64 \<Rightarrow> 32 word \<Rightarrow> 32 word go" where
  "m3a_tail tail rem h =
     (if rem = 0 then Inr h
      else bind_go (if rem = 3 then bind_go (go_index tail 2) (\<lambda>b. Inr (push_bit 16 (ucast b))) else Inr 0)
        (\<lambda>k2. bind_go (if rem = 3 \<or> rem = 2
                       then bind_go (go_index tail 1) (\<lambda>b. Inr (k2 XOR push_bit 8 (ucast b))) else Inr k2)
        (\<lambda>k1. bind_go (go_index tail 0)
        (\<lambda>b. Inr (h XOR m3a_k (k1 XOR ucast b))))))"

definition M3A :: "byte list \<Rightarrow> i32 \<Rightarrow> i64 \<Rightarrow> 32 word \<Rightarrow> i32 go" where
  "M3A key offset len seed =
     (let roundedEnd = offset + (ucast len AND 0xfffffffc)
      in bind_go (m3a_body key offset roundedEnd seed)
        (\<lambda>h. bind_go (go_slice_from key (sint roundedEnd))
        (\<lambda>tail. bind_go (m3a_tail tail (len AND 3) h)
        (\<lambda>h. Inr (fmix32 (h XOR ucast len))))))"

definition Default3A :: "byte list \<Rightarrow> i32 \<Rightarrow> i64 \<Rightarrow> i32 go" where
  "Default3A key offset len = M3A key offset len defaultSeed"

definition HashToIndex :: "i32 \<Rightarrow> i32 \<Rightarrow> i32 go" where
  "HashToIndex hash len =
     (if hash = 0x80000000 then Inr 0
      else let h = (if sint hash < 0 then -1 * hash else hash)
           in if len = 0 then Inl DivideByZero
              else Inr (word_of_int (go_rem (sint h) (sint len))))"

section \<open>MurmurHash3 on byte lists\<close>

definition mix_k1 :: "32 word \<Rightarrow> 32 word" where
  "mix_k1 k = word_rotl 15 (k * 0xcc9e2d51) * 0x1b873593"

definition mix_h1 :: "32 word \<Rightarrow> 32 word \<Rightarrow> 32 word" where
  "mix_h1 h k = word_rotl 13 (h XOR mix_k1 k) * 5 + 0xe6546b64"

fun murmur3_blocks :: "byte list \<Rightarrow> 32 word \<Rightarrow> 32 word \<times> byte list" where
  "murmur3_blocks (b0 # b1 # b2 # b3 # bs) h = murmur3_blocks bs (mix_h1 h (le_word [b0, b1, b2, b3]))"
| "murmur3_blocks bs h = (h, bs)"

definition murmur3_x86_32 :: "byte list \<Rightarrow> 32 word \<Rightarrow> 32 word" where
  "murmur3_x86_32 bs seed =
     (case murmur3_blocks bs seed of (h, rest) \<Rightarrow>
        fmix32 ((if rest = [] then h else h XOR mix_k1 (le_word rest)) XOR word_of_nat (length bs)))"

section \<open>Correctness\<close>

lemma rotl32_word_rotl:
  assumes "0 < unat r" "unat r < 32"
  shows "rotl32 x r = word_rotl (unat r) x"
proof (rule bit_word_eqI)
  fix n :: nat assume n: "n < LENGTH(32)"
  have "r \<le> 32" using assms by (simp add: word_le_nat_alt)
  then have sub: "unat (32 - r) = 32 - unat r"
    by (simp add: unat_sub)
  show "bit (rotl32 x r) n \<longleftrightarrow> bit (word_rotl (unat r) x) n"
  proof (cases "n < unat r")
    case True
    with assms have "(n + (32 - unat r)) mod 32 = 32 - unat r + n"
      by (subst mod_less) auto
    with True n assms show ?thesis
      by (simp add: rotl32_def sub bit_word_rotl_iff bit_or_iff bit_push_bit_iff bit_drop_bit_eq)
  next
    case False
    have "\<not> bit x (32 - unat r + n)"
      using False assms bit_imp_le_length [of x "32 - unat r + n"] by auto
    moreover have "(n + (32 - unat r)) mod 32 = n - unat r"
      using False n assms by (simp add: mod_if)
    ultimately show ?thesis using False n assms
      by (auto simp: rotl32_def sub bit_word_rotl_iff bit_or_iff bit_push_bit_iff bit_drop_bit_eq)
  qed
qed

lemma m3a_k_mix: "m3a_k k = mix_k1 k"
  using rotl32_word_rotl [of 15] by (simp add: m3a_k_def mix_k1_def)

lemma m3a_h_mix: "m3a_h h (m3a_k k) = mix_h1 h k"
  using rotl32_word_rotl [of 13] by (simp add: m3a_h_def mix_h1_def m3a_k_mix)

lemma murmur3_blocks_short: "length bs < 4 \<Longrightarrow> murmur3_blocks bs h = (h, bs)"
  by (induction bs h rule: murmur3_blocks.induct) auto

lemma murmur3_blocks_append:
  "length xs = 4 * n \<Longrightarrow> murmur3_blocks (xs @ ys) h = murmur3_blocks ys (fst (murmur3_blocks xs h))"
proof (induction n arbitrary: xs h)
  case 0
  then show ?case by simp
next
  case (Suc n)
  then obtain a b c d zs where "xs = a # b # c # d # zs" and "length zs = 4 * n"
    by (auto simp: length_Suc_conv numeral_eq_Suc)
  with Suc.IH show ?case by simp
qed

lemma murmur3_blocks_exact: "length xs = 4 * n \<Longrightarrow> snd (murmur3_blocks xs h) = []"
  using murmur3_blocks_append [of xs n "[]" h] by (simp add: prod_eq_iff)

lemma take4_drop: "p + 4 \<le> length xs \<Longrightarrow> take 4 (drop p xs) = [xs ! p, xs ! (p + 1), xs ! (p + 2), xs ! (p + 3)]"
  by (rule nth_equalityI) (auto simp: less_Suc_eq numeral_eq_Suc)

lemma m3a_body_blocks:
  assumes "0 \<le> sint i" and "sint e = sint i + 4 * int n" and "nat (sint i) + 4 * n \<le> length key"
  shows "m3a_body key i e h = Inr (fst (murmur3_blocks (take (4 * n) (drop (nat (sint i)) key)) h))"
  using assms
proof (induction n arbitrary: i h)
  case 0
  then show ?case by (simp add: m3a_body.simps word_sless_alt)
next
  case (Suc n)
  let ?p = "nat (sint i)"
  have e: "sint e < 2 ^ 31" by (rule sint32_bounds)
  with Suc.prems have i4: "sint (i + 4) = sint i + 4"
    by (simp add: sint32_add)
  have blk: "take 4 (drop ?p key) = [key ! ?p, key ! (?p + 1), key ! (?p + 2), key ! (?p + 3)]"
    using Suc.prems by (intro take4_drop) simp
  have split: "take (4 * Suc n) (drop ?p key) = take 4 (drop ?p key) @ take (4 * n) (drop (nat (sint (i + 4))) key)"
    using Suc.prems i4 take_add [of 4 "4 * n" "drop ?p key"] by (simp add: nat_add_distrib add.commute)
  have "m3a_body key i e h = m3a_body key (i + 4) e (mix_h1 h (le_word (take 4 (drop ?p key))))"
    using Suc.prems by (simp add: bo_word.simps m3a_body.simps [of key i] word_sless_alt get_uint_ok m3a_h_mix)
  also have "\<dots> = Inr (fst (murmur3_blocks (take (4 * n) (drop (nat (sint (i + 4))) key))
                         (mix_h1 h (le_word (take 4 (drop ?p key))))))"
    using Suc.prems i4 by (intro Suc.IH) (simp_all add: nat_add_distrib)
  finally show ?case by (simp only: split) (simp add: blk)
qed

lemma m3a_tail_le_word:
  assumes "n < 4" and "n \<le> length tail" and "r = word_of_nat n"
  shows "m3a_tail tail r h = Inr (if n = 0 then h else h XOR mix_k1 (le_word (take n tail)))"
proof -
  consider "n = 0" | a ts where "n = 1" "tail = a # ts" | a b ts where "n = 2" "tail = a # b # ts"
    | a b c ts where "n = 3" "tail = a # b # c # ts"
    using assms(1,2) by (auto simp: less_Suc_eq numeral_eq_Suc Suc_le_length_iff)
  then show ?thesis
  proof cases
    case 1
    with assms(3) show ?thesis by (simp add: m3a_tail_def)
  next
    case 2
    with assms(3) show ?thesis by (simp add: m3a_tail_def go_index_def m3a_k_mix)
  next
    case (3 a b ts)
    have "push_bit 8 (ucast b) XOR ucast a = (ucast a OR push_bit 8 (ucast b) :: 32 word)"
      by (rule bit_word_eqI) (auto simp: bit_simps dest: bit_imp_le_length)
    with 3 assms(3) show ?thesis by (simp add: m3a_tail_def go_index_def m3a_k_mix numeral_eq_Suc)
  next
    case (4 a b c ts)
    have "(push_bit 16 (ucast c) XOR push_bit 8 (ucast b)) XOR ucast a
        = (ucast a OR push_bit 8 (ucast b OR push_bit 8 (ucast c)) :: 32 word)"
      by (rule bit_word_eqI) (auto simp: bit_simps dest: bit_imp_le_length)
    with 4 assms(3) show ?thesis by (simp add: m3a_tail_def go_index_def m3a_k_mix take_Cons')
  qed
qed

lemma uint_of_nonneg: "0 \<le> sint (len :: i64) \<Longrightarrow> uint len = sint len"
  using sint_less [of len] by (simp add: uint_sint take_bit_int_eq_self)

lemma unat_and_fffffffc: "unat (x AND 0xfffffffc :: 32 word) = 4 * (unat x div 4)"
proof -
  have "(0xfffffffc :: 32 word) = NOT (mask 2)"
    by (simp add: mask_eq_exp_minus_1 word_uint_eq_iff uint_neg_numeral)
  then have "x AND 0xfffffffc = x AND NOT (mask 2)" by simp
  also have "\<dots> = push_bit 2 (drop_bit 2 x)"
    by (rule bit_word_eqI) (auto simp: bit_simps not_less dest!: le_Suc_ex)
  finally have *: "x AND 0xfffffffc = push_bit 2 (drop_bit 2 x)" .
  have "unat x < 2 ^ 32" using unsigned_less [of x, where 'a = nat] by simp
  then have "take_bit 32 (4 * (unat x div 4)) = 4 * (unat x div 4)"
    by (intro take_bit_nat_eq_self) linarith
  moreover have "unat (push_bit 2 (drop_bit 2 x)) = take_bit 32 (push_bit 2 (drop_bit 2 (unat x)))"
    using \<open>unat x < 2 ^ 32\<close>
    by (simp only: unsigned_push_bit_eq unsigned_drop_bit_eq) (simp add: take_bit_nat_eq_self)
  ultimately show ?thesis
    by (simp only: *) (simp add: push_bit_eq_mult drop_bit_eq_div mult.commute)
qed

lemma M3A_reference_aux:
  assumes "0 \<le> sint offset" and "0 \<le> sint len"
    and "sint offset + sint len < 2 ^ 31" and "sint offset + sint len \<le> int (length key)"
  shows "M3A key offset len seed =
     Inr (murmur3_x86_32 (take (nat (sint len)) (drop (nat (sint offset)) key)) seed)"
proof -
  define L where "L = nat (sint len)"
  define p where "p = nat (sint offset)"
  have L31: "L < 2 ^ 31" using assms by (simp add: L_def)
  have len: "len = word_of_nat L"
  proof -
    have "uint len = int L" using assms(2) by (simp add: L_def uint_of_nonneg)
    then show ?thesis by (metis of_int_of_nat_eq word_of_int_uint)
  qed
  have len32: "ucast len = (word_of_nat L :: 32 word)"
    using L31 by (simp add: len unsigned_of_nat take_bit_nat_eq_self)
  have "unat (ucast len AND 0xfffffffc :: 32 word) = 4 * (L div 4)"
    using L31 by (simp add: unat_and_fffffffc len32 unsigned_of_nat take_bit_nat_eq_self)
  then have and32: "ucast len AND 0xfffffffc = (word_of_nat (4 * (L div 4)) :: 32 word)"
    by (metis of_nat_unat ucast_id)
  have L4: "4 * (L div 4) < 2 ^ 31" using L31 by linarith
  have sintL: "sint (word_of_nat (4 * (L div 4)) :: i32) = 4 * int (L div 4)"
    using L4 by (subst sint32_of_nat) auto
  have le: "p + L \<le> length key" "int p = sint offset" using assms by (simp_all add: p_def L_def)
  have "4 * int (L div 4) \<le> int L" by linarith
  then have re: "sint (offset + word_of_nat (4 * (L div 4))) = sint offset + 4 * int (L div 4)"
    using assms sintL by (subst sint32_add) (auto simp: L_def)
  have rem: "len AND 3 = word_of_nat (L mod 4)"
  proof -
    have "len AND 3 = take_bit 2 len"
      by (simp add: take_bit_eq_mask mask_eq_exp_minus_1)
    also have "\<dots> = word_of_nat (take_bit 2 L)"
      by (simp only: len take_bit_of_nat)
    finally show ?thesis by (simp add: take_bit_eq_mod)
  qed
  define bs where "bs = take L (drop p key)"
  define ws where "ws = take (4 * (L div 4)) (drop p key)"
  define rest where "rest = drop (4 * (L div 4)) bs"
  have lbs: "length bs = L" using le by (simp add: bs_def)
  have bs: "bs = ws @ rest"
    by (simp add: bs_def ws_def rest_def)
       (metis (no_types, lifting) append_take_drop_id min.absorb1 mult_div_mod_eq le_add1 take_take)
  have lws: "length ws = 4 * (L div 4)" using le by (simp add: ws_def)
  have lrest: "length rest = L mod 4" using lbs by (simp add: rest_def minus_mult_div_eq_mod)
  have body: "m3a_body key offset (offset + word_of_nat (4 * (L div 4))) seed
      = Inr (fst (murmur3_blocks ws seed))"
    using m3a_body_blocks [of offset "offset + word_of_nat (4 * (L div 4))" "L div 4" key seed] re le assms(1)
    by (simp add: ws_def p_def [symmetric])
  have sl: "go_slice_from key (sint offset + 4 * int (L div 4)) = Inr (drop (p + 4 * (L div 4)) key)"
  proof -
    have "sint offset + 4 * int (L div 4) = int (p + 4 * (L div 4))" using le(2) by simp
    moreover have "p + 4 * (L div 4) \<le> length key" using le(1) by linarith
    ultimately show ?thesis by (simp add: go_slice_from_def nat_int del: of_nat_add of_nat_mult)
  qed
  have tk: "take (L mod 4) (drop (p + 4 * (L div 4)) key) = rest"
    by (simp add: rest_def bs_def drop_take add.commute minus_mult_div_eq_mod)
  have "L mod 4 \<le> length (drop (p + 4 * (L div 4)) key)"
    using le(1) mult_div_mod_eq [of 4 L] unfolding length_drop by linarith
  then have tail: "m3a_tail (drop (p + 4 * (L div 4)) key) (word_of_nat (L mod 4)) h
      = Inr (if rest = [] then h else h XOR mix_k1 (le_word rest))" for h
    using m3a_tail_le_word [of "L mod 4" "drop (p + 4 * (L div 4)) key" "word_of_nat (L mod 4)" h] lrest tk
    by auto
  have blocks: "murmur3_blocks bs seed = (fst (murmur3_blocks ws seed), rest)"
    using murmur3_blocks_append [OF lws, of rest seed] lrest by (simp add: bs murmur3_blocks_short)
  show ?thesis
    by (simp add: M3A_def Let_def and32 [unfolded len32] body re sl rem tail murmur3_x86_32_def blocks len32 lbs
        flip: L_def p_def bs_def del: of_nat_mult)
qed

lemma sint32_uminus: "sint h \<noteq> - (2 ^ 31) \<Longrightarrow> sint (- h :: i32) = - sint h"
  using sint32_bounds [of h] by (simp add: sint_word_ariths signed_take_bit_int_eq_self)

lemma min_int32_iff: "(h :: i32) = 0x80000000 \<longleftrightarrow> sint h = - (2 ^ 31)"
proof -
  have "sint (0x80000000 :: i32) = - (2 ^ 31)" by simp
  then show ?thesis by (simp only: word_eq_iff_signed [where 'a = int])
qed

lemma HashToIndex_value:
  assumes "0 < sint n"
  shows "HashToIndex h n = Inr (word_of_int (if sint h = - (2 ^ 31) then 0 else \<bar>sint h\<bar> mod sint n))"
proof (cases "sint h = - (2 ^ 31)")
  case True
  then show ?thesis by (simp add: HashToIndex_def min_int32_iff)
next
  case False
  then have "sint (if sint h < 0 then - h else h) = \<bar>sint h\<bar>"
    by (simp add: sint32_uminus)
  with False assms show ?thesis
    by (auto simp: HashToIndex_def min_int32_iff Let_def go_rem_nonneg)
qed

lemma HashToIndex_bounds:
  assumes "0 < sint n"
  shows "\<exists>r. HashToIndex h n = Inr r \<and> 0 \<le> sint r \<and> sint r < sint n"
proof -
  define k where "k = (if sint h = - (2 ^ 31) then 0 else \<bar>sint h\<bar> mod sint n)"
  have k: "0 \<le> k" "k < sint n" using assms by (simp_all add: k_def)
  have "sint n < 2 ^ 31" by (rule sint32_bounds)
  with k have "sint (word_of_int k :: i32) = k" by (intro sint32_of_int) linarith+
  with k show ?thesis
    using HashToIndex_value [OF assms, of h, folded k_def] by simp
qed

section \<open>Properties\<close>

text \<open>Published test vectors of MurmurHash3_x86_32 pin the reference definition down.\<close>

lemma murmur3_vectors:
  "murmur3_x86_32 (gostr ''test'') 0 = 0xba6bd213"
  "murmur3_x86_32 (gostr ''Hello, world!'') 0 = 0xc0363e43"
  by code_simp+

text \<open>
  C22: on every range of the key that fits a 31-bit offset, \<open>M3A\<close> neither panics nor diverges and
  returns MurmurHash3_x86_32 of the bytes of that range.
\<close>

theorem M3A_reference:
  assumes "0 \<le> sint offset" and "0 \<le> sint len"
    and "sint offset + sint len < 2 ^ 31" and "sint offset + sint len \<le> int (length key)"
  shows "M3A key offset len seed =
     Inr (murmur3_x86_32 (take (nat (sint len)) (drop (nat (sint offset)) key)) seed)"
  using assms by (rule M3A_reference_aux)

theorem M3A_reference_witness:
  "M3A (gostr ''xtest!'') 1 4 0 = Inr (murmur3_x86_32 (gostr ''test'') 0)"
  using M3A_reference [of 1 4 "gostr ''xtest!''" 0] by (simp add: gostr_def)

end
