(* ===== verification/Partition.thy ===== *)
theory Partition
  imports Murmur Uuid Hzerrors
begin

text \<open>
  Serialized data (\<^verbatim>\<open>internal/serialization/data.go\<close>) and the partition service
  (\<^verbatim>\<open>internal/cluster/partition_service.go\<close>): which partition a key belongs to, the table of partition
  owners a member sends, and the partition count that the first authentication fixes. The table is
  guarded by a mutex and the count is changed by one compare-and-swap, so each method is one step.
\<close>

section \<open>Serialized data\<close>

definition TypeNil :: i32 where "TypeNil = 0"
definition typeOffset :: int where "typeOffset = 4"
definition DataOffset :: i32 where "DataOffset = 8"
definition heapDataOverhead :: int where "heapDataOverhead = 8"

text \<open>A \<^verbatim>\<open>Data\<close> value is a byte slice that may be \<^verbatim>\<open>nil\<close>; the length of \<^verbatim>\<open>nil\<close> is 0.\<close>

type_synonym data = "byte list option"

definition data_bytes :: "data \<Rightarrow> byte list" where
  "data_bytes d = (case d of None \<Rightarrow> [] | Some bs \<Rightarrow> bs)"

definition data_Type :: "data \<Rightarrow> i32 go" where
  "data_Type d = (case d of None \<Rightarrow> Inr TypeNil | Some bs \<Rightarrow> get_uint BigEndian 4 bs typeOffset)"

definition DataSize :: "data \<Rightarrow> int" where
  "DataSize d = (let v = int (length (data_bytes d)) - heapDataOverhead in if v \<le> 0 then 0 else v)"

definition PartitionHash :: "data \<Rightarrow> i32 go" where
  "PartitionHash d = Default3A (data_bytes d) DataOffset (word_of_int (DataSize d))"

section \<open>The partition table\<close>

record partition_table =
  pt_partitions :: "(i32, uuid) gomap"
  pt_connectionID :: i64
  pt_partitionStateVersion :: i32

definition defaultPartitionTable :: partition_table where
  "defaultPartitionTable =
     \<lparr>pt_partitions = [], pt_connectionID = 0, pt_partitionStateVersion = - 1\<rparr>"

text \<open>
  The pairs the codec delivers: an owner and the ids of its partitions. A later pair overwrites the
  owner that an earlier one gave.
\<close>

definition newPartitions :: "(uuid \<times> i32 list) list \<Rightarrow> (i32, uuid) gomap" where
  "newPartitions pairs =
     fold (\<lambda>(u, ids) m. fold (\<lambda>i m. AList.update i u m) ids m) pairs []"

definition table_Update ::
  "(uuid \<times> i32 list) list \<Rightarrow> i32 \<Rightarrow> i64 \<Rightarrow> partition_table \<Rightarrow> bool \<times> partition_table" where
  "table_Update pairs version connectionID p =
     (let cantApply = (pairs = [] \<or> pt_connectionID p = connectionID
                                    \<and> sint version \<le> sint (pt_partitionStateVersion p))
      in if cantApply then (False, p)
         else let np = newPartitions pairs
              in if map_deep_equal (pt_partitions p) np then (False, p)
                 else (True, p\<lparr>pt_partitions := np, pt_partitionStateVersion := version,
                               pt_connectionID := connectionID\<rparr>))"

definition GetOwnerUUID :: "i32 \<Rightarrow> partition_table \<Rightarrow> uuid \<times> bool" where
  "GetOwnerUUID partitionID p =
     (case map_of (pt_partitions p) partitionID of
        Some u \<Rightarrow> (u, True)
      | None \<Rightarrow> (zero_uuid, False))"

definition table_Reset :: "partition_table \<Rightarrow> partition_table" where
  "table_Reset p = p\<lparr>pt_partitionStateVersion := - 1, pt_partitions := [], pt_connectionID := 0\<rparr>"

section \<open>The partition service\<close>

record partition_service =
  ps_partitionTable :: partition_table
  ps_partitionCount :: i32

definition NewPartitionService :: partition_service where
  "NewPartitionService = \<lparr>ps_partitionTable = defaultPartitionTable, ps_partitionCount = 0\<rparr>"

definition GetPartitionOwner :: "i32 \<Rightarrow> partition_service \<Rightarrow> uuid \<times> bool" where
  "GetPartitionOwner partitionId s = GetOwnerUUID partitionId (ps_partitionTable s)"

definition GetPartitionID :: "data \<Rightarrow> partition_service \<Rightarrow> (go_error + i32) go" where
  "GetPartitionID keyData s =
     (let count = ps_partitionCount s
      in if count = 0 then Inr (Inl (Sentinel ErrClientOffline))
         else bind_go (PartitionHash keyData)
                (\<lambda>h. bind_go (HashToIndex h count) (\<lambda>i. Inr (Inr i))))"

definition service_Update ::
  "i64 \<Rightarrow> (uuid \<times> i32 list) list \<Rightarrow> i32 \<Rightarrow> partition_service \<Rightarrow> partition_service" where
  "service_Update connID partitions version s =
     s\<lparr>ps_partitionTable := snd (table_Update partitions version connID (ps_partitionTable s))\<rparr>"

definition service_Reset :: "partition_service \<Rightarrow> partition_service" where
  "service_Reset s = s\<lparr>ps_partitionTable := table_Reset (ps_partitionTable s)\<rparr>"

definition checkAndSetPartitionCount ::
  "i32 \<Rightarrow> partition_service \<Rightarrow> go_error option \<times> partition_service" where
  "checkAndSetPartitionCount newPartitionCount s =
     (if ps_partitionCount s = 0 then (None, s\<lparr>ps_partitionCount := newPartitionCount\<rparr>)
      else if ps_partitionCount s \<noteq> newPartitionCount
      then (Some (WrapError
              (gostr ''client cannot work with this cluster because it has different partition count, expected ''
                 @ itoa (sint (ps_partitionCount s)) @ gostr '', got '' @ itoa (sint newPartitionCount))
              (Sentinel ErrClientNotAllowedInCluster)), s)
      else (None, s))"

text \<open>The operations that change the service, as they arrive from the connections.\<close>

datatype partition_op =
    PUpdate i64 "(uuid \<times> i32 list) list" i32
  | PReset
  | PCheckCount i32

definition partition_step :: "partition_op \<Rightarrow> partition_service \<Rightarrow> partition_service" where
  "partition_step oper s = (case oper of
     PUpdate connID pairs version \<Rightarrow> service_Update connID pairs version s
   | PReset \<Rightarrow> service_Reset s
   | PCheckCount n \<Rightarrow> snd (checkAndSetPartitionCount n s))"

section \<open>Facts\<close>

text \<open>The owner that a list of pairs gives to a partition: the last pair that lists it.\<close>

definition last_owner :: "(uuid \<times> i32 list) list \<Rightarrow> i32 \<Rightarrow> uuid option" where
  "last_owner pairs i = map_option fst (find (\<lambda>(u, ids). i \<in> set ids) (rev pairs))"

lemma map_of_fold_update:
  "map_of (fold (\<lambda>i m. AList.update i u m) ids m) i = (if i \<in> set ids then Some u else map_of m i)"
  by (induction ids arbitrary: m) auto

lemma last_owner_snoc:
  "last_owner (pairs @ [(u, ids)]) i = (if i \<in> set ids then Some u else last_owner pairs i)"
  by (simp add: last_owner_def)

lemma map_of_newPartitions: "map_of (newPartitions pairs) i = last_owner pairs i"
proof (induction pairs rule: rev_induct)
  case Nil
  then show ?case by (simp add: newPartitions_def last_owner_def)
next
  case (snoc p pairs)
  obtain u ids where p: "p = (u, ids)" by (cases p)
  with snoc show ?case by (simp add: newPartitions_def map_of_fold_update last_owner_snoc)
qed

lemma gomap_wf_fold_update: "gomap_wf m \<Longrightarrow> gomap_wf (fold (\<lambda>i m. AList.update i u m) ids m)"
  by (induction ids arbitrary: m) auto

lemma newPartitions_wf: "gomap_wf (newPartitions pairs)"
proof (induction pairs rule: rev_induct)
  case (snoc p pairs)
  then show ?case by (cases p) (simp add: newPartitions_def gomap_wf_fold_update)
qed (simp add: newPartitions_def)

lemma PartitionHash_murmur:
  assumes "8 \<le> length bs" "length bs < 2 ^ 31"
  shows "PartitionHash (Some bs) = Inr (murmur3_x86_32 (drop 8 bs) defaultSeed)"
proof -
  define n where "n = length bs - 8"
  have n: "n < 2 ^ 31" using assms by (simp add: n_def)
  have "DataSize (Some bs) = int n"
    using assms by (auto simp: DataSize_def data_bytes_def heapDataOverhead_def n_def Let_def)
  moreover have s: "sint (word_of_int (int n) :: i64) = int n"
    using n by (simp add: signed_of_nat signed_take_bit_int_eq_self)
  ultimately show ?thesis
    using M3A_reference_aux [of DataOffset "word_of_int (int n)" bs defaultSeed] assms n
    by (simp add: PartitionHash_def Default3A_def data_bytes_def DataOffset_def n_def)
qed

lemma GetPartitionID_bounds:
  assumes "0 < sint (ps_partitionCount s)" "8 \<le> length bs" "length bs < 2 ^ 31"
  shows "\<exists>i. GetPartitionID (Some bs) s = Inr (Inr i)
     \<and> 0 \<le> sint i \<and> sint i < sint (ps_partitionCount s)
     \<and> HashToIndex (murmur3_x86_32 (drop 8 bs) defaultSeed) (ps_partitionCount s) = Inr i"
proof -
  from assms have "ps_partitionCount s \<noteq> 0" by auto
  moreover obtain i where "HashToIndex (murmur3_x86_32 (drop 8 bs) defaultSeed) (ps_partitionCount s) = Inr i"
    "0 \<le> sint i" "sint i < sint (ps_partitionCount s)"
    using HashToIndex_bounds [OF assms(1)] by blast
  ultimately show ?thesis by (simp add: GetPartitionID_def PartitionHash_murmur [OF assms(2,3)])
qed

section \<open>Properties\<close>

text \<open>
  C23: once the partition count is positive, every key with a data header has a partition id within
  the count, computed from the MurmurHash3 of the bytes after the header.
\<close>

theorem GetPartitionID_range:
  assumes "0 < sint (ps_partitionCount s)" "8 \<le> length bs" "length bs < 2 ^ 31"
  shows "\<exists>i. GetPartitionID (Some bs) s = Inr (Inr i)
     \<and> 0 \<le> sint i \<and> sint i < sint (ps_partitionCount s)
     \<and> HashToIndex (murmur3_x86_32 (drop 8 bs) defaultSeed) (ps_partitionCount s) = Inr i"
  using GetPartitionID_bounds [OF assms] .

theorem GetPartitionID_range_witness:
  "\<exists>i. GetPartitionID (Some (replicate 12 7)) (NewPartitionService\<lparr>ps_partitionCount := 271\<rparr>) = Inr (Inr i)
     \<and> 0 \<le> sint i \<and> sint i < 271"
  using GetPartitionID_range [of "NewPartitionService\<lparr>ps_partitionCount := 271\<rparr>" "replicate 12 7"]
  by auto


text \<open>
  A list that equals the current table leaves the version behind, so that a list older than it is
  applied afterwards.
\<close>

lemma stale_table_applied:
  "let u = NewUUIDWith 1 1; v = NewUUIDWith 2 2;
       p5 = snd (table_Update [(u, [0])] 5 1 defaultPartitionTable);
       p7 = snd (table_Update [(u, [0])] 7 1 p5);
       p6 = snd (table_Update [(v, [0])] 6 1 p7)
   in GetOwnerUUID 0 p6 = (v, True)"
  by code_simp

text \<open>
  C25: a partition count other than zero never changes again, whatever sequence of updates, resets
  and authentications follows; an authentication with another count is refused.
\<close>

theorem partition_count_stable:
  assumes "ps_partitionCount s \<noteq> 0"
  shows "ps_partitionCount (fold partition_step ops s) = ps_partitionCount s
     \<and> (fst (checkAndSetPartitionCount n (fold partition_step ops s)) = None
          \<longleftrightarrow> n = ps_partitionCount s)"
proof -
  have "ps_partitionCount (fold partition_step ops s) = ps_partitionCount s"
    using assms
    by (induction ops arbitrary: s)
       (auto simp: partition_step_def service_Update_def service_Reset_def checkAndSetPartitionCount_def
          split: partition_op.splits)
  with assms show ?thesis by (auto simp: checkAndSetPartitionCount_def)
qed

theorem partition_count_stable_witness:
  "ps_partitionCount (fold partition_step [PCheckCount 11, PReset] (NewPartitionService\<lparr>ps_partitionCount := 271\<rparr>)) = 271"
  using partition_count_stable
    [of "NewPartitionService\<lparr>ps_partitionCount := 271\<rparr>" "[PCheckCount 11, PReset]" 271]
  by simp

end
