(* ===== verification/FrameCodec.thy ===== *)
theory FrameCodec
  imports FixedCodec Partition
begin

text \<open>
  Values that take whole frames: the codecs of \<^verbatim>\<open>internal/proto/codec/builtin.go\<close> for strings, data,
  nullable values, lists and entry lists between a begin and an end frame. Encoders append frames to
  a message, decoders consume frames of an iterator.
\<close>

section \<open>Walking over frames\<close>

definition NextFrameIsDataStructureEndFrame :: "frame_iterator \<Rightarrow> bool go" where
  "NextFrameIsDataStructureEndFrame it = bind_go (PeekNext it) (\<lambda>f. Inr (IsEndFrame f))"

definition NextFrameIsNullFrame :: "bool decoder" where
  "NextFrameIsNullFrame it = bind_go (PeekNext it)
     (\<lambda>f. if IsNullFrame f then bind_go (it_Next it) (\<lambda>(_, it). Inr (True, it)) else Inr (False, it))"

lemma it_Next_Inr:
  "it_Next it = Inr (f, it') \<longleftrightarrow>
     it_next it < length (it_frames it) \<and> f = it_frames it ! it_next it \<and> it' = it\<lparr>it_next := it_next it + 1\<rparr>"
  by (auto simp: it_Next_def go_index_def)

function fast_forward :: "nat \<Rightarrow> frame_iterator \<Rightarrow> frame_iterator go" where
  "fast_forward expectedEndFrames it =
     (if expectedEndFrames = 0 then Inr it
      else bind_go (it_Next it)
             (\<lambda>res. if IsEndFrame (fst res) then fast_forward (expectedEndFrames - 1) (snd res)
                else if IsBeginFrame (fst res) then fast_forward (expectedEndFrames + 1) (snd res)
                else fast_forward expectedEndFrames (snd res)))"
  by pat_completeness auto
termination
  by (relation "measure (\<lambda>(_, it). length (it_frames it) - it_next it)") (auto simp: it_Next_Inr)

declare fast_forward.simps [simp del]

definition FastForwardToEndFrame :: "frame_iterator \<Rightarrow> frame_iterator go" where
  "FastForwardToEndFrame it = fast_forward 1 it"

section \<open>Single frames\<close>

definition EncodeByteArray :: "byte list \<Rightarrow> encoder" where
  "EncodeByteArray value m = Inr (AddFrame (NewFrame value) m)"

definition DecodeByteArray :: "byte list decoder" where
  "DecodeByteArray it = bind_go (it_Next it) (\<lambda>(f, it). Inr (fr_Content f, it))"

definition EncodeString :: "gostring \<Rightarrow> encoder" where
  "EncodeString value m = Inr (AddFrame (NewFrame value) m)"

definition DecodeString :: "gostring decoder" where
  "DecodeString it = bind_go (it_Next it) (\<lambda>(f, it). Inr (fr_Content f, it))"

text \<open>The content of a frame of a \<^verbatim>\<open>nil\<close> data value is \<^verbatim>\<open>nil\<close>, which is sent like an empty slice.\<close>

definition EncodeData :: "data \<Rightarrow> encoder" where
  "EncodeData value m = Inr (AddFrame (NewFrame (data_bytes value)) m)"

definition DecodeData :: "data decoder" where
  "DecodeData it = bind_go (it_Next it) (\<lambda>(f, it). Inr (Some (fr_Content f), it))"

definition EncodeNullableData :: "data \<Rightarrow> encoder" where
  "EncodeNullableData d m =
     (if d = None then Inr (AddFrame NullFrame m) else Inr (AddFrame (NewFrame (data_bytes d)) m))"

definition DecodeNullableData :: "data decoder" where
  "DecodeNullableData it = bind_go (NextFrameIsNullFrame it)
     (\<lambda>(null, it). if null then Inr (None, it) else DecodeData it)"

definition EncodeNullableForString :: "gostring \<Rightarrow> encoder" where
  "EncodeNullableForString value m =
     (if is_blank value then Inr (AddFrame NullFrame m) else EncodeString value m)"

definition DecodeNullableForString :: "gostring decoder" where
  "DecodeNullableForString it = bind_go (NextFrameIsNullFrame it)
     (\<lambda>(null, it). if null then Inr ([], it) else DecodeString it)"

definition DecodeNullableForLongArray :: "i64 list option decoder" where
  "DecodeNullableForLongArray it = bind_go (NextFrameIsNullFrame it)
     (\<lambda>(null, it). if null then Inr (None, it)
        else bind_go (DecodeLongArray it) (\<lambda>(xs, it). Inr (Some xs, it)))"

section \<open>Lists between a begin and an end frame\<close>

definition encode_multi :: "('a \<Rightarrow> encoder) \<Rightarrow> 'a list \<Rightarrow> encoder" where
  "encode_multi enc xs m =
     bind_go (for_each enc xs (AddFrame BeginFrame m)) (\<lambda>m. Inr (AddFrame EndFrame m))"

text \<open>
  The loop up to the end frame. Each decoder below consumes at least one frame, so that the loop
  ends at an end frame or with a panic behind the last frame.
\<close>

function decode_until_end :: "'a decoder \<Rightarrow> 'a list decoder" where
  "decode_until_end dec it = bind_go (NextFrameIsDataStructureEndFrame it)
     (\<lambda>e. if e then Inr ([], it)
        else bind_go (dec it)
          (\<lambda>res. if it_frames (snd res) = it_frames it \<and> it_next it < it_next (snd res)
             then bind_go (decode_until_end dec (snd res)) (\<lambda>(xs, it). Inr (fst res # xs, it))
             else Inl Diverges))"
  by pat_completeness auto
termination
proof (relation "measure (\<lambda>(_, it). length (it_frames it) - it_next it)", simp)
  fix dec :: "'a decoder" and it e and res :: "'a \<times> frame_iterator"
  assume "NextFrameIsDataStructureEndFrame it = Inr e" "it_frames (snd res) = it_frames it \<and> it_next it < it_next (snd res)"
  then show "((dec, snd res), (dec, it)) \<in> measure (\<lambda>(_, it). length (it_frames it) - it_next it)"
    by (auto simp: NextFrameIsDataStructureEndFrame_def PeekNext_def go_index_def split: if_splits)
qed

declare decode_until_end.simps [simp del]

definition DecodeListMultiFrame :: "'a decoder \<Rightarrow> 'a list decoder" where
  "DecodeListMultiFrame dec it = bind_go (it_Next it)
     (\<lambda>(_, it). bind_go (decode_until_end dec it)
     (\<lambda>(xs, it). bind_go (it_Next it) (\<lambda>(_, it). Inr (xs, it))))"

definition EncodeListMultiFrameForData :: "data list \<Rightarrow> encoder" where
  "EncodeListMultiFrameForData = encode_multi EncodeData"

definition DecodeListMultiFrameForData :: "data list decoder" where
  "DecodeListMultiFrameForData = DecodeListMultiFrame DecodeData"

definition EncodeListMultiFrameForString :: "gostring list \<Rightarrow> encoder" where
  "EncodeListMultiFrameForString = encode_multi EncodeString"

definition DecodeListMultiFrameForString :: "gostring list decoder" where
  "DecodeListMultiFrameForString = DecodeListMultiFrame DecodeString"

definition EncodeListMultiFrameContainsNullable :: "(data \<Rightarrow> encoder) \<Rightarrow> data list \<Rightarrow> encoder" where
  "EncodeListMultiFrameContainsNullable enc =
     encode_multi (\<lambda>v m. if v = None then Inr (AddFrame NullFrame m) else enc v m)"

definition EncodeListMultiFrameNullableForData :: "data list \<Rightarrow> encoder" where
  "EncodeListMultiFrameNullableForData values = EncodeListMultiFrameContainsNullable EncodeData values"

definition EncodeListMultiFrameNullable :: "(data \<Rightarrow> encoder) \<Rightarrow> data list \<Rightarrow> encoder" where
  "EncodeListMultiFrameNullable enc xs m =
     (if length xs = 0 then Inr (AddFrame NullFrame m) else encode_multi enc xs m)"

definition DecodeListMultiFrameWithListInteger :: "i32 list list decoder" where
  "DecodeListMultiFrameWithListInteger = DecodeListMultiFrame DecodeListInteger"

section \<open>Entry lists\<close>

definition encode_pair :: "('a \<Rightarrow> encoder) \<Rightarrow> ('b \<Rightarrow> encoder) \<Rightarrow> 'a \<times> 'b \<Rightarrow> encoder" where
  "encode_pair enck encv = (\<lambda>(k, v) m. bind_go (enck k m) (encv v))"

definition decode_pair :: "'a decoder \<Rightarrow> 'b decoder \<Rightarrow> ('a \<times> 'b) decoder" where
  "decode_pair deck decv it =
     bind_go (deck it) (\<lambda>(k, it). bind_go (decv it) (\<lambda>(v, it). Inr ((k, v), it)))"

definition EncodeEntryList :: "('a \<Rightarrow> encoder) \<Rightarrow> ('b \<Rightarrow> encoder) \<Rightarrow> ('a \<times> 'b) list \<Rightarrow> encoder" where
  "EncodeEntryList enck encv = encode_multi (encode_pair enck encv)"

definition EncodeNullableEntryList :: "('a \<Rightarrow> encoder) \<Rightarrow> ('b \<Rightarrow> encoder) \<Rightarrow> ('a \<times> 'b) list \<Rightarrow> encoder" where
  "EncodeNullableEntryList enck encv entries m =
     (if length entries = 0 then Inr (AddFrame NullFrame m) else EncodeEntryList enck encv entries m)"

definition DecodeEntryList :: "'a decoder \<Rightarrow> 'b decoder \<Rightarrow> ('a \<times> 'b) list decoder" where
  "DecodeEntryList deck decv = DecodeListMultiFrame (decode_pair deck decv)"

definition DecodeNullableEntryList :: "'a decoder \<Rightarrow> 'b decoder \<Rightarrow> ('a \<times> 'b) list option decoder" where
  "DecodeNullableEntryList deck decv it = bind_go (NextFrameIsNullFrame it)
     (\<lambda>(null, it). if null then Inr (None, it)
        else bind_go (DecodeEntryList deck decv it) (\<lambda>(xs, it). Inr (Some xs, it)))"

definition EncodeEntryListForStringAndString :: "(gostring \<times> gostring) list \<Rightarrow> encoder" where
  "EncodeEntryListForStringAndString = encode_multi (encode_pair EncodeString EncodeString)"

definition EncodeEntryListForStringAndByteArray :: "(gostring \<times> byte list) list \<Rightarrow> encoder" where
  "EncodeEntryListForStringAndByteArray = encode_multi (encode_pair EncodeString EncodeByteArray)"

definition EncodeEntryListForDataAndData :: "(data \<times> data) list \<Rightarrow> encoder" where
  "EncodeEntryListForDataAndData = encode_multi (encode_pair EncodeData EncodeData)"

definition DecodeEntryListForDataAndData :: "(data \<times> data) list decoder" where
  "DecodeEntryListForDataAndData = DecodeListMultiFrame (decode_pair DecodeData DecodeData)"

definition EncodeListData :: "data list \<Rightarrow> encoder" where
  "EncodeListData = EncodeListMultiFrameForData"

definition DecodeListData :: "data list decoder" where
  "DecodeListData = DecodeListMultiFrameForData"

definition EncodeEntryListForDataAndListData :: "(data \<times> data list) list \<Rightarrow> encoder" where
  "EncodeEntryListForDataAndListData = encode_multi (encode_pair EncodeData EncodeListData)"

definition DecodeEntryListForStringAndEntryListIntegerLong :: "(gostring \<times> (i32 \<times> i64) list) list decoder" where
  "DecodeEntryListForStringAndEntryListIntegerLong =
     DecodeListMultiFrame (decode_pair DecodeString DecodeEntryListIntegerLong)"

text \<open>The values go into a list of frames of their own; the keys follow in one frame.\<close>

definition EncodeEntryListUUIDListInteger :: "(uuid \<times> i32 list) list \<Rightarrow> encoder" where
  "EncodeEntryListUUIDListInteger entries m =
     bind_go (for_each EncodeListInteger (map snd entries) (AddFrame BeginFrame m))
       (\<lambda>m. EncodeListUUID (map fst entries) (AddFrame EndFrame m))"

definition DecodeEntryListUUIDListInteger :: "(uuid \<times> i32 list) list decoder" where
  "DecodeEntryListUUIDListInteger it = bind_go (DecodeListMultiFrameWithListInteger it)
     (\<lambda>(vals, it). bind_go (DecodeListUUID it)
     (\<lambda>(keys, it). bind_go (map_go (\<lambda>i. bind_go (go_index vals (int i)) (\<lambda>v. Inr (keys ! i, v))) [0..<length keys])
     (\<lambda>res. Inr (res, it))))"

text \<open>
  \<^verbatim>\<open>map[string]string\<close> and its kind: encoding visits the entries in the order of the list given here,
  which is the order Go's iteration happens to take; decoding stores one entry after another.
\<close>

definition EncodeMapForStringAndString :: "(gostring, gostring) gomap \<Rightarrow> encoder" where
  "EncodeMapForStringAndString = encode_multi (encode_pair EncodeString EncodeString)"

definition decode_map :: "'k decoder \<Rightarrow> 'v decoder \<Rightarrow> ('k, 'v) gomap decoder" where
  "decode_map deck decv it = bind_go (DecodeListMultiFrame (decode_pair deck decv) it)
     (\<lambda>(kvs, it). Inr (fold (\<lambda>(k, v) m. AList.update k v m) kvs [], it))"

definition DecodeMapForStringAndString :: "(gostring, gostring) gomap decoder" where
  "DecodeMapForStringAndString = decode_map DecodeString DecodeString"

section \<open>Frames on the way\<close>

text \<open>
  The transport sets the final flag of a message's last frame, so a decoder sees frames that agree
  with the encoded ones in content and in the three structure flags. What a decoder accepts is
  stated up to that difference.
\<close>

definition similar :: "frame \<Rightarrow> frame \<Rightarrow> bool" where
  "similar f g \<longleftrightarrow> fr_Content f = fr_Content g \<and> (IsEndFrame f \<longleftrightarrow> IsEndFrame g)
     \<and> (IsBeginFrame f \<longleftrightarrow> IsBeginFrame g) \<and> (IsNullFrame f \<longleftrightarrow> IsNullFrame g)"

definition it_rest :: "frame_iterator \<Rightarrow> frame list" where
  "it_rest it = drop (it_next it) (it_frames it)"

definition skip :: "nat \<Rightarrow> frame_iterator \<Rightarrow> frame_iterator" where
  "skip n it = it\<lparr>it_next := it_next it + n\<rparr>"

definition emits :: "encoder \<Rightarrow> frame list \<Rightarrow> bool" where
  "emits enc fs \<longleftrightarrow> (\<forall>m. enc m = Inr (m\<lparr>cm_Frames := cm_Frames m @ fs\<rparr>))"

definition accepts :: "'a decoder \<Rightarrow> frame list \<Rightarrow> 'a \<Rightarrow> bool" where
  "accepts dec fs v \<longleftrightarrow> (\<forall>it fs' rest. list_all2 similar fs' fs \<longrightarrow> it_rest it = fs' @ rest \<longrightarrow>
     dec it = Inr (v, skip (length fs) it))"

lemma similar_refl [simp]: "similar f f"
  by (simp add: similar_def)

lemma similar_set_final: "similar (set_final f) f"
  by (simp add: similar_def flag_bits set_final_bits)

lemma similar_final_last: "list_all2 similar (final_last fs) fs"
  by (induction fs rule: final_last.induct) (simp_all add: similar_set_final)

lemma skip_simps [simp]:
  "skip 0 it = it" "skip m (skip n it) = skip (n + m) it" "it_frames (skip n it) = it_frames it"
  "it_next (skip n it) = it_next it + n"
  by (simp_all add: skip_def add.assoc)

lemma it_rest_skip: "it_rest it = fs @ rest \<Longrightarrow> it_rest (skip (length fs) it) = rest"
  by (simp add: it_rest_def) (metis add.commute append_eq_conv_conj drop_drop)

lemma it_rest_Cons:
  assumes "it_rest it = f # rest"
  shows "it_Next it = Inr (f, skip 1 it)" and "PeekNext it = Inr f"
proof -
  from assms have l: "it_next it < length (it_frames it)" by (auto simp: it_rest_def intro: ccontr)
  moreover have "it_frames it ! it_next it = f"
    using assms l by (simp add: it_rest_def Cons_nth_drop_Suc [symmetric])
  ultimately show "it_Next it = Inr (f, skip 1 it)" "PeekNext it = Inr f"
    by (simp_all add: it_Next_def PeekNext_def go_index_def skip_def)
qed

section \<open>Combining codecs\<close>

lemma emits_frame: "emits (\<lambda>m. Inr (AddFrame f m)) [f]"
  by (simp add: emits_def AddFrame_def)

lemma emits_bind: "emits e fs \<Longrightarrow> emits e' gs \<Longrightarrow> emits (\<lambda>m. bind_go (e m) e') (fs @ gs)"
  by (simp add: emits_def)

lemma emits_for_each: "(\<And>x. x \<in> set xs \<Longrightarrow> emits (enc x) (fr x)) \<Longrightarrow> emits (for_each enc xs) (concat (map fr xs))"
  by (induction xs) (simp_all add: emits_def)

lemma emits_multi:
  "(\<And>x. x \<in> set xs \<Longrightarrow> emits (enc x) (fr x)) \<Longrightarrow>
   emits (encode_multi enc xs) (BeginFrame # concat (map fr xs) @ [EndFrame])"
  using emits_for_each [of xs enc fr] by (simp add: emits_def encode_multi_def AddFrame_def)

lemma accepts_D:
  "accepts dec fs v \<Longrightarrow> list_all2 similar fs' fs \<Longrightarrow> it_rest it = fs' @ rest \<Longrightarrow> dec it = Inr (v, skip (length fs) it)"
  by (simp add: accepts_def)

lemma accepts_bind:
  assumes "accepts d fs v" "accepts (d' v) gs w"
  shows "accepts (\<lambda>it. bind_go (d it) (\<lambda>(x, it). d' x it)) (fs @ gs) w"
  unfolding accepts_def
proof (intro allI impI)
  fix it hs rest assume "list_all2 similar hs (fs @ gs)" and r: "it_rest it = hs @ rest"
  then obtain fs' gs' where h: "hs = fs' @ gs'" "list_all2 similar fs' fs" "list_all2 similar gs' gs"
    by (auto simp: list_all2_append2)
  then have l: "length fs' = length fs" by (simp add: list_all2_lengthD)
  have "d it = Inr (v, skip (length fs) it)" using accepts_D [OF assms(1) h(2)] r h(1) by simp
  moreover have "it_rest (skip (length fs) it) = gs' @ rest" using it_rest_skip [of it fs' "gs' @ rest"] r h(1) l by simp
  ultimately show "bind_go (d it) (\<lambda>(x, it). d' x it) = Inr (w, skip (length (fs @ gs)) it)"
    using accepts_D [OF assms(2) h(3)] by simp
qed

lemma accepts_map: "accepts d fs v \<Longrightarrow> accepts (\<lambda>it. bind_go (d it) (\<lambda>(x, it). Inr (f x, it))) fs (f v)"
  by (simp add: accepts_def)

lemma accepts_Inr: "accepts (\<lambda>it. Inr (v, it)) [] v"
  by (simp add: accepts_def)

lemma accepts_Next: "accepts (\<lambda>it. bind_go (it_Next it) (\<lambda>(f, it). Inr (fr_Content f, it))) [g] (fr_Content g)"
  unfolding accepts_def
proof (intro allI impI)
  fix it fs' rest assume "list_all2 similar fs' [g]" and r: "it_rest it = fs' @ rest"
  then obtain f where f: "fs' = [f]" "fr_Content f = fr_Content g" by (auto simp: list_all2_Cons2 similar_def)
  with r have "it_Next it = Inr (f, skip 1 it)" using it_rest_Cons(1) [of it f rest] by simp
  with f show "bind_go (it_Next it) (\<lambda>(f, it). Inr (fr_Content f, it)) = Inr (fr_Content g, skip (length [g]) it)"
    by simp
qed

text \<open>The begin frame: whatever it is, it is skipped.\<close>

lemma accepts_Next_bind:
  "accepts d fs v \<Longrightarrow> accepts (\<lambda>it. bind_go (it_Next it) (\<lambda>(_, it). d it)) (g # fs) v"
  using accepts_bind [OF accepts_Next [of g], of "\<lambda>_. d" fs v]
  by (simp add: bind_go_assoc split_def)

lemma decode_until_end_accepts:
  assumes "\<And>x. x \<in> set xs \<Longrightarrow> accepts dec (fr x) x"
    and "\<And>x. x \<in> set xs \<Longrightarrow> fr x \<noteq> [] \<and> \<not> IsEndFrame (hd (fr x))"
    and "list_all2 similar fs (concat (map fr xs))" "it_rest it = fs @ e # rest" "IsEndFrame e"
  shows "decode_until_end dec it = Inr (xs, skip (length fs) it)"
  using assms
proof (induction xs arbitrary: fs it)
  case Nil
  then show ?case
    by (simp add: decode_until_end.simps [of dec it] NextFrameIsDataStructureEndFrame_def it_rest_Cons)
next
  case (Cons x xs)
  obtain gs hs where fs: "fs = gs @ hs" "list_all2 similar gs (fr x)" "list_all2 similar hs (concat (map fr xs))"
    using Cons.prems(3) by (auto simp: list_all2_append2)
  have ne: "fr x \<noteq> []" "\<not> IsEndFrame (hd (fr x))" using Cons.prems(2) by simp_all
  then obtain g gs' where gs: "gs = g # gs'" "similar g (hd (fr x))" using fs(2) by (cases gs; cases "fr x") auto
  have l: "length gs = length (fr x)" using fs(2) by (simp add: list_all2_lengthD)
  have "NextFrameIsDataStructureEndFrame it = Inr False"
    using it_rest_Cons(2) [of it g] Cons.prems(4) fs(1) gs ne by (simp add: NextFrameIsDataStructureEndFrame_def similar_def)
  moreover have "dec it = Inr (x, skip (length (fr x)) it)"
    using accepts_D [OF Cons.prems(1) fs(2)] Cons.prems(4) fs(1) by simp
  moreover have "decode_until_end dec (skip (length (fr x)) it) = Inr (xs, skip (length hs) (skip (length (fr x)) it))"
    using Cons.prems fs it_rest_skip [of it gs "hs @ e # rest"] l by (intro Cons.IH) simp_all
  ultimately show ?case
    using ne l fs(1) by (simp add: decode_until_end.simps [of dec it])
qed

lemma EndFrame_flags [simp]: "IsEndFrame EndFrame" "\<not> IsNullFrame EndFrame" "IsBeginFrame BeginFrame"
    "\<not> IsEndFrame BeginFrame" "\<not> IsNullFrame BeginFrame" "IsNullFrame NullFrame" "\<not> IsEndFrame NullFrame" "\<not> IsBeginFrame NullFrame"
    "\<not> IsEndFrame (NewFrame c)" "\<not> IsNullFrame (NewFrame c)" "\<not> IsBeginFrame (NewFrame c)" "fr_Content (NewFrame c) = c"
  by (simp_all add: flag_bits EndFrame_def BeginFrame_def NullFrame_def NewFrame_def NewFrameWith_def flag_defs)

lemma DecodeListMultiFrame_accepts:
  assumes "\<And>x. x \<in> set xs \<Longrightarrow> accepts dec (fr x) x"
    and "\<And>x. x \<in> set xs \<Longrightarrow> fr x \<noteq> [] \<and> \<not> IsEndFrame (hd (fr x))"
  shows "accepts (DecodeListMultiFrame dec) (BeginFrame # concat (map fr xs) @ [EndFrame]) xs"
proof -
  have "accepts (\<lambda>it. bind_go (decode_until_end dec it) (\<lambda>(xs, it). bind_go (it_Next it) (\<lambda>(_, it). Inr (xs, it))))
          (concat (map fr xs) @ [EndFrame]) xs"
    unfolding accepts_def
  proof (intro allI impI)
    fix it hs rest assume "list_all2 similar hs (concat (map fr xs) @ [EndFrame])" and r: "it_rest it = hs @ rest"
    then obtain fs e where h: "hs = fs @ [e]" "list_all2 similar fs (concat (map fr xs))" "similar e EndFrame"
      by (auto simp: list_all2_append2 list_all2_Cons2)
    have "decode_until_end dec it = Inr (xs, skip (length fs) it)"
      using assms h r by (intro decode_until_end_accepts [where fr = fr and e = e and rest = rest]) (simp_all add: similar_def)
    moreover have "it_rest (skip (length fs) it) = e # rest" using it_rest_skip [of it fs] r h(1) by simp
    moreover have "length fs = length (concat (map fr xs))" using h(2) by (rule list_all2_lengthD)
    ultimately show "bind_go (decode_until_end dec it) (\<lambda>(xs, it). bind_go (it_Next it) (\<lambda>(_, it). Inr (xs, it)))
        = Inr (xs, skip (length (concat (map fr xs) @ [EndFrame])) it)"
      using it_rest_Cons(1) [of "skip (length fs) it"] by simp
  qed
  from accepts_Next_bind [OF this] show ?thesis by (simp add: DecodeListMultiFrame_def [abs_def] split_def)
qed

section \<open>The contract of a codec\<close>

text \<open>
  An encoder and a decoder that agree on the frames of each valid value, none of which starts with
  an end frame. Where none starts with a null frame either, the codec has a nullable version.
\<close>

locale frame_codec =
  fixes enc :: "'a \<Rightarrow> encoder"
    and dec :: "'a decoder"
    and fr :: "'a \<Rightarrow> frame list"
    and valid :: "'a \<Rightarrow> bool"
  assumes enc_emits: "valid x \<Longrightarrow> emits (enc x) (fr x)"
    and dec_accepts: "valid x \<Longrightarrow> accepts dec (fr x) x"
    and starts: "valid x \<Longrightarrow> fr x \<noteq> [] \<and> \<not> IsEndFrame (hd (fr x))"
begin

lemma multi_codec:
  "frame_codec (encode_multi enc) (DecodeListMultiFrame dec)
     (\<lambda>xs. BeginFrame # concat (map fr xs) @ [EndFrame]) (list_all valid)"
proof
  fix xs assume "list_all valid xs"
  then have v: "\<And>x. x \<in> set xs \<Longrightarrow> valid x" by (simp add: list_all_iff)
  show "emits (encode_multi enc xs) (BeginFrame # concat (map fr xs) @ [EndFrame])"
    using v by (intro emits_multi enc_emits)
  show "accepts (DecodeListMultiFrame dec) (BeginFrame # concat (map fr xs) @ [EndFrame]) xs"
    by (rule DecodeListMultiFrame_accepts) (auto dest: v intro: dec_accepts simp: starts)
qed simp

text \<open>A value sent in a message of its own arrives.\<close>

lemma message_roundtrip:
  assumes "valid x"
  shows "\<exists>m. enc x NewClientMessageForEncode = Inr m
     \<and> dec (FrameIterator (m\<lparr>cm_Frames := final_last (cm_Frames m)\<rparr>)) = Inr (x, skip (length (cm_Frames m)) (FrameIterator (m\<lparr>cm_Frames := final_last (cm_Frames m)\<rparr>)))"
proof -
  let ?m = "NewClientMessageForEncode\<lparr>cm_Frames := fr x\<rparr>"
  have "enc x NewClientMessageForEncode = Inr ?m"
    using enc_emits [OF assms] by (simp add: emits_def NewClientMessageForEncode_def)
  moreover have "it_rest (FrameIterator (?m\<lparr>cm_Frames := final_last (cm_Frames ?m)\<rparr>)) = final_last (fr x) @ []"
    by (simp add: it_rest_def FrameIterator_def)
  ultimately show ?thesis
    using accepts_D [OF dec_accepts [OF assms] similar_final_last] by (intro exI [of _ ?m]) simp
qed

end

lemma pair_codec:
  assumes "frame_codec e1 d1 f1 v1" "frame_codec e2 d2 f2 v2"
  shows "frame_codec (encode_pair e1 e2) (decode_pair d1 d2) (\<lambda>(k, v). f1 k @ f2 v) (\<lambda>(k, v). v1 k \<and> v2 v)"
proof
  fix x :: "'a \<times> 'b" assume "(\<lambda>(k, v). v1 k \<and> v2 v) x"
  then obtain k v where x: "x = (k, v)" "v1 k" "v2 v" by (cases x) auto
  show "emits (encode_pair e1 e2 x) ((\<lambda>(k, v). f1 k @ f2 v) x)"
    using emits_bind [OF frame_codec.enc_emits [OF assms(1) x(2)] frame_codec.enc_emits [OF assms(2) x(3)]]
    by (simp add: x(1) encode_pair_def)
  show "accepts (decode_pair d1 d2) ((\<lambda>(k, v). f1 k @ f2 v) x) x"
    using accepts_bind [where d' = "\<lambda>k it. bind_go (d2 it) (\<lambda>(v, it). Inr ((k, v), it))",
        OF frame_codec.dec_accepts [OF assms(1) x(2)] accepts_map [OF frame_codec.dec_accepts [OF assms(2) x(3)], of "Pair k"]]
    by (simp add: x(1) decode_pair_def [abs_def])
  show "(\<lambda>(k, v). f1 k @ f2 v) x \<noteq> [] \<and> \<not> IsEndFrame (hd ((\<lambda>(k, v). f1 k @ f2 v) x))"
    using frame_codec.starts [OF assms(1) x(2)] by (simp add: x(1))
qed

interpretation byte_array_codec: frame_codec EncodeByteArray DecodeByteArray "\<lambda>v. [NewFrame v]" "\<lambda>_. True"
  using emits_frame accepts_Next [of "NewFrame _"]
  by unfold_locales (simp_all add: EncodeByteArray_def [abs_def] DecodeByteArray_def [abs_def])

interpretation string_codec: frame_codec EncodeString DecodeString "\<lambda>v. [NewFrame v]" "\<lambda>_. True"
  using emits_frame accepts_Next [of "NewFrame _"]
  by unfold_locales (simp_all add: EncodeString_def [abs_def] DecodeString_def [abs_def])

lemma DecodeData_accepts: "accepts DecodeData [NewFrame c] (Some c)"
  using accepts_map [OF accepts_Next [of "NewFrame c"], of Some]
  by (simp add: DecodeData_def [abs_def] bind_go_assoc split_def)

interpretation data_codec: frame_codec EncodeData DecodeData "\<lambda>v. [NewFrame (data_bytes v)]" "\<lambda>v. v \<noteq> None"
  using emits_frame DecodeData_accepts
  by unfold_locales (auto simp: EncodeData_def [abs_def] data_bytes_def)

text \<open>Lists of fixed-size items in one frame.\<close>

lemma items_codec:
  assumes "fixed_codec e d sz bytes"
  shows "frame_codec (encode_items sz e) (decode_items sz d) (\<lambda>xs. [NewFrame (concat (map bytes xs))])
     (\<lambda>xs. length xs * sz < 2 ^ 31)"
proof
  fix xs :: "'a list" assume l: "length xs * sz < 2 ^ 31"
  show "emits (encode_items sz e xs) [NewFrame (concat (map bytes xs))]"
    using fixed_codec.encode_items_frame [OF assms l] by (simp add: emits_def AddFrame_def)
  show "accepts (decode_items sz d) [NewFrame (concat (map bytes xs))] xs"
    unfolding accepts_def
  proof (intro allI impI)
    fix it fs rest assume "list_all2 similar fs [NewFrame (concat (map bytes xs))]" "it_rest it = fs @ rest"
    then obtain f where "it_rest it = f # rest" "fr_Content f = concat (map bytes xs)"
      by (auto simp: list_all2_Cons2 similar_def)
    then show "decode_items sz d it = Inr (xs, skip (length [NewFrame (concat (map bytes xs))]) it)"
      using fixed_codec.decode_items_frame [OF assms l] it_rest_Cons(1) by fastforce
  qed
qed simp

interpretation list_integer_codec: frame_codec EncodeListInteger DecodeListInteger
    "\<lambda>xs. [NewFrame (concat (map (\<lambda>v. bo_bytes LittleEndian 4 v) xs))]" "\<lambda>xs. length xs * 4 < 2 ^ 31"
  unfolding EncodeListInteger_def DecodeListInteger_def by (rule items_codec [OF int_fixed.fixed_codec_axioms])

interpretation list_long_codec: frame_codec EncodeListLong DecodeListLong
    "\<lambda>xs. [NewFrame (concat (map (\<lambda>v. bo_bytes LittleEndian 8 v) xs))]" "\<lambda>xs. length xs * 8 < 2 ^ 31"
  unfolding EncodeListLong_def DecodeListLong_def by (rule items_codec [OF long_fixed.fixed_codec_axioms])

interpretation long_array_codec: frame_codec EncodeLongArray DecodeLongArray
    "\<lambda>xs. [NewFrame (concat (map (\<lambda>v. bo_bytes LittleEndian 8 v) xs))]" "\<lambda>xs. length xs * 8 < 2 ^ 31"
  unfolding EncodeLongArray_def DecodeLongArray_def by (rule items_codec [OF long_fixed.fixed_codec_axioms])

interpretation list_uuid_codec: frame_codec EncodeListUUID DecodeListUUID
    "\<lambda>xs. [NewFrame (concat (map uuid_bytes xs))]" "\<lambda>xs. length xs * 17 < 2 ^ 31"
  unfolding EncodeListUUID_def DecodeListUUID_def by (rule items_codec [OF uuid_fixed.fixed_codec_axioms])

interpretation uuid_long_codec: frame_codec EncodeEntryListUUIDLong DecodeEntryListUUIDLong
    "\<lambda>xs. [NewFrame (concat (map (\<lambda>(k, v). uuid_bytes k @ bo_bytes LittleEndian 8 v) xs))]" "\<lambda>xs. length xs * 25 < 2 ^ 31"
  unfolding EncodeEntryListUUIDLong_def DecodeEntryListUUIDLong_def
  by (rule items_codec [OF uuid_long_fixed.fixed_codec_axioms])

interpretation data_list_codec: frame_codec EncodeListMultiFrameForData DecodeListMultiFrameForData
    "\<lambda>xs. BeginFrame # concat (map (\<lambda>v. [NewFrame (data_bytes v)]) xs) @ [EndFrame]" "list_all (\<lambda>v. v \<noteq> None)"
  unfolding EncodeListMultiFrameForData_def DecodeListMultiFrameForData_def by (rule data_codec.multi_codec)

interpretation string_list_codec: frame_codec EncodeListMultiFrameForString DecodeListMultiFrameForString
    "\<lambda>xs. BeginFrame # concat (map (\<lambda>v. [NewFrame v]) xs) @ [EndFrame]" "list_all (\<lambda>_. True)"
  unfolding EncodeListMultiFrameForString_def DecodeListMultiFrameForString_def by (rule string_codec.multi_codec)

interpretation data_entries_codec: frame_codec EncodeEntryListForDataAndData DecodeEntryListForDataAndData
    "\<lambda>xs. BeginFrame # concat (map (\<lambda>(k, v). [NewFrame (data_bytes k)] @ [NewFrame (data_bytes v)]) xs) @ [EndFrame]"
    "list_all (\<lambda>(k, v). k \<noteq> None \<and> v \<noteq> None)"
  unfolding EncodeEntryListForDataAndData_def DecodeEntryListForDataAndData_def
  by (rule frame_codec.multi_codec [OF pair_codec [OF data_codec.frame_codec_axioms data_codec.frame_codec_axioms]])

section \<open>Nullable values\<close>

lemma NextFrameIsNullFrame_null:
  "it_rest it = f # rest \<Longrightarrow> IsNullFrame f \<Longrightarrow> NextFrameIsNullFrame it = Inr (True, skip 1 it)"
  using it_rest_Cons [of it f rest] by (simp add: NextFrameIsNullFrame_def)

lemma NextFrameIsNullFrame_other:
  "it_rest it = f # rest \<Longrightarrow> \<not> IsNullFrame f \<Longrightarrow> NextFrameIsNullFrame it = Inr (False, it)"
  using it_rest_Cons [of it f rest] by (simp add: NextFrameIsNullFrame_def)

lemma nullable_accepts:
  assumes "accepts d fs v" "fs \<noteq> []" "\<not> IsNullFrame (hd fs)"
  shows "accepts (\<lambda>it. bind_go (NextFrameIsNullFrame it) (\<lambda>(null, it). if null then Inr (n, it) else d it)) fs v"
  unfolding accepts_def
proof (intro allI impI)
  fix it fs' rest assume s: "list_all2 similar fs' fs" and r: "it_rest it = fs' @ rest"
  from s assms(2) obtain f gs where f: "fs' = f # gs" "similar f (hd fs)" by (cases fs; cases fs') auto
  then have "\<not> IsNullFrame f" using assms(3) by (simp add: similar_def)
  with r f have "NextFrameIsNullFrame it = Inr (False, it)" by (simp add: NextFrameIsNullFrame_other)
  with accepts_D [OF assms(1) s r] show "bind_go (NextFrameIsNullFrame it) (\<lambda>(null, it). if null then Inr (n, it) else d it)
      = Inr (v, skip (length fs) it)"
    by simp
qed

lemma null_accepts:
  "accepts (\<lambda>it. bind_go (NextFrameIsNullFrame it) (\<lambda>(null, it). if null then Inr (n, it) else d it)) [NullFrame] n"
  unfolding accepts_def
proof (intro allI impI)
  fix it fs rest assume "list_all2 similar fs [NullFrame]" "it_rest it = fs @ rest"
  then obtain f where "it_rest it = f # rest" "IsNullFrame f" by (auto simp: list_all2_Cons2 similar_def)
  then show "bind_go (NextFrameIsNullFrame it) (\<lambda>(null, it). if null then Inr (n, it) else d it)
      = Inr (n, skip (length [NullFrame]) it)"
    by (simp add: NextFrameIsNullFrame_null)
qed

interpretation nullable_data_codec: frame_codec EncodeNullableData DecodeNullableData
    "\<lambda>v. [case v of None \<Rightarrow> NullFrame | Some c \<Rightarrow> NewFrame c]" "\<lambda>_. True"
proof
  fix v :: data
  show "emits (EncodeNullableData v) [case v of None \<Rightarrow> NullFrame | Some c \<Rightarrow> NewFrame c]"
    by (cases v) (simp_all add: emits_def EncodeNullableData_def AddFrame_def data_bytes_def)
  show "accepts DecodeNullableData [case v of None \<Rightarrow> NullFrame | Some c \<Rightarrow> NewFrame c] v"
    using null_accepts nullable_accepts [OF DecodeData_accepts]
    by (cases v) (simp_all add: DecodeNullableData_def [abs_def])
  show "[case v of None \<Rightarrow> NullFrame | Some c \<Rightarrow> NewFrame c] \<noteq> []
      \<and> \<not> IsEndFrame (hd [case v of None \<Rightarrow> NullFrame | Some c \<Rightarrow> NewFrame c])"
    by (cases v) simp_all
qed

text \<open>A nullable string: the empty one stands for null. A blank string that is not empty is lost.\<close>

definition string_frame :: "gostring \<Rightarrow> frame" where
  "string_frame s = (if s = [] then NullFrame else NewFrame s)"

lemma DecodeNullableForString_accepts: "accepts DecodeNullableForString [string_frame s] s"
  using null_accepts [of "[]"] nullable_accepts [OF string_codec.dec_accepts [OF TrueI, of s]]
  by (cases "s = []") (simp_all add: DecodeNullableForString_def [abs_def] string_frame_def)

interpretation nullable_string_codec: frame_codec EncodeNullableForString DecodeNullableForString
    "\<lambda>s. [string_frame s]" "\<lambda>s. is_blank s \<longrightarrow> s = []"
proof
  fix s assume "is_blank s \<longrightarrow> s = []"
  then show "emits (EncodeNullableForString s) [string_frame s]"
    by (auto simp: emits_def EncodeNullableForString_def EncodeString_def AddFrame_def string_frame_def)
  show "accepts DecodeNullableForString [string_frame s] s" by (rule DecodeNullableForString_accepts)
  show "[string_frame s] \<noteq> [] \<and> \<not> IsEndFrame (hd [string_frame s])" by (simp add: string_frame_def)
qed

section \<open>Skipping to the end of a structure\<close>

lemma fast_forward_end:
  assumes "it_rest it = e # rest" "IsEndFrame e"
  shows "FastForwardToEndFrame it = Inr (skip 1 it)"
  using it_rest_Cons(1) [OF assms(1)] assms(2)
  by (simp add: FastForwardToEndFrame_def fast_forward.simps [of "Suc 0"] fast_forward.simps [of 0])

text \<open>Frames that open as many structures as they close.\<close>

inductive balanced :: "frame list \<Rightarrow> bool" where
  balanced_Nil: "balanced []"
| balanced_plain: "\<not> IsEndFrame f \<Longrightarrow> \<not> IsBeginFrame f \<Longrightarrow> balanced fs \<Longrightarrow> balanced (f # fs)"
| balanced_struct: "IsBeginFrame b \<Longrightarrow> \<not> IsEndFrame b \<Longrightarrow> IsEndFrame e \<Longrightarrow> balanced fs \<Longrightarrow> balanced gs \<Longrightarrow>
    balanced (b # fs @ e # gs)"

code_pred balanced .

lemma fast_forward_balanced:
  "balanced fs \<Longrightarrow> it_rest it = fs @ rest \<Longrightarrow> 0 < n \<Longrightarrow> fast_forward n it = fast_forward n (skip (length fs) it)"
proof (induction arbitrary: it rest n rule: balanced.induct)
  case balanced_Nil
  then show ?case by simp
next
  case (balanced_plain f fs)
  then have r: "it_rest it = f # fs @ rest" by simp
  have "fast_forward n it = fast_forward n (skip 1 it)"
    using it_rest_Cons(1) [OF r] balanced_plain.hyps balanced_plain.prems by (subst fast_forward.simps) simp
  also have "\<dots> = fast_forward n (skip (length fs) (skip 1 it))"
    using balanced_plain.IH [of "skip 1 it" rest n] it_rest_skip [of it "[f]"] balanced_plain.prems by simp
  finally show ?case by simp
next
  case (balanced_struct b e fs gs)
  then have r: "it_rest it = b # fs @ e # gs @ rest" by simp
  let ?i1 = "skip 1 it" and ?i2 = "skip (1 + length fs) it"
  have r1: "it_rest ?i1 = fs @ e # gs @ rest" using it_rest_skip [of it "[b]"] r by simp
  have r2: "it_rest ?i2 = e # gs @ rest" using it_rest_skip [of it "b # fs"] r by simp
  have "fast_forward n it = fast_forward (n + 1) ?i1"
    using it_rest_Cons(1) [OF r] balanced_struct.hyps balanced_struct.prems by (subst fast_forward.simps) simp
  also have "\<dots> = fast_forward (n + 1) ?i2" using balanced_struct.IH(1) [OF r1, of "n + 1"] by simp
  also have "\<dots> = fast_forward n (skip 1 ?i2)"
    using it_rest_Cons(1) [OF r2] balanced_struct.hyps by (subst fast_forward.simps) simp
  also have "\<dots> = fast_forward n (skip (length gs) (skip 1 ?i2))"
    using balanced_struct.IH(2) [of "skip 1 ?i2" rest n] it_rest_skip [of ?i2 "[e]"] r2 balanced_struct.prems by simp
  finally show ?case by (simp add: add.assoc)
qed

section \<open>The partition list\<close>

definition partition_list_ok :: "(uuid \<times> i32 list) list \<Rightarrow> bool" where
  "partition_list_ok es \<longleftrightarrow> length es * 17 < 2 ^ 31 \<and> list_all (\<lambda>(_, ids). length ids * 4 < 2 ^ 31) es"

definition partition_list_frames :: "(uuid \<times> i32 list) list \<Rightarrow> frame list" where
  "partition_list_frames es =
     (BeginFrame # concat (map (\<lambda>ids. [NewFrame (concat (map (\<lambda>v. bo_bytes LittleEndian 4 v) ids))]) (map snd es)) @ [EndFrame])
     @ [NewFrame (concat (map uuid_bytes (map fst es)))]"

interpretation partition_list_codec:
  frame_codec EncodeEntryListUUIDListInteger DecodeEntryListUUIDListInteger partition_list_frames partition_list_ok
proof
  fix es assume v: "partition_list_ok es"
  let ?fr = "\<lambda>ids. [NewFrame (concat (map (\<lambda>v. bo_bytes LittleEndian 4 v) ids))]"
  have ids: "list_all (\<lambda>ids. length ids * 4 < 2 ^ 31) (map snd es)" and keys: "length (map fst es) * 17 < 2 ^ 31"
    using v by (auto simp: partition_list_ok_def list_all_iff)
  have "emits (encode_multi EncodeListInteger (map snd es)) (BeginFrame # concat (map ?fr (map snd es)) @ [EndFrame])"
    by (rule frame_codec.enc_emits [OF list_integer_codec.multi_codec ids])
  from emits_bind [OF this list_uuid_codec.enc_emits [OF keys]]
  show "emits (EncodeEntryListUUIDListInteger es) (partition_list_frames es)"
    by (simp add: EncodeEntryListUUIDListInteger_def [abs_def] partition_list_frames_def encode_multi_def bind_go_assoc)
  have d1: "accepts DecodeListMultiFrameWithListInteger (BeginFrame # concat (map ?fr (map snd es)) @ [EndFrame]) (map snd es)"
    unfolding DecodeListMultiFrameWithListInteger_def
    by (rule frame_codec.dec_accepts [OF list_integer_codec.multi_codec ids])
  have z: "map_go (\<lambda>i. bind_go (go_index (map snd es) (int i)) (\<lambda>v. Inr (map fst es ! i, v))) [0..<length (map fst es)] = Inr es"
  proof -
    have "map_go (\<lambda>i. bind_go (go_index (map snd es) (int i)) (\<lambda>v. Inr (map fst es ! i, v))) [0..<length es] = Inr (map (\<lambda>i. es ! i) [0..<length es])"
      by (rule map_go_Inr) (simp add: go_index_def)
    then show ?thesis by (simp add: map_nth)
  qed
  have d2: "accepts (\<lambda>it. bind_go (DecodeListUUID it) (\<lambda>(keys, it). bind_go (map_go (\<lambda>i. bind_go (go_index (map snd es) (int i)) (\<lambda>v. Inr (keys ! i, v))) [0..<length keys])
      (\<lambda>res. Inr (res, it)))) ([NewFrame (concat (map uuid_bytes (map fst es)))] @ []) es"
    by (rule accepts_bind [OF list_uuid_codec.dec_accepts [OF keys]]) (simp only: z bind_go_simps accepts_Inr)
  show "accepts DecodeEntryListUUIDListInteger (partition_list_frames es) es"
    unfolding DecodeEntryListUUIDListInteger_def partition_list_frames_def
    by (rule accepts_bind [OF d1]) (use d2 in simp)
qed (simp add: partition_list_frames_def)

end
