(* ===== verification/MemberInfo.thy ===== *)
theory MemberInfo
  imports Uuid
begin

text \<open>
  Addresses and member descriptions: \<^verbatim>\<open>cluster/address.go\<close> and \<^verbatim>\<open>cluster/member.go\<close>, with the two functions
  of package \<^verbatim>\<open>net\<close> that join and split a host and a port.
\<close>

unbundle bit_operations_syntax

section \<open>Addresses\<close>

type_synonym address = gostring

text \<open>Bytes 58, 91 and 93 are the colon and the brackets.\<close>

definition JoinHostPort :: "gostring \<Rightarrow> gostring \<Rightarrow> gostring" where
  "JoinHostPort host port =
     (if 58 \<in> set host then [91] @ host @ [93, 58] @ port else host @ [58] @ port)"

primrec index_byte :: "byte \<Rightarrow> gostring \<Rightarrow> nat option" where
  "index_byte c [] = None"
| "index_byte c (b # bs) = (if b = c then Some 0 else map_option Suc (index_byte c bs))"

definition last_index_byte :: "byte \<Rightarrow> gostring \<Rightarrow> nat option" where
  "last_index_byte c s = map_option (\<lambda>i. length s - 1 - i) (index_byte c (rev s))"

definition SplitHostPort :: "gostring \<Rightarrow> (gostring \<times> gostring) option" where
  "SplitHostPort s = (case last_index_byte 58 s of
     None \<Rightarrow> None
   | Some i \<Rightarrow>
       (case (if s ! 0 = 91
              then (case index_byte 93 s of
                      None \<Rightarrow> None
                    | Some e \<Rightarrow> if e + 1 = length s then None
                               else if e + 1 = i then Some (take (e - 1) (drop 1 s), 1, e + 1) else None)
              else (let host = take i s in if 58 \<in> set host then None else Some (host, 0, 0)))
        of None \<Rightarrow> None
         | Some (host, j, k) \<Rightarrow>
             if 91 \<in> set (drop j s) \<or> 93 \<in> set (drop k s) then None else Some (host, drop (i + 1) s)))"

definition NewAddress :: "gostring \<Rightarrow> i32 \<Rightarrow> address" where
  "NewAddress host port = JoinHostPort host (itoa (sint port))"

section \<open>Members\<close>

record member_version =
  mv_Major :: byte
  mv_Minor :: byte
  mv_Patch :: byte

record endpoint_qualifier =
  eq_Identifier :: gostring
  eq_Type :: i32

record member_info =
  mi_Attributes :: "(gostring, gostring) gomap"
  mi_AddressMap :: "(endpoint_qualifier, address) gomap"
  mi_Address :: address
  mi_UUID :: uuid
  mi_Version :: member_version
  mi_LiteMember :: bool

definition publicEndpointQualifier :: endpoint_qualifier where
  "publicEndpointQualifier = \<lparr>eq_Identifier = gostr ''public'', eq_Type = 1\<rparr>"

definition PublicAddress :: "member_info \<Rightarrow> address \<times> bool" where
  "PublicAddress mi = (case map_of (mi_AddressMap mi) publicEndpointQualifier of
     Some a \<Rightarrow> (a, True) | None \<Rightarrow> ([], False))"

definition MajorMinor :: "member_version \<Rightarrow> 16 word" where
  "MajorMinor m = push_bit 8 (ucast (mv_Major m)) OR ucast (mv_Minor m)"

section \<open>Facts\<close>

lemma index_byte_append: "c \<notin> set xs \<Longrightarrow> index_byte c (xs @ c # ys) = Some (length xs)"
  by (induction xs) auto

lemma last_index_byte_append:
  assumes "c \<notin> set ys"
  shows "last_index_byte c (xs @ c # ys) = Some (length xs)"
proof -
  have "rev (xs @ c # ys) = rev ys @ c # rev xs" by simp
  then have "index_byte c (rev (xs @ c # ys)) = Some (length ys)"
    using index_byte_append [of c "rev ys" "rev xs"] assms by simp
  then show ?thesis by (simp add: last_index_byte_def)
qed

text \<open>What is joined is split again, as long as the host has no brackets of its own.\<close>

lemma SplitHostPort_Join:
  assumes "91 \<notin> set host" "93 \<notin> set host" "58 \<notin> set port" "91 \<notin> set port" "93 \<notin> set port"
  shows "SplitHostPort (JoinHostPort host port) = Some (host, port)"
proof (cases "58 \<in> set host")
  case True
  let ?s = "[91] @ host @ [93, 58] @ port"
  have "last_index_byte 58 ?s = Some (length host + 2)"
    using last_index_byte_append [of 58 port "[91] @ host @ [93]"] assms(3) by simp
  moreover have "index_byte 93 ?s = Some (length host + 1)"
    using index_byte_append [of 93 "[91] @ host" "58 # port"] assms(2) by simp
  ultimately show ?thesis
    using True assms by (simp add: SplitHostPort_def JoinHostPort_def)
next
  case False
  have "last_index_byte 58 (host @ [58] @ port) = Some (length host)"
    using last_index_byte_append [of 58 port host] assms(3) by simp
  moreover have "(host @ [58] @ port) ! 0 \<noteq> 91" using assms(1) by (cases host) auto
  ultimately show ?thesis
    using False assms by (simp add: SplitHostPort_def JoinHostPort_def)
qed

lemma itoa_chars: "58 \<notin> set (itoa i)" "91 \<notin> set (itoa i)" "93 \<notin> set (itoa i)"
  using dec_digits_no_sign [of 58] dec_digits_no_sign [of 91] dec_digits_no_sign [of 93] by (auto simp: itoa_def)

lemma SplitHostPort_NewAddress:
  "91 \<notin> set host \<Longrightarrow> 93 \<notin> set host \<Longrightarrow> SplitHostPort (NewAddress host port) = Some (host, itoa (sint port))"
  unfolding NewAddress_def by (rule SplitHostPort_Join) (simp_all add: itoa_chars)

lemma byte_bit_high: "8 \<le> k \<Longrightarrow> \<not> bit (b :: byte) k"
  using bit_imp_le_length [of b k] by auto

lemma MajorMinor_inj:
  "MajorMinor v = MajorMinor w \<longleftrightarrow> mv_Major v = mv_Major w \<and> mv_Minor v = mv_Minor w"
proof -
  have major: "mv_Major v = ucast (drop_bit 8 (MajorMinor v))" and minor: "mv_Minor v = ucast (MajorMinor v)" for v :: member_version
    by (auto intro!: bit_word_eqI simp: MajorMinor_def bit_simps byte_bit_high)
  show ?thesis
  proof
    assume "MajorMinor v = MajorMinor w"
    then show "mv_Major v = mv_Major w \<and> mv_Minor v = mv_Minor w" using major [of v] major [of w] minor [of v] minor [of w] by simp
  qed (simp add: MajorMinor_def)
qed

end
