(* ===== verification/CustomCodec.thy ===== *)
theory CustomCodec
  imports FrameCodec MemberInfo
begin

text \<open>
  Structures of several frames: the codecs for addresses, endpoint qualifiers, member versions and
  member infos, stack trace elements and error holders, bitmap index options, index configurations,
  entry views, raft group ids and object infos (\<^verbatim>\<open>internal/proto/codec/*_codec.go\<close> and \<^verbatim>\<open>builtin.go\<close>).
  Each writes a begin frame, an initial frame with its fixed-size fields, its other fields and an
  end frame; decoding skips what follows the fields it knows up to the end frame.
\<close>

section \<open>The common shape\<close>

definition encode_struct :: "byte list go \<Rightarrow> encoder list \<Rightarrow> encoder" where
  "encode_struct initial flds m =
     bind_go initial
       (\<lambda>c. bind_go (for_each (\<lambda>enc. enc) flds (AddFrame (NewFrame c) (AddFrame BeginFrame m)))
       (\<lambda>m. Inr (AddFrame EndFrame m)))"

definition decode_struct :: "(byte list \<Rightarrow> 'a go) \<Rightarrow> ('a \<Rightarrow> 'b decoder) \<Rightarrow> 'b decoder" where
  "decode_struct initial flds it = bind_go (it_Next it)
     (\<lambda>(_, it). bind_go (it_Next it)
     (\<lambda>(f, it). bind_go (initial (fr_Content f))
     (\<lambda>x. bind_go (flds x it)
     (\<lambda>(v, it). bind_go (FastForwardToEndFrame it) (\<lambda>it. Inr (v, it))))))"

section \<open>Addresses, versions and members\<close>

definition EncodeAddress :: "address \<Rightarrow> encoder" where
  "EncodeAddress a m = (case SplitHostPort a of
     None \<Rightarrow> Inl (PanicMessage ''parsing address'')
   | Some (host, portStr) \<Rightarrow>
       (case atoi portStr of
          None \<Rightarrow> Inl (PanicMessage ''parsing address'')
        | Some port \<Rightarrow> encode_struct (EncodeInt (replicate 4 0) 0 (word_of_int port)) [EncodeString host] m))"

definition DecodeAddress :: "address decoder" where
  "DecodeAddress = decode_struct (\<lambda>c. DecodeInt c 0)
     (\<lambda>port it. bind_go (DecodeString it) (\<lambda>(host, it). Inr (NewAddress host port, it)))"

definition EncodeEndpointQualifier :: "endpoint_qualifier \<Rightarrow> encoder" where
  "EncodeEndpointQualifier q =
     encode_struct (EncodeInt (replicate 4 0) 0 (eq_Type q)) [EncodeNullableForString (eq_Identifier q)]"

definition NewEndpointQualifier :: "i32 \<Rightarrow> gostring \<Rightarrow> endpoint_qualifier" where
  "NewEndpointQualifier qualifierType identifier = \<lparr>eq_Identifier = identifier, eq_Type = qualifierType\<rparr>"

definition DecodeEndpointQualifier :: "endpoint_qualifier decoder" where
  "DecodeEndpointQualifier = decode_struct (\<lambda>c. DecodeInt c 0)
     (\<lambda>t it. bind_go (DecodeNullableForString it) (\<lambda>(identifier, it). Inr (NewEndpointQualifier t identifier, it)))"

definition EncodeMemberVersion :: "member_version \<Rightarrow> encoder" where
  "EncodeMemberVersion v =
     encode_struct
       (bind_go (EncodeByte (replicate 3 0) 0 (mv_Major v))
         (\<lambda>c. bind_go (EncodeByte c 1 (mv_Minor v)) (\<lambda>c. EncodeByte c 2 (mv_Patch v)))) []"

definition DecodeMemberVersion :: "member_version decoder" where
  "DecodeMemberVersion = decode_struct
     (\<lambda>c. bind_go (DecodeByte c 0) (\<lambda>major. bind_go (DecodeByte c 1) (\<lambda>minor. bind_go (DecodeByte c 2)
        (\<lambda>patch. Inr \<lparr>mv_Major = major, mv_Minor = minor, mv_Patch = patch\<rparr>))))
     (\<lambda>v it. Inr (v, it))"

definition EncodeMapForEndpointQualifierAndAddress :: "(endpoint_qualifier, address) gomap \<Rightarrow> encoder" where
  "EncodeMapForEndpointQualifierAndAddress = encode_multi (encode_pair EncodeEndpointQualifier EncodeAddress)"

definition DecodeMapForEndpointQualifierAndAddress :: "(endpoint_qualifier, address) gomap decoder" where
  "DecodeMapForEndpointQualifierAndAddress = decode_map DecodeEndpointQualifier DecodeAddress"

definition NewMemberInfo ::
  "address \<Rightarrow> uuid \<Rightarrow> (gostring, gostring) gomap \<Rightarrow> bool \<Rightarrow> member_version
     \<Rightarrow> (endpoint_qualifier, address) gomap option \<Rightarrow> member_info" where
  "NewMemberInfo a u attributes liteMember version addressMap =
     \<lparr>mi_Attributes = attributes, mi_AddressMap = (case addressMap of None \<Rightarrow> [] | Some m \<Rightarrow> m),
      mi_Address = a, mi_UUID = u, mi_Version = version, mi_LiteMember = liteMember\<rparr>"

definition EncodeMemberInfo :: "member_info \<Rightarrow> encoder" where
  "EncodeMemberInfo mi =
     encode_struct
       (bind_go (EncodeUUID (replicate 18 0) 0 (mi_UUID mi)) (\<lambda>c. EncodeBoolean c 17 (mi_LiteMember mi)))
       [EncodeAddress (mi_Address mi), EncodeMapForStringAndString (mi_Attributes mi),
        EncodeMemberVersion (mi_Version mi), EncodeMapForEndpointQualifierAndAddress (mi_AddressMap mi)]"

definition DecodeMemberInfo :: "member_info decoder" where
  "DecodeMemberInfo = decode_struct
     (\<lambda>c. bind_go (DecodeUUID c 0) (\<lambda>u. bind_go (DecodeBoolean c 17) (\<lambda>lite. Inr (u, lite))))
     (\<lambda>(u, lite) it. bind_go (DecodeAddress it)
        (\<lambda>(a, it). bind_go (DecodeMapForStringAndString it)
        (\<lambda>(attributes, it). bind_go (DecodeMemberVersion it)
        (\<lambda>(version, it). bind_go (NextFrameIsDataStructureEndFrame it)
        (\<lambda>e. if e then Inr (NewMemberInfo a u attributes lite version None, it)
             else bind_go (DecodeMapForEndpointQualifierAndAddress it)
                    (\<lambda>(am, it). Inr (NewMemberInfo a u attributes lite version (Some am), it)))))))"

definition DecodeListMultiFrameForMemberInfo :: "member_info list decoder" where
  "DecodeListMultiFrameForMemberInfo = DecodeListMultiFrame DecodeMemberInfo"

definition DecodeNullableForAddress :: "address option decoder" where
  "DecodeNullableForAddress it = bind_go (NextFrameIsNullFrame it)
     (\<lambda>(null, it). if null then Inr (None, it) else bind_go (DecodeAddress it) (\<lambda>(a, it). Inr (Some a, it)))"

section \<open>Server errors\<close>

definition EncodeStackTraceElement :: "stack_trace_element \<Rightarrow> encoder" where
  "EncodeStackTraceElement e =
     encode_struct (EncodeInt (replicate 4 0) 0 (ste_LineNumber e))
       [EncodeString (ste_ClassName e), EncodeString (ste_MethodName e), EncodeNullableForString (ste_FileName e)]"

definition DecodeStackTraceElement :: "stack_trace_element decoder" where
  "DecodeStackTraceElement = decode_struct (\<lambda>c. DecodeInt c 0)
     (\<lambda>lineNumber it. bind_go (DecodeString it)
        (\<lambda>(className, it). bind_go (DecodeString it)
        (\<lambda>(methodName, it). bind_go (DecodeNullableForString it)
        (\<lambda>(fileName, it). Inr (\<lparr>ste_ClassName = className, ste_MethodName = methodName, ste_FileName = fileName,
                                ste_LineNumber = lineNumber\<rparr>, it)))))"

definition EncodeListMultiFrameForStackTraceElement :: "stack_trace_element list \<Rightarrow> encoder" where
  "EncodeListMultiFrameForStackTraceElement = encode_multi EncodeStackTraceElement"

definition DecodeListMultiFrameForStackTraceElement :: "stack_trace_element list decoder" where
  "DecodeListMultiFrameForStackTraceElement = DecodeListMultiFrame DecodeStackTraceElement"

definition EncodeErrorHolder :: "error_holder \<Rightarrow> encoder" where
  "EncodeErrorHolder h =
     encode_struct (EncodeInt (replicate 4 0) 0 (eh_ErrorCode h))
       [EncodeString (eh_ClassName h), EncodeNullableForString (eh_Message h),
        EncodeListMultiFrameForStackTraceElement (eh_StackTraceElements h)]"

definition DecodeErrorHolder :: "error_holder decoder" where
  "DecodeErrorHolder = decode_struct (\<lambda>c. DecodeInt c 0)
     (\<lambda>errorCode it. bind_go (DecodeString it)
        (\<lambda>(className, it). bind_go (DecodeNullableForString it)
        (\<lambda>(message, it). bind_go (DecodeListMultiFrameForStackTraceElement it)
        (\<lambda>(elements, it). Inr (NewErrorHolder errorCode className message elements, it)))))"

text \<open>The error of an exception message; no holders give no error.\<close>

definition DecodeError :: "client_message \<Rightarrow> error_holder list option go" where
  "DecodeError msg = bind_go (it_Next (FrameIterator msg))
     (\<lambda>(_, it). bind_go (DecodeListMultiFrame DecodeErrorHolder it)
     (\<lambda>(holders, _). Inr (if length holders = 0 then None else Some holders)))"

section \<open>Indexes, entry views and object infos\<close>

record bitmap_index_options =
  bio_UniqueKey :: gostring
  bio_UniqueKeyTransformation :: i32

record index_config =
  ic_Name :: gostring
  ic_Attributes :: "gostring list"
  ic_BitmapIndexOptions :: bitmap_index_options
  ic_Type :: i32

definition EncodeBitmapIndexOptions :: "bitmap_index_options \<Rightarrow> encoder" where
  "EncodeBitmapIndexOptions b =
     encode_struct (EncodeInt (replicate 4 0) 0 (bio_UniqueKeyTransformation b)) [EncodeString (bio_UniqueKey b)]"

definition DecodeBitmapIndexOptions :: "bitmap_index_options decoder" where
  "DecodeBitmapIndexOptions = decode_struct (\<lambda>c. DecodeInt c 0)
     (\<lambda>t it. bind_go (DecodeString it)
        (\<lambda>(key, it). Inr (\<lparr>bio_UniqueKey = key, bio_UniqueKeyTransformation = t\<rparr>, it)))"

definition EncodeNullableForBitmapIndexOptions :: "bitmap_index_options option \<Rightarrow> encoder" where
  "EncodeNullableForBitmapIndexOptions options m = (case options of
     None \<Rightarrow> Inr (AddFrame NullFrame m) | Some b \<Rightarrow> EncodeBitmapIndexOptions b m)"

definition DecodeNullableForBitmapIndexOptions :: "bitmap_index_options decoder" where
  "DecodeNullableForBitmapIndexOptions it = bind_go (NextFrameIsNullFrame it)
     (\<lambda>(null, it). if null then Inr (\<lparr>bio_UniqueKey = [], bio_UniqueKeyTransformation = 0\<rparr>, it)
        else DecodeBitmapIndexOptions it)"

definition EncodeIndexConfig :: "index_config \<Rightarrow> encoder" where
  "EncodeIndexConfig c =
     encode_struct (EncodeInt (replicate 4 0) 0 (ic_Type c))
       [EncodeNullableForString (ic_Name c), EncodeListMultiFrameForString (ic_Attributes c),
        EncodeNullableForBitmapIndexOptions (Some (ic_BitmapIndexOptions c))]"

definition DecodeIndexConfig :: "index_config decoder" where
  "DecodeIndexConfig = decode_struct (\<lambda>c. DecodeInt c 0)
     (\<lambda>t it. bind_go (DecodeNullableForString it)
        (\<lambda>(name, it). bind_go (DecodeListMultiFrameForString it)
        (\<lambda>(attributes, it). bind_go (DecodeNullableForBitmapIndexOptions it)
        (\<lambda>(options, it). Inr (\<lparr>ic_Name = name, ic_Attributes = attributes, ic_BitmapIndexOptions = options,
                               ic_Type = t\<rparr>, it)))))"

record raft_group_id =
  rg_Name :: gostring
  rg_Id :: i64
  rg_Seed :: i64

definition EncodeRaftGroupId :: "raft_group_id \<Rightarrow> encoder" where
  "EncodeRaftGroupId g =
     encode_struct (bind_go (EncodeLong (replicate 16 0) 0 (rg_Seed g)) (\<lambda>c. EncodeLong c 8 (rg_Id g)))
       [EncodeString (rg_Name g)]"

definition DecodeRaftGroupId :: "raft_group_id decoder" where
  "DecodeRaftGroupId = decode_struct
     (\<lambda>c. bind_go (DecodeLong c 0) (\<lambda>seed. bind_go (DecodeLong c 8) (\<lambda>i. Inr (seed, i))))
     (\<lambda>(seed, i) it. bind_go (DecodeString it)
        (\<lambda>(name, it). Inr (\<lparr>rg_Name = name, rg_Id = i, rg_Seed = seed\<rparr>, it)))"

text \<open>\<open>DistributedObjectInfo\<close> has no initial frame.\<close>

record distributed_object_info =
  doi_Name :: gostring
  doi_ServiceName :: gostring

definition DecodeDistributedObjectInfo :: "distributed_object_info decoder" where
  "DecodeDistributedObjectInfo it = bind_go (it_Next it)
     (\<lambda>(_, it). bind_go (DecodeString it)
     (\<lambda>(serviceName, it). bind_go (DecodeString it)
     (\<lambda>(name, it). bind_go (FastForwardToEndFrame it)
     (\<lambda>it. Inr (\<lparr>doi_Name = name, doi_ServiceName = serviceName\<rparr>, it)))))"

definition DecodeListMultiFrameForDistributedObjectInfo :: "distributed_object_info list decoder" where
  "DecodeListMultiFrameForDistributedObjectInfo = DecodeListMultiFrame DecodeDistributedObjectInfo"

record simple_entry_view =
  ev_Key :: data
  ev_Value :: data
  ev_fields :: "i64 list"

text \<open>
  The ten 64-bit fields of an entry view, in the order of their offsets: cost, creation time,
  expiration time, hits, last access, last stored and last update time, version, TTL, max idle.
\<close>

definition EncodeSimpleEntryView :: "simple_entry_view \<Rightarrow> encoder" where
  "EncodeSimpleEntryView v =
     encode_struct
       (for_each (\<lambda>(i, x) c. EncodeLong c (word_of_nat (i * 8)) x) (enumerate 0 (ev_fields v)) (replicate 80 0))
       [EncodeData (ev_Key v), EncodeData (ev_Value v)]"

definition DecodeSimpleEntryView :: "simple_entry_view decoder" where
  "DecodeSimpleEntryView = decode_struct
     (\<lambda>c. map_go (\<lambda>i. DecodeLong c (word_of_nat (i * 8))) [0..<10])
     (\<lambda>xs it. bind_go (DecodeData it)
        (\<lambda>(k, it). bind_go (DecodeData it)
        (\<lambda>(v, it). Inr (\<lparr>ev_Key = k, ev_Value = v, ev_fields = xs\<rparr>, it))))"

section \<open>Facts\<close>

lemma encode_struct_emits:
  assumes "initial = Inr c" "list_all2 emits encs fss"
  shows "emits (encode_struct initial encs) (BeginFrame # NewFrame c # concat fss @ [EndFrame])"
proof -
  have "for_each (\<lambda>enc. enc) encs m = Inr (m\<lparr>cm_Frames := cm_Frames m @ concat fss\<rparr>)" for m
    using assms(2) by (induction encs fss arbitrary: m rule: list_all2_induct) (simp_all add: emits_def)
  then show ?thesis by (simp add: emits_def encode_struct_def assms(1) AddFrame_def)
qed

text \<open>Decoding a structure to whose fields further ones have been added.\<close>

lemma decode_struct_extra:
  assumes "initial c = Inr x" "accepts (flds x) fs v"
    and "it_rest it = b # i # fs' @ extra @ e # rest" "fr_Content i = c" "list_all2 similar fs' fs" "balanced extra" "IsEndFrame e"
  shows "decode_struct initial flds it = Inr (v, skip (length fs + length extra + 3) it)"
proof -
  have r2: "it_rest (skip 1 it) = i # fs' @ extra @ e # rest" using it_rest_skip [of it "[b]"] assms(3) by simp
  have r3: "it_rest (skip 2 it) = fs' @ extra @ e # rest" using it_rest_skip [of "skip 1 it" "[i]"] r2 by (simp add: numeral_2_eq_2)
  have l: "length fs' = length fs" using assms(5) by (rule list_all2_lengthD)
  let ?i = "skip (2 + length fs) it"
  have r4: "it_rest ?i = extra @ e # rest" using it_rest_skip [OF r3] l by simp
  have "FastForwardToEndFrame ?i = FastForwardToEndFrame (skip (length extra) ?i)"
    unfolding FastForwardToEndFrame_def using assms(6) r4 by (rule fast_forward_balanced) simp
  also have "\<dots> = Inr (skip 1 (skip (length extra) ?i))"
    using it_rest_skip [OF r4] assms(7) by (intro fast_forward_end)
  finally have "FastForwardToEndFrame ?i = Inr (skip (length fs + length extra + 3) it)" by (simp add: ac_simps)
  moreover have "flds x (skip 2 it) = Inr (v, ?i)" using accepts_D [OF assms(2,5) r3] by simp
  moreover have "skip 1 (skip 1 it) = skip 2 it" by (simp add: numeral_2_eq_2)
  ultimately show ?thesis
    using it_rest_Cons(1) [OF assms(3)] it_rest_Cons(1) [OF r2] assms(1,4)
    by (simp add: decode_struct_def numeral_2_eq_2)
qed

lemma decode_struct_accepts:
  assumes "initial c = Inr x" "accepts (flds x) fs v"
  shows "accepts (decode_struct initial flds) (BeginFrame # NewFrame c # fs @ [EndFrame]) v"
  unfolding accepts_def
proof (intro allI impI)
  fix it hs rest assume s: "list_all2 similar hs (BeginFrame # NewFrame c # fs @ [EndFrame])" and r: "it_rest it = hs @ rest"
  from s obtain b i fs' e where h: "hs = b # i # fs' @ [e]" "similar i (NewFrame c)" "list_all2 similar fs' fs" "similar e EndFrame"
    by (auto simp: list_all2_Cons2 list_all2_append2)
  have "it_rest it = b # i # fs' @ [] @ e # rest" using r h(1) by simp
  then have "decode_struct initial flds it = Inr (v, skip (length fs + length ([] :: frame list) + 3) it)"
    using assms h by (intro decode_struct_extra [where flds = flds and fs' = fs' and x = x]) (auto simp: similar_def balanced_Nil)
  then show "decode_struct initial flds it = Inr (v, skip (length (BeginFrame # NewFrame c # fs @ [EndFrame])) it)"
    by (simp add: numeral_3_eq_3)
qed

lemma int_initial: "EncodeInt (replicate 4 0) 0 v = Inr (bo_bytes LittleEndian 4 v)" "DecodeInt (bo_bytes LittleEndian 4 v) 0 = Inr v"
  using int_fixed.enc_bytes [of "[]" "[]" v] int_fixed.dec_bytes [of "[]" v "[]"] by simp_all

lemma int_struct_accepts:
  "accepts (flds n) fs v \<Longrightarrow>
   accepts (decode_struct (\<lambda>c. DecodeInt c 0) flds) (BeginFrame # NewFrame (bo_bytes LittleEndian 4 n) # fs @ [EndFrame]) v"
  by (rule decode_struct_accepts [where x = n]) (simp_all add: int_initial)

lemma int_struct_emits:
  "list_all2 emits encs fss \<Longrightarrow>
   emits (encode_struct (EncodeInt (replicate 4 0) 0 n) encs)
     (BeginFrame # NewFrame (bo_bytes LittleEndian 4 n) # concat fss @ [EndFrame])"
  by (rule encode_struct_emits [OF int_initial(1)])

lemma accepts_mapI:
  "accepts d fs v \<Longrightarrow> w = f v \<Longrightarrow> accepts (\<lambda>it. bind_go (d it) (\<lambda>(x, it). Inr (f x, it))) fs w"
  using accepts_map by simp

lemmas accepts_string = string_codec.dec_accepts [OF TrueI]

text \<open>An address made of a host without brackets and a port.\<close>

definition address_ok :: "address \<Rightarrow> bool" where
  "address_ok a \<longleftrightarrow> (case SplitHostPort a of
     None \<Rightarrow> False
   | Some (host, p) \<Rightarrow> 91 \<notin> set host \<and> 93 \<notin> set host
       \<and> (case atoi p of None \<Rightarrow> False | Some n \<Rightarrow> - (2 ^ 31) \<le> n \<and> n < 2 ^ 31 \<and> a = NewAddress host (word_of_int n)))"

definition address_frames :: "address \<Rightarrow> frame list" where
  "address_frames a = (let (host, p) = the (SplitHostPort a)
     in BeginFrame # NewFrame (bo_bytes LittleEndian 4 (word_of_int (the (atoi p)) :: i32)) # [NewFrame host] @ [EndFrame])"

lemma address_ok_NewAddress:
  assumes "91 \<notin> set host" "93 \<notin> set host"
  shows "address_ok (NewAddress host port)"
proof -
  have "atoi (itoa (sint port)) = Some (sint port)"
    using sint32_bounds [of port] by (intro atoi_itoa) simp_all
  with assms sint32_bounds [of port] show ?thesis by (simp add: address_ok_def SplitHostPort_NewAddress)
qed

interpretation address_codec: frame_codec EncodeAddress DecodeAddress address_frames address_ok
proof
  fix a assume "address_ok a"
  then obtain host p n where a: "SplitHostPort a = Some (host, p)" "atoi p = Some n" "a = NewAddress host (word_of_int n)"
    by (auto simp: address_ok_def split: option.splits)
  let ?i = "bo_bytes LittleEndian 4 (word_of_int n :: i32)"
  have fr: "address_frames a = BeginFrame # NewFrame ?i # concat [[NewFrame host]] @ [EndFrame]"
    by (simp add: address_frames_def a(1,2))
  have "EncodeAddress a = encode_struct (EncodeInt (replicate 4 0) 0 (word_of_int n)) [EncodeString host]"
    by (intro ext) (simp add: EncodeAddress_def a(1,2))
  then show "emits (EncodeAddress a) (address_frames a)"
    using int_struct_emits [of "[EncodeString host]" "[[NewFrame host]]"] string_codec.enc_emits
    by (simp only: fr) simp
  show "accepts DecodeAddress (address_frames a) a"
    unfolding DecodeAddress_def fr
    using accepts_map [OF string_codec.dec_accepts [OF TrueI, of host], of "\<lambda>h. NewAddress h (word_of_int n)"] a(3)
    by (intro int_struct_accepts) simp
  show "address_frames a \<noteq> [] \<and> \<not> IsEndFrame (hd (address_frames a))" by (simp add: fr)
qed

definition qualifier_frames :: "endpoint_qualifier \<Rightarrow> frame list" where
  "qualifier_frames q = BeginFrame # NewFrame (bo_bytes LittleEndian 4 (eq_Type q)) # [string_frame (eq_Identifier q)] @ [EndFrame]"

interpretation qualifier_codec: frame_codec EncodeEndpointQualifier DecodeEndpointQualifier qualifier_frames
    "\<lambda>q. is_blank (eq_Identifier q) \<longrightarrow> eq_Identifier q = []"
proof
  fix q :: endpoint_qualifier assume v: "is_blank (eq_Identifier q) \<longrightarrow> eq_Identifier q = []"
  show "emits (EncodeEndpointQualifier q) (qualifier_frames q)"
    using int_struct_emits [of "[EncodeNullableForString (eq_Identifier q)]" "[[string_frame (eq_Identifier q)]]"]
      nullable_string_codec.enc_emits [OF v]
    by (simp add: EncodeEndpointQualifier_def qualifier_frames_def)
  show "accepts DecodeEndpointQualifier (qualifier_frames q) q"
    unfolding DecodeEndpointQualifier_def qualifier_frames_def
    using accepts_map [OF DecodeNullableForString_accepts [of "eq_Identifier q"], of "NewEndpointQualifier (eq_Type q)"]
    by (intro int_struct_accepts) (cases q, simp add: NewEndpointQualifier_def)
qed (simp add: qualifier_frames_def)

definition version_frames :: "member_version \<Rightarrow> frame list" where
  "version_frames v = BeginFrame # NewFrame [mv_Major v, mv_Minor v, mv_Patch v] # [] @ [EndFrame]"

interpretation version_codec: frame_codec EncodeMemberVersion DecodeMemberVersion version_frames "\<lambda>_. True"
proof
  fix v :: member_version
  have i: "bind_go (EncodeByte (replicate 3 0) 0 (mv_Major v)) (\<lambda>c. bind_go (EncodeByte c 1 (mv_Minor v)) (\<lambda>c. EncodeByte c 2 (mv_Patch v)))
      = Inr [mv_Major v, mv_Minor v, mv_Patch v]"
    by (simp add: EncodeByte_def go_update_def numeral_3_eq_3)
  show "emits (EncodeMemberVersion v) (version_frames v)"
    using encode_struct_emits [OF i, of "[]" "[]"] by (simp add: EncodeMemberVersion_def version_frames_def)
  show "accepts DecodeMemberVersion (version_frames v) v"
    unfolding DecodeMemberVersion_def version_frames_def
    by (rule decode_struct_accepts [where x = v]) (simp_all add: DecodeByte_def go_index_def accepts_Inr)
qed (simp add: version_frames_def)

definition ste_frames :: "stack_trace_element \<Rightarrow> frame list" where
  "ste_frames e = BeginFrame # NewFrame (bo_bytes LittleEndian 4 (ste_LineNumber e)) #
     ([NewFrame (ste_ClassName e)] @ [NewFrame (ste_MethodName e)] @ [string_frame (ste_FileName e)]) @ [EndFrame]"

interpretation ste_codec: frame_codec EncodeStackTraceElement DecodeStackTraceElement ste_frames
    "\<lambda>e. is_blank (ste_FileName e) \<longrightarrow> ste_FileName e = []"
proof
  fix e :: stack_trace_element assume v: "is_blank (ste_FileName e) \<longrightarrow> ste_FileName e = []"
  show "emits (EncodeStackTraceElement e) (ste_frames e)"
    using int_struct_emits [of "[EncodeString (ste_ClassName e), EncodeString (ste_MethodName e), EncodeNullableForString (ste_FileName e)]"
        "[[NewFrame (ste_ClassName e)], [NewFrame (ste_MethodName e)], [string_frame (ste_FileName e)]]" "ste_LineNumber e"]
      nullable_string_codec.enc_emits [OF v] string_codec.enc_emits
    by (simp add: EncodeStackTraceElement_def ste_frames_def)
  show "accepts DecodeStackTraceElement (ste_frames e) e"
    unfolding DecodeStackTraceElement_def ste_frames_def
    by (rule int_struct_accepts, rule accepts_bind [OF accepts_string], rule accepts_bind [OF accepts_string],
        rule accepts_mapI [OF DecodeNullableForString_accepts]) simp
qed (simp add: ste_frames_def)

interpretation ste_list_codec: frame_codec EncodeListMultiFrameForStackTraceElement DecodeListMultiFrameForStackTraceElement
    "\<lambda>xs. BeginFrame # concat (map ste_frames xs) @ [EndFrame]"
    "list_all (\<lambda>e. is_blank (ste_FileName e) \<longrightarrow> ste_FileName e = [])"
  unfolding EncodeListMultiFrameForStackTraceElement_def DecodeListMultiFrameForStackTraceElement_def
  by (rule ste_codec.multi_codec)

definition holder_frames :: "error_holder \<Rightarrow> frame list" where
  "holder_frames h = BeginFrame # NewFrame (bo_bytes LittleEndian 4 (eh_ErrorCode h)) #
     ([NewFrame (eh_ClassName h)] @ [string_frame (eh_Message h)]
      @ (BeginFrame # concat (map ste_frames (eh_StackTraceElements h)) @ [EndFrame])) @ [EndFrame]"

definition holder_ok :: "error_holder \<Rightarrow> bool" where
  "holder_ok h \<longleftrightarrow> (is_blank (eh_Message h) \<longrightarrow> eh_Message h = [])
     \<and> list_all (\<lambda>e. is_blank (ste_FileName e) \<longrightarrow> ste_FileName e = []) (eh_StackTraceElements h)"

interpretation holder_codec: frame_codec EncodeErrorHolder DecodeErrorHolder holder_frames holder_ok
proof
  fix h :: error_holder assume v: "holder_ok h"
  then have m: "is_blank (eh_Message h) \<longrightarrow> eh_Message h = []"
    and t: "list_all (\<lambda>e. is_blank (ste_FileName e) \<longrightarrow> ste_FileName e = []) (eh_StackTraceElements h)"
    unfolding holder_ok_def by blast+
  show "emits (EncodeErrorHolder h) (holder_frames h)"
    using int_struct_emits [of "[EncodeString (eh_ClassName h), EncodeNullableForString (eh_Message h),
          EncodeListMultiFrameForStackTraceElement (eh_StackTraceElements h)]"
        "[[NewFrame (eh_ClassName h)], [string_frame (eh_Message h)],
          BeginFrame # concat (map ste_frames (eh_StackTraceElements h)) @ [EndFrame]]" "eh_ErrorCode h"]
      nullable_string_codec.enc_emits [OF m] string_codec.enc_emits ste_list_codec.enc_emits [OF t]
    by (simp add: EncodeErrorHolder_def holder_frames_def)
  show "accepts DecodeErrorHolder (holder_frames h) h"
    unfolding DecodeErrorHolder_def holder_frames_def
    by (rule int_struct_accepts, rule accepts_bind [OF accepts_string], rule accepts_bind [OF DecodeNullableForString_accepts],
        rule accepts_mapI [OF ste_list_codec.dec_accepts [OF t]]) (simp add: NewErrorHolder_def)
qed (simp add: holder_frames_def)

text \<open>
  The client recovers from an exception message the error holders, with their codes, class names,
  messages and stack traces, that the sender encoded; a list without holders gives no error.
\<close>

theorem DecodeError_roundtrip:
  assumes "list_all holder_ok hs"
  shows "\<exists>m. encode_multi EncodeErrorHolder hs (NewClientMessage header) = Inr m
     \<and> DecodeError (m\<lparr>cm_Frames := final_last (cm_Frames m)\<rparr>) = Inr (if hs = [] then None else Some hs)"
proof -
  let ?fs = "BeginFrame # concat (map holder_frames hs) @ [EndFrame]"
  let ?m = "NewClientMessageForEncode\<lparr>cm_Frames := header # ?fs\<rparr>"
  let ?m' = "?m\<lparr>cm_Frames := final_last (cm_Frames ?m)\<rparr>"
  note hc = holder_codec.multi_codec
  have "encode_multi EncodeErrorHolder hs (NewClientMessage header) = Inr ?m"
    using frame_codec.enc_emits [OF hc assms] by (simp add: emits_def NewClientMessage_def AddFrame_def NewClientMessageForEncode_def)
  moreover have r: "it_rest (FrameIterator ?m') = header # final_last ?fs"
    by (simp add: it_rest_def FrameIterator_def)
  have r1: "it_rest (skip 1 (FrameIterator ?m')) = final_last ?fs @ []"
    using it_rest_skip [of "FrameIterator ?m'" "[header]"] r by simp
  have "DecodeListMultiFrame DecodeErrorHolder (skip 1 (FrameIterator ?m')) = Inr (hs, skip (length ?fs) (skip 1 (FrameIterator ?m')))"
    using accepts_D [OF frame_codec.dec_accepts [OF hc assms] similar_final_last r1] .
  then have "DecodeError ?m' = Inr (if hs = [] then None else Some hs)"
    using it_rest_Cons(1) [OF r] by (simp add: DecodeError_def)
  ultimately show ?thesis by blast
qed

theorem DecodeError_roundtrip_witness:
  "\<exists>m. encode_multi EncodeErrorHolder [NewErrorHolder 49 [106] [] []] (NewClientMessage (NewFrame [])) = Inr m
     \<and> DecodeError (m\<lparr>cm_Frames := final_last (cm_Frames m)\<rparr>) = Inr (Some [NewErrorHolder 49 [106] [] []])"
  using DecodeError_roundtrip [of "[NewErrorHolder 49 [106] [] []]" "NewFrame []"]
  by (simp add: holder_ok_def NewErrorHolder_def)

section \<open>Indexes, groups and entry views\<close>

definition bitmap_frames :: "bitmap_index_options \<Rightarrow> frame list" where
  "bitmap_frames b = BeginFrame # NewFrame (bo_bytes LittleEndian 4 (bio_UniqueKeyTransformation b)) #
     [NewFrame (bio_UniqueKey b)] @ [EndFrame]"

interpretation bitmap_codec: frame_codec EncodeBitmapIndexOptions DecodeBitmapIndexOptions bitmap_frames "\<lambda>_. True"
proof
  fix b :: bitmap_index_options
  show "emits (EncodeBitmapIndexOptions b) (bitmap_frames b)"
    using int_struct_emits [of "[EncodeString (bio_UniqueKey b)]" "[[NewFrame (bio_UniqueKey b)]]"] string_codec.enc_emits
    by (simp add: EncodeBitmapIndexOptions_def bitmap_frames_def)
  show "accepts DecodeBitmapIndexOptions (bitmap_frames b) b"
    unfolding DecodeBitmapIndexOptions_def bitmap_frames_def
    by (rule int_struct_accepts, rule accepts_mapI [OF accepts_string]) simp
qed (simp add: bitmap_frames_def)

definition index_frames :: "index_config \<Rightarrow> frame list" where
  "index_frames c = BeginFrame # NewFrame (bo_bytes LittleEndian 4 (ic_Type c)) #
     ([string_frame (ic_Name c)] @ (BeginFrame # concat (map (\<lambda>v. [NewFrame v]) (ic_Attributes c)) @ [EndFrame])
      @ bitmap_frames (ic_BitmapIndexOptions c)) @ [EndFrame]"

interpretation index_codec: frame_codec EncodeIndexConfig DecodeIndexConfig index_frames
    "\<lambda>c. is_blank (ic_Name c) \<longrightarrow> ic_Name c = []"
proof
  fix c :: index_config assume v: "is_blank (ic_Name c) \<longrightarrow> ic_Name c = []"
  let ?as = "BeginFrame # concat (map (\<lambda>v. [NewFrame v]) (ic_Attributes c)) @ [EndFrame]"
  have t: "list_all (\<lambda>_. True) (ic_Attributes c)" by (simp add: list_all_iff)
  have "emits (EncodeNullableForBitmapIndexOptions (Some b)) (bitmap_frames b)" for b
    using bitmap_codec.enc_emits [OF TrueI, of b] by (simp add: emits_def EncodeNullableForBitmapIndexOptions_def)
  then show "emits (EncodeIndexConfig c) (index_frames c)"
    using int_struct_emits [of "[EncodeNullableForString (ic_Name c), EncodeListMultiFrameForString (ic_Attributes c),
          EncodeNullableForBitmapIndexOptions (Some (ic_BitmapIndexOptions c))]"
        "[[string_frame (ic_Name c)], ?as, bitmap_frames (ic_BitmapIndexOptions c)]" "ic_Type c"]
      nullable_string_codec.enc_emits [OF v] string_list_codec.enc_emits [OF t]
    by (simp add: EncodeIndexConfig_def index_frames_def)
  have b: "accepts DecodeNullableForBitmapIndexOptions (bitmap_frames b) b" for b
    unfolding DecodeNullableForBitmapIndexOptions_def
    by (rule nullable_accepts [OF bitmap_codec.dec_accepts [OF TrueI]]) (simp_all add: bitmap_frames_def)
  show "accepts DecodeIndexConfig (index_frames c) c"
    unfolding DecodeIndexConfig_def index_frames_def
    by (rule int_struct_accepts, rule accepts_bind [OF DecodeNullableForString_accepts],
        rule accepts_bind [OF string_list_codec.dec_accepts [OF t]], rule accepts_mapI [OF b]) simp
qed (simp add: index_frames_def)

definition raft_frames :: "raft_group_id \<Rightarrow> frame list" where
  "raft_frames g = BeginFrame # NewFrame (bo_bytes LittleEndian 8 (rg_Seed g) @ bo_bytes LittleEndian 8 (rg_Id g)) #
     [NewFrame (rg_Name g)] @ [EndFrame]"

interpretation raft_initial: fixed_codec "encode_entry EncodeLong 8 EncodeLong" "decode_entry DecodeLong 8 DecodeLong"
    16 "\<lambda>(a, b). bo_bytes LittleEndian 8 a @ bo_bytes LittleEndian 8 b"
  using encode_entry_fixed [OF long_fixed.fixed_codec_axioms long_fixed.fixed_codec_axioms] by simp

interpretation raft_codec: frame_codec EncodeRaftGroupId DecodeRaftGroupId raft_frames "\<lambda>_. True"
proof
  fix g :: raft_group_id
  let ?i = "bo_bytes LittleEndian 8 (rg_Seed g) @ bo_bytes LittleEndian 8 (rg_Id g)"
  have e: "bind_go (EncodeLong (replicate 16 0) 0 (rg_Seed g)) (\<lambda>c. EncodeLong c 8 (rg_Id g)) = Inr ?i"
    using raft_initial.enc_bytes [of "[]" "[]" "(rg_Seed g, rg_Id g)"] by (simp add: encode_entry_def)
  have d: "bind_go (DecodeLong ?i 0) (\<lambda>seed. bind_go (DecodeLong ?i 8) (\<lambda>i. Inr (seed, i))) = Inr (rg_Seed g, rg_Id g)"
    using raft_initial.dec_bytes [of "[]" "(rg_Seed g, rg_Id g)" "[]"] by (simp add: decode_entry_def)
  show "emits (EncodeRaftGroupId g) (raft_frames g)"
    using encode_struct_emits [OF e, of "[EncodeString (rg_Name g)]" "[[NewFrame (rg_Name g)]]"] string_codec.enc_emits
    by (simp add: EncodeRaftGroupId_def raft_frames_def)
  show "accepts DecodeRaftGroupId (raft_frames g) g"
    unfolding DecodeRaftGroupId_def raft_frames_def
    by (rule decode_struct_accepts, rule d, simp only: prod.case, rule accepts_mapI [OF accepts_string]) simp
qed (simp add: raft_frames_def)

definition entry_view_frames :: "simple_entry_view \<Rightarrow> frame list" where
  "entry_view_frames v = BeginFrame # NewFrame (concat (map (\<lambda>v. bo_bytes LittleEndian 8 v) (ev_fields v))) #
     ([NewFrame (data_bytes (ev_Key v))] @ [NewFrame (data_bytes (ev_Value v))]) @ [EndFrame]"

interpretation entry_view_codec: frame_codec EncodeSimpleEntryView DecodeSimpleEntryView entry_view_frames
    "\<lambda>v. length (ev_fields v) = 10 \<and> ev_Key v \<noteq> None \<and> ev_Value v \<noteq> None"
proof
  fix v :: simple_entry_view assume v: "length (ev_fields v) = 10 \<and> ev_Key v \<noteq> None \<and> ev_Value v \<noteq> None"
  let ?i = "concat (map (\<lambda>v. bo_bytes LittleEndian 8 v) (ev_fields v))"
  have e: "for_each (\<lambda>(i, x) c. EncodeLong c (word_of_nat (i * 8)) x) (enumerate 0 (ev_fields v)) (replicate 80 0) = Inr ?i"
    using long_fixed.for_each_enc [of "[]" 0 "ev_fields v"] v by (simp del: of_nat_mult)
  have d: "map_go (\<lambda>i. DecodeLong ?i (word_of_nat (i * 8))) [0..<10] = Inr (ev_fields v)"
    using long_fixed.map_go_dec [of "ev_fields v"] v by (simp del: of_nat_mult)
  show "emits (EncodeSimpleEntryView v) (entry_view_frames v)"
    using v encode_struct_emits [OF e, of "[EncodeData (ev_Key v), EncodeData (ev_Value v)]"
        "[[NewFrame (data_bytes (ev_Key v))], [NewFrame (data_bytes (ev_Value v))]]"] data_codec.enc_emits
    by (simp add: EncodeSimpleEntryView_def entry_view_frames_def)
  show "accepts DecodeSimpleEntryView (entry_view_frames v) v"
    unfolding DecodeSimpleEntryView_def entry_view_frames_def
    using v by (intro decode_struct_accepts [where x = "ev_fields v"], simp only: d,
        intro accepts_bind [OF data_codec.dec_accepts [of "ev_Key v"]] accepts_mapI [OF data_codec.dec_accepts [of "ev_Value v"]]) simp_all
qed (simp add: entry_view_frames_def)

section \<open>Members\<close>

lemma fold_update_distinct:
  "distinct (map fst (acc @ kvs)) \<Longrightarrow> fold (\<lambda>(k, v) m. AList.update k v m) kvs acc = acc @ kvs"
proof (induction kvs arbitrary: acc)
  case (Cons kv kvs)
  obtain k v where kv: "kv = (k, v)" by (cases kv)
  have "k \<notin> fst ` set acc" using Cons.prems kv by auto
  then have "AList.update k v acc = acc @ [(k, v)]" by (induction acc) auto
  with Cons show ?case by (simp add: kv)
qed simp

lemma decode_map_accepts:
  assumes "frame_codec ek dk fk vk" "frame_codec ev dv fv vv" "list_all (\<lambda>(k, v). vk k \<and> vv v) m" "gomap_wf m"
  shows "accepts (decode_map dk dv) (BeginFrame # concat (map (\<lambda>(k, v). fk k @ fv v) m) @ [EndFrame]) m"
  unfolding decode_map_def
  by (rule accepts_mapI [OF frame_codec.dec_accepts [OF frame_codec.multi_codec [OF pair_codec [OF assms(1,2)]] assms(3)]])
     (use fold_update_distinct [of "[]" m] assms(4) in simp)

lemma not_end_accepts:
  assumes "accepts d fs v" "fs \<noteq> []" "\<not> IsEndFrame (hd fs)"
  shows "accepts (\<lambda>it. bind_go (NextFrameIsDataStructureEndFrame it) (\<lambda>e. if e then x it else d it)) fs v"
  unfolding accepts_def
proof (intro allI impI)
  fix it fs' rest assume s: "list_all2 similar fs' fs" and r: "it_rest it = fs' @ rest"
  from s assms(2) obtain f gs where f: "fs' = f # gs" "similar f (hd fs)" by (cases fs; cases fs') auto
  then have "NextFrameIsDataStructureEndFrame it = Inr False"
    using it_rest_Cons(2) [of it f] r assms(3) by (simp add: NextFrameIsDataStructureEndFrame_def similar_def)
  with accepts_D [OF assms(1) s r] show "bind_go (NextFrameIsDataStructureEndFrame it) (\<lambda>e. if e then x it else d it)
      = Inr (v, skip (length fs) it)"
    by simp
qed

interpretation member_initial: fixed_codec "encode_entry EncodeUUID 17 EncodeBoolean" "decode_entry DecodeUUID 17 DecodeBoolean"
    18 "\<lambda>(u, l). uuid_bytes u @ [if l then 1 else 0]"
  using encode_entry_fixed [OF uuid_fixed.fixed_codec_axioms boolean_fixed.fixed_codec_axioms] by simp

definition member_ok :: "member_info \<Rightarrow> bool" where
  "member_ok mi \<longleftrightarrow> address_ok (mi_Address mi) \<and> gomap_wf (mi_Attributes mi) \<and> gomap_wf (mi_AddressMap mi)
     \<and> list_all (\<lambda>(q, a). (is_blank (eq_Identifier q) \<longrightarrow> eq_Identifier q = []) \<and> address_ok a) (mi_AddressMap mi)"

definition attributes_frames :: "(gostring, gostring) gomap \<Rightarrow> frame list" where
  "attributes_frames m = BeginFrame # concat (map (\<lambda>(k, v). [NewFrame k] @ [NewFrame v]) m) @ [EndFrame]"

definition address_map_frames :: "(endpoint_qualifier, address) gomap \<Rightarrow> frame list" where
  "address_map_frames m = BeginFrame # concat (map (\<lambda>(q, a). qualifier_frames q @ address_frames a) m) @ [EndFrame]"

definition member_frames :: "member_info \<Rightarrow> frame list" where
  "member_frames mi = BeginFrame # NewFrame (uuid_bytes (mi_UUID mi) @ [if mi_LiteMember mi then 1 else 0]) #
     (address_frames (mi_Address mi) @ attributes_frames (mi_Attributes mi) @ version_frames (mi_Version mi)
      @ address_map_frames (mi_AddressMap mi)) @ [EndFrame]"

lemma member_frames_emits:
  assumes "member_ok mi"
  shows "emits (EncodeMemberInfo mi) (member_frames mi)"
proof -
  have i: "bind_go (EncodeUUID (replicate 18 0) 0 (mi_UUID mi)) (\<lambda>c. EncodeBoolean c 17 (mi_LiteMember mi))
      = Inr (uuid_bytes (mi_UUID mi) @ [if mi_LiteMember mi then 1 else 0])"
    using member_initial.enc_bytes [of "[]" "[]" "(mi_UUID mi, mi_LiteMember mi)"] by (simp add: encode_entry_def)
  have "emits (EncodeMapForStringAndString (mi_Attributes mi)) (attributes_frames (mi_Attributes mi))"
    unfolding EncodeMapForStringAndString_def attributes_frames_def
    by (rule frame_codec.enc_emits [OF frame_codec.multi_codec [OF pair_codec [OF string_codec.frame_codec_axioms string_codec.frame_codec_axioms]]])
       (simp add: list_all_iff split_def)
  moreover have "emits (EncodeMapForEndpointQualifierAndAddress (mi_AddressMap mi)) (address_map_frames (mi_AddressMap mi))"
    unfolding EncodeMapForEndpointQualifierAndAddress_def address_map_frames_def
    by (rule frame_codec.enc_emits [OF frame_codec.multi_codec [OF pair_codec [OF qualifier_codec.frame_codec_axioms address_codec.frame_codec_axioms]]])
       (use assms in \<open>simp add: member_ok_def\<close>)
  ultimately show ?thesis
    using assms encode_struct_emits [OF i, of "[EncodeAddress (mi_Address mi), EncodeMapForStringAndString (mi_Attributes mi),
        EncodeMemberVersion (mi_Version mi), EncodeMapForEndpointQualifierAndAddress (mi_AddressMap mi)]"
        "[address_frames (mi_Address mi), attributes_frames (mi_Attributes mi), version_frames (mi_Version mi), address_map_frames (mi_AddressMap mi)]"]
      address_codec.enc_emits [of "mi_Address mi"] version_codec.enc_emits [of "mi_Version mi"]
    by (simp add: EncodeMemberInfo_def member_frames_def member_ok_def)
qed

lemma member_frames_accepts:
  assumes "member_ok mi"
  shows "accepts DecodeMemberInfo (member_frames mi) mi"
proof -
  have i: "bind_go (DecodeUUID (uuid_bytes (mi_UUID mi) @ [if mi_LiteMember mi then 1 else 0]) 0)
      (\<lambda>u. bind_go (DecodeBoolean (uuid_bytes (mi_UUID mi) @ [if mi_LiteMember mi then 1 else 0]) 17) (\<lambda>lite. Inr (u, lite)))
      = Inr (mi_UUID mi, mi_LiteMember mi)"
    using member_initial.dec_bytes [of "[]" "(mi_UUID mi, mi_LiteMember mi)" "[]"] by (simp add: decode_entry_def)
  have attrs: "accepts DecodeMapForStringAndString (attributes_frames (mi_Attributes mi)) (mi_Attributes mi)"
    unfolding DecodeMapForStringAndString_def attributes_frames_def
    by (rule decode_map_accepts [OF string_codec.frame_codec_axioms string_codec.frame_codec_axioms])
       (use assms in \<open>simp_all add: member_ok_def list_all_iff split_def\<close>)
  have am: "accepts DecodeMapForEndpointQualifierAndAddress (address_map_frames (mi_AddressMap mi)) (mi_AddressMap mi)"
    unfolding DecodeMapForEndpointQualifierAndAddress_def address_map_frames_def
    by (rule decode_map_accepts [OF qualifier_codec.frame_codec_axioms address_codec.frame_codec_axioms])
       (use assms in \<open>simp_all add: member_ok_def\<close>)
  have ad: "accepts DecodeAddress (address_frames (mi_Address mi)) (mi_Address mi)"
    using assms by (intro address_codec.dec_accepts) (simp add: member_ok_def)
  show ?thesis
    unfolding DecodeMemberInfo_def member_frames_def
    by (rule decode_struct_accepts, rule i, simp only: prod.case, rule accepts_bind [OF ad], rule accepts_bind [OF attrs],
        rule accepts_bind [OF version_codec.dec_accepts [OF TrueI]], rule not_end_accepts, rule accepts_mapI [OF am])
       (simp_all add: NewMemberInfo_def address_map_frames_def)
qed

interpretation member_codec: frame_codec EncodeMemberInfo DecodeMemberInfo member_frames member_ok
proof
  show "member_frames mi \<noteq> [] \<and> \<not> IsEndFrame (hd (member_frames mi))" for mi by (simp add: member_frames_def)
qed (auto intro: member_frames_emits member_frames_accepts)

text \<open>
  C19: a member list survives the wire: every member info whose addresses have no brackets in their
  host part decodes to itself, with its identity, address, attributes, version, kind and address map.
\<close>

theorem member_list_roundtrip:
  assumes "list_all member_ok ms"
  shows "\<exists>m. encode_multi EncodeMemberInfo ms NewClientMessageForEncode = Inr m
     \<and> (\<exists>it. DecodeListMultiFrameForMemberInfo (FrameIterator (m\<lparr>cm_Frames := final_last (cm_Frames m)\<rparr>)) = Inr (ms, it))"
proof -
  have "frame_codec (encode_multi EncodeMemberInfo) (DecodeListMultiFrame DecodeMemberInfo)
      (\<lambda>xs. BeginFrame # concat (map member_frames xs) @ [EndFrame]) (list_all member_ok)"
    by (rule member_codec.multi_codec)
  from frame_codec.message_roundtrip [OF this assms] show ?thesis
    by (auto simp: DecodeListMultiFrameForMemberInfo_def)
qed

definition demo_member :: member_info where
  "demo_member = NewMemberInfo (NewAddress (gostr ''10.0.0.1'') 5701) (NewUUIDWith 1 2) [(gostr ''zone'', gostr ''a'')]
     False \<lparr>mv_Major = 5, mv_Minor = 1, mv_Patch = 0\<rparr>
     (Some [(publicEndpointQualifier, NewAddress (gostr ''::1'') 5702)])"

lemma demo_member_ok: "member_ok demo_member"
proof -
  have "address_ok (NewAddress (gostr ''10.0.0.1'') 5701)" "address_ok (NewAddress (gostr ''::1'') 5702)"
    by (rule address_ok_NewAddress; code_simp)+
  moreover have "\<not> is_blank (gostr ''public'')" by code_simp
  ultimately show ?thesis
    by (simp add: member_ok_def demo_member_def NewMemberInfo_def publicEndpointQualifier_def)
qed

theorem member_list_roundtrip_witness:
  "\<exists>m. encode_multi EncodeMemberInfo [demo_member] NewClientMessageForEncode = Inr m
     \<and> (\<exists>it. DecodeListMultiFrameForMemberInfo (FrameIterator (m\<lparr>cm_Frames := final_last (cm_Frames m)\<rparr>)) = Inr ([demo_member], it))"
  using member_list_roundtrip [of "[demo_member]"] demo_member_ok by simp

text \<open>
  C20: skipping to the end of a structure passes over any fields that a newer member may have added,
  structures nested to any depth included, and stops right behind the end frame that belongs to it.
\<close>

theorem FastForward_skips_unknown_fields:
  assumes "balanced extra" "it_rest it = extra @ e # rest" "IsEndFrame e"
  shows "FastForwardToEndFrame it = Inr (skip (length extra + 1) it)"
proof -
  have "FastForwardToEndFrame it = FastForwardToEndFrame (skip (length extra) it)"
    unfolding FastForwardToEndFrame_def using assms(1,2) by (rule fast_forward_balanced) simp
  also have "\<dots> = Inr (skip 1 (skip (length extra) it))"
    using it_rest_skip [OF assms(2)] assms(3) by (intro fast_forward_end)
  finally show ?thesis by simp
qed

theorem FastForward_skips_unknown_fields_witness:
  "FastForwardToEndFrame \<lparr>it_frames = [NewFrame [1], BeginFrame, NewFrame [2], EndFrame, EndFrame, NewFrame [3]], it_next = 0\<rparr>
     = Inr \<lparr>it_frames = [NewFrame [1], BeginFrame, NewFrame [2], EndFrame, EndFrame, NewFrame [3]], it_next = 5\<rparr>"
proof -
  have "balanced (NewFrame [1] # (BeginFrame # [NewFrame [2]] @ EndFrame # []))"
    by (intro balanced.intros) simp_all
  then show ?thesis
    using FastForward_skips_unknown_fields [of "[NewFrame [1], BeginFrame, NewFrame [2], EndFrame]"
        "\<lparr>it_frames = [NewFrame [1], BeginFrame, NewFrame [2], EndFrame, EndFrame, NewFrame [3]], it_next = 0\<rparr>" EndFrame "[NewFrame [3]]"]
    by (simp add: it_rest_def skip_def)
qed

end
