(* ===== verification/DataOutput.thy ===== *)
theory DataOutput
  imports Prelude
begin

text \<open>
  Writing of serialized objects: the stores of \<^verbatim>\<open>internal/serialization/buffer_util.go\<close> and the types
  \<^verbatim>\<open>ObjectDataOutput\<close> and \<^verbatim>\<open>PositionalObjectDataOutput\<close> of \<^verbatim>\<open>internal/serialization/object_data.go\<close>.
  An output is its buffer, the 32-bit position and the byte order. A method is a function from the
  output to the changed output, or to the panic it ends in.
\<close>

unbundle bit_operations_syntax

section \<open>Stores into a buffer\<close>

definition buf_WriteInt32 :: "byte list \<Rightarrow> i32 \<Rightarrow> i32 \<Rightarrow> byte_order \<Rightarrow> byte list go" where
  "buf_WriteInt32 buf pos v bo = put_uint bo 4 buf (sint pos) v"

definition buf_WriteFloat32 :: "byte list \<Rightarrow> i32 \<Rightarrow> float32 \<Rightarrow> byte_order \<Rightarrow> byte list go" where
  "buf_WriteFloat32 buf pos v bo = put_uint bo 4 buf (sint pos) (Float32bits v)"

definition buf_WriteFloat64 :: "byte list \<Rightarrow> i32 \<Rightarrow> float64 \<Rightarrow> byte_order \<Rightarrow> byte list go" where
  "buf_WriteFloat64 buf pos v bo = put_uint bo 8 buf (sint pos) (Float64bits v)"

definition buf_WriteBool :: "byte list \<Rightarrow> i32 \<Rightarrow> bool \<Rightarrow> byte list go" where
  "buf_WriteBool buf pos v = (if v then go_update buf (sint pos) 1 else go_update buf (sint pos) 0)"

definition buf_WriteUInt16 :: "byte list \<Rightarrow> i32 \<Rightarrow> 16 word \<Rightarrow> byte_order \<Rightarrow> byte list go" where
  "buf_WriteUInt16 buf pos v bo = put_uint bo 2 buf (sint pos) v"

definition buf_WriteInt16 :: "byte list \<Rightarrow> i32 \<Rightarrow> i16 \<Rightarrow> byte_order \<Rightarrow> byte list go" where
  "buf_WriteInt16 buf pos v bo = put_uint bo 2 buf (sint pos) v"

definition buf_WriteInt64 :: "byte list \<Rightarrow> i32 \<Rightarrow> i64 \<Rightarrow> byte_order \<Rightarrow> byte list go" where
  "buf_WriteInt64 buf pos v bo = put_uint bo 8 buf (sint pos) v"

section \<open>The output\<close>

record data_output =
  o_bo :: byte_order
  o_buffer :: "byte list"
  o_position :: i32

definition nilArrayLength :: i32 where "nilArrayLength = - 1"

definition NewObjectDataOutput :: "nat \<Rightarrow> bool \<Rightarrow> data_output" where
  "NewObjectDataOutput len bigEndian =
     \<lparr>o_bo = (if bigEndian then BigEndian else LittleEndian), o_buffer = replicate len 0, o_position = 0\<rparr>"

definition out_Available :: "data_output \<Rightarrow> int" where
  "out_Available out = int (length (o_buffer out)) - sint (o_position out)"

definition out_SetPosition :: "i32 \<Rightarrow> data_output \<Rightarrow> data_output" where
  "out_SetPosition pos out = out\<lparr>o_position := pos\<rparr>"

text \<open>\<open>make\<close> and \<open>copy\<close>: a fresh slice of zeros that takes as much of the buffer as fits.\<close>

definition make_copy :: "int \<Rightarrow> byte list \<Rightarrow> byte list go" where
  "make_copy n buf =
     (if n < 0 then Inl MakeSliceLenOutOfRange
      else Inr (take (nat n) buf @ replicate (nat n - length buf) 0))"

definition ToBuffer :: "data_output \<Rightarrow> byte list option go" where
  "ToBuffer out =
     (if o_position out = 0 then Inr None
      else bind_go (make_copy (sint (o_position out)) (o_buffer out)) (\<lambda>b. Inr (Some b)))"

definition EnsureAvailable :: "int \<Rightarrow> data_output \<Rightarrow> data_output go" where
  "EnsureAvailable sz out =
     (if out_Available out < sz
      then bind_go (make_copy (sint (o_position out) + sz) (o_buffer out))
             (\<lambda>temp. Inr (out\<lparr>o_buffer := temp\<rparr>))
      else Inr out)"

text \<open>The output after a store that moved the position.\<close>

definition stored :: "data_output \<Rightarrow> i32 \<Rightarrow> byte list \<Rightarrow> data_output go" where
  "stored out n buf = Inr (out\<lparr>o_buffer := buf, o_position := o_position out + n\<rparr>)"

definition writeByte :: "byte \<Rightarrow> data_output \<Rightarrow> data_output go" where
  "writeByte v out = bind_go (go_update (o_buffer out) (sint (o_position out)) v) (stored out 1)"

definition writeSignedByte :: "byte \<Rightarrow> data_output \<Rightarrow> data_output go" where
  "writeSignedByte v out = bind_go (go_update (o_buffer out) (sint (o_position out)) v) (stored out 1)"

definition WriteZeroBytes :: "int \<Rightarrow> data_output \<Rightarrow> data_output go" where
  "WriteZeroBytes n out =
     bind_go (EnsureAvailable n out) (for_each (\<lambda>_. writeByte 0) [0..<nat n])"

definition WriteByte :: "byte \<Rightarrow> data_output \<Rightarrow> data_output go" where
  "WriteByte v out = bind_go (EnsureAvailable 1 out) (writeByte v)"

definition WriteSignedByte :: "byte \<Rightarrow> data_output \<Rightarrow> data_output go" where
  "WriteSignedByte v out = bind_go (EnsureAvailable 1 out) (writeSignedByte v)"

definition writeBool :: "bool \<Rightarrow> data_output \<Rightarrow> data_output go" where
  "writeBool v out = bind_go (buf_WriteBool (o_buffer out) (o_position out) v) (stored out 1)"

definition WriteBool :: "bool \<Rightarrow> data_output \<Rightarrow> data_output go" where
  "WriteBool v out = bind_go (EnsureAvailable 1 out) (writeBool v)"

definition WriteUInt16 :: "16 word \<Rightarrow> data_output \<Rightarrow> data_output go" where
  "WriteUInt16 v out = bind_go (EnsureAvailable 2 out)
     (\<lambda>out. bind_go (buf_WriteUInt16 (o_buffer out) (o_position out) v (o_bo out)) (stored out 2))"

definition WriteInt16 :: "i16 \<Rightarrow> data_output \<Rightarrow> data_output go" where
  "WriteInt16 v out = bind_go (EnsureAvailable 2 out)
     (\<lambda>out. bind_go (buf_WriteInt16 (o_buffer out) (o_position out) v (o_bo out)) (stored out 2))"

definition WriteInt32 :: "i32 \<Rightarrow> data_output \<Rightarrow> data_output go" where
  "WriteInt32 v out = bind_go (EnsureAvailable 4 out)
     (\<lambda>out. bind_go (buf_WriteInt32 (o_buffer out) (o_position out) v (o_bo out)) (stored out 4))"

definition WriteInt32BigEndian :: "i32 \<Rightarrow> data_output \<Rightarrow> data_output go" where
  "WriteInt32BigEndian v out = bind_go (EnsureAvailable 4 out)
     (\<lambda>out. bind_go (buf_WriteInt32 (o_buffer out) (o_position out) v BigEndian) (stored out 4))"

definition WriteInt64 :: "i64 \<Rightarrow> data_output \<Rightarrow> data_output go" where
  "WriteInt64 v out = bind_go (EnsureAvailable 8 out)
     (\<lambda>out. bind_go (buf_WriteInt64 (o_buffer out) (o_position out) v (o_bo out)) (stored out 8))"

definition WriteFloat32 :: "float32 \<Rightarrow> data_output \<Rightarrow> data_output go" where
  "WriteFloat32 v out = bind_go (EnsureAvailable 4 out)
     (\<lambda>out. bind_go (buf_WriteFloat32 (o_buffer out) (o_position out) v (o_bo out)) (stored out 4))"

definition WriteFloat64 :: "float64 \<Rightarrow> data_output \<Rightarrow> data_output go" where
  "WriteFloat64 v out = bind_go (EnsureAvailable 8 out)
     (\<lambda>out. bind_go (buf_WriteFloat64 (o_buffer out) (o_position out) v (o_bo out)) (stored out 8))"

text \<open>\<open>copy(o.buffer[o.position:], v)\<close>, with the number of bytes copied.\<close>

definition copy_in :: "byte list \<Rightarrow> data_output \<Rightarrow> (byte list \<times> nat) go" where
  "copy_in v out = go_copy_at (o_buffer out) (sint (o_position out)) v"

definition WriteString :: "gostring \<Rightarrow> data_output \<Rightarrow> data_output go" where
  "WriteString v out =
     (let len = length v
      in bind_go (WriteInt32 (word_of_nat len) out)
           (\<lambda>out. if len > 0
              then bind_go (EnsureAvailable (int len) out)
                     (\<lambda>out. bind_go (copy_in v out) (\<lambda>(b, _). stored out (word_of_nat len) b))
              else Inr out))"

section \<open>Arrays\<close>

definition WriteInt8Array :: "byte list option \<Rightarrow> data_output \<Rightarrow> data_output go" where
  "WriteInt8Array v out = (case v of
     None \<Rightarrow> WriteInt32 nilArrayLength out
   | Some xs \<Rightarrow> bind_go (WriteInt32 (word_of_nat (length xs)) out)
       (\<lambda>out. bind_go (EnsureAvailable (int (length xs)) out) (for_each writeSignedByte xs)))"

definition WriteByteArray :: "byte list option \<Rightarrow> data_output \<Rightarrow> data_output go" where
  "WriteByteArray v out = (case v of
     None \<Rightarrow> WriteInt32 nilArrayLength out
   | Some xs \<Rightarrow> bind_go (WriteInt32 (word_of_nat (length xs)) out)
       (\<lambda>out. bind_go (EnsureAvailable (int (length xs)) out)
       (\<lambda>out. bind_go (copy_in xs out) (\<lambda>(b, n). stored out (word_of_nat n) b))))"

definition WriteBoolArray :: "bool list option \<Rightarrow> data_output \<Rightarrow> data_output go" where
  "WriteBoolArray v out = (case v of
     None \<Rightarrow> WriteInt32 nilArrayLength out
   | Some xs \<Rightarrow> bind_go (WriteInt32 (word_of_nat (length xs)) out)
       (\<lambda>out. bind_go (EnsureAvailable (int (length xs)) out) (for_each writeBool xs)))"

text \<open>
  The other array methods have one body: the length, -1 for \<^verbatim>\<open>nil\<close>, and then each element with the
  method for its type.
\<close>

definition write_array ::
  "('a \<Rightarrow> data_output \<Rightarrow> data_output go) \<Rightarrow> 'a list option \<Rightarrow> data_output \<Rightarrow> data_output go" where
  "write_array wr v out = (case v of
     None \<Rightarrow> WriteInt32 nilArrayLength out
   | Some xs \<Rightarrow> bind_go (WriteInt32 (word_of_nat (length xs)) out) (for_each wr xs))"

definition WriteUInt16Array :: "16 word list option \<Rightarrow> data_output \<Rightarrow> data_output go" where
  "WriteUInt16Array = write_array WriteUInt16"

definition WriteInt16Array :: "i16 list option \<Rightarrow> data_output \<Rightarrow> data_output go" where
  "WriteInt16Array = write_array WriteInt16"

definition WriteInt32Array :: "i32 list option \<Rightarrow> data_output \<Rightarrow> data_output go" where
  "WriteInt32Array = write_array WriteInt32"

definition WriteInt64Array :: "i64 list option \<Rightarrow> data_output \<Rightarrow> data_output go" where
  "WriteInt64Array = write_array WriteInt64"

definition WriteFloat32Array :: "float32 list option \<Rightarrow> data_output \<Rightarrow> data_output go" where
  "WriteFloat32Array = write_array WriteFloat32"

definition WriteFloat64Array :: "float64 list option \<Rightarrow> data_output \<Rightarrow> data_output go" where
  "WriteFloat64Array = write_array WriteFloat64"

definition WriteStringArray :: "gostring list option \<Rightarrow> data_output \<Rightarrow> data_output go" where
  "WriteStringArray = write_array WriteString"

section \<open>Raw bytes and characters\<close>

definition WriteRawBytes :: "byte list \<Rightarrow> data_output \<Rightarrow> data_output go" where
  "WriteRawBytes b out =
     bind_go (EnsureAvailable (int (length b)) out)
       (\<lambda>out. bind_go (copy_in b out) (\<lambda>(buf, n). stored out (word_of_nat n) buf))"

definition writeStringBytes :: "rune list \<Rightarrow> data_output \<Rightarrow> data_output go" where
  "writeStringBytes rv out =
     bind_go (EnsureAvailable (int (length rv)) out)
       (\<lambda>out. bind_go (for_each (\<lambda>(i, r) b. go_update b (sint (o_position out) + int i) (ucast r))
                         (enumerate 0 rv) (o_buffer out))
                (stored out (word_of_nat (length rv))))"

definition WriteStringBytes :: "gostring \<Rightarrow> data_output \<Rightarrow> data_output go" where
  "WriteStringBytes v = writeStringBytes (utf8_runes v)"

section \<open>Positional stores\<close>

definition pstored :: "data_output \<Rightarrow> byte list \<Rightarrow> data_output go" where
  "pstored out buf = Inr (out\<lparr>o_buffer := buf\<rparr>)"

definition PWriteByte :: "i32 \<Rightarrow> byte \<Rightarrow> data_output \<Rightarrow> data_output go" where
  "PWriteByte pos v out = bind_go (go_update (o_buffer out) (sint pos) v) (pstored out)"

definition PWriteBool :: "i32 \<Rightarrow> bool \<Rightarrow> data_output \<Rightarrow> data_output go" where
  "PWriteBool pos v out = bind_go (buf_WriteBool (o_buffer out) pos v) (pstored out)"

text \<open>A shift of a byte by 8 or more gives 0; a negative shift count panics.\<close>

definition PWriteBoolBit :: "i32 \<Rightarrow> i32 \<Rightarrow> bool \<Rightarrow> data_output \<Rightarrow> data_output go" where
  "PWriteBoolBit pos bitIndex v out =
     bind_go (go_index (o_buffer out) (sint pos))
       (\<lambda>b. if sint bitIndex < 0 then Inl (PanicMessage ''negative shift amount'')
            else let m = push_bit (nat (sint bitIndex)) 1;
                     b' = (if v then b OR m else b AND NOT m)
                 in bind_go (go_update (o_buffer out) (sint pos) b') (pstored out))"

definition PWriteUInt16 :: "i32 \<Rightarrow> 16 word \<Rightarrow> data_output \<Rightarrow> data_output go" where
  "PWriteUInt16 pos v out = bind_go (buf_WriteUInt16 (o_buffer out) pos v (o_bo out)) (pstored out)"

definition PWriteInt16 :: "i32 \<Rightarrow> i16 \<Rightarrow> data_output \<Rightarrow> data_output go" where
  "PWriteInt16 pos v out = bind_go (buf_WriteInt16 (o_buffer out) pos v (o_bo out)) (pstored out)"

definition PWriteInt32 :: "i32 \<Rightarrow> i32 \<Rightarrow> data_output \<Rightarrow> data_output go" where
  "PWriteInt32 pos v out = bind_go (buf_WriteInt32 (o_buffer out) pos v (o_bo out)) (pstored out)"

definition PWriteInt64 :: "i32 \<Rightarrow> i64 \<Rightarrow> data_output \<Rightarrow> data_output go" where
  "PWriteInt64 pos v out = bind_go (buf_WriteInt64 (o_buffer out) pos v (o_bo out)) (pstored out)"

definition PWriteFloat32 :: "i32 \<Rightarrow> float32 \<Rightarrow> data_output \<Rightarrow> data_output go" where
  "PWriteFloat32 pos v out = bind_go (buf_WriteFloat32 (o_buffer out) pos v (o_bo out)) (pstored out)"

definition PWriteFloat64 :: "i32 \<Rightarrow> float64 \<Rightarrow> data_output \<Rightarrow> data_output go" where
  "PWriteFloat64 pos v out = bind_go (buf_WriteFloat64 (o_buffer out) pos v (o_bo out)) (pstored out)"

section \<open>Every write appends\<close>

text \<open>
  A well-formed output has its position inside the buffer. What has been written is the buffer up to
  the position; each write method appends the encoding of its argument to it, as long as the
  position stays in the 32-bit range.
\<close>

definition out_wf :: "data_output \<Rightarrow> bool" where
  "out_wf out \<longleftrightarrow> 0 \<le> sint (o_position out) \<and> sint (o_position out) \<le> int (length (o_buffer out))"

definition out_data :: "data_output \<Rightarrow> byte list" where
  "out_data out = take (nat (sint (o_position out))) (o_buffer out)"

definition appended :: "data_output \<Rightarrow> byte list \<Rightarrow> data_output \<Rightarrow> bool" where
  "appended out bs out' \<longleftrightarrow> out_wf out' \<and> o_bo out' = o_bo out \<and> out_data out' = out_data out @ bs"

definition appends :: "(data_output \<Rightarrow> data_output go) \<Rightarrow> (byte_order \<Rightarrow> byte list) \<Rightarrow> bool" where
  "appends w bs \<longleftrightarrow> (\<forall>out. out_wf out \<longrightarrow> length (out_data out) + length (bs (o_bo out)) < 2 ^ 31 \<longrightarrow>
     (\<exists>out'. w out = Inr out' \<and> appended out (bs (o_bo out)) out'))"

lemma length_out_data: "out_wf out \<Longrightarrow> int (length (out_data out)) = sint (o_position out)"
  by (auto simp: out_wf_def out_data_def min_def)

lemma NewObjectDataOutput_wf [simp]:
  "out_wf (NewObjectDataOutput n be)" "out_data (NewObjectDataOutput n be) = []"
  "o_bo (NewObjectDataOutput n be) = (if be then BigEndian else LittleEndian)"
  by (simp_all add: out_wf_def out_data_def NewObjectDataOutput_def)

lemma ToBuffer_data:
  "out_wf out \<Longrightarrow> ToBuffer out = Inr (if out_data out = [] then None else Some (out_data out))"
proof -
  assume wf: "out_wf out"
  have "out_data out = [] \<longleftrightarrow> o_position out = 0"
    using length_out_data [OF wf] by (metis length_0_conv of_nat_0_eq_iff signed_0 signed_word_eqI)
  with wf show ?thesis
    by (auto simp: ToBuffer_def make_copy_def out_wf_def out_data_def)
qed

text \<open>Room for \<open>n\<close> bytes: the output that \<open>EnsureAvailable\<close> leaves.\<close>

definition out_room :: "data_output \<Rightarrow> int \<Rightarrow> data_output \<Rightarrow> bool" where
  "out_room out n out' \<longleftrightarrow> out_wf out' \<and> o_bo out' = o_bo out \<and> o_position out' = o_position out
     \<and> out_data out' = out_data out \<and> n \<le> out_Available out'"

lemma EnsureAvailable_room:
  assumes "out_wf out" "0 \<le> n"
  shows "\<exists>out'. EnsureAvailable n out = Inr out' \<and> out_room out n out'"
  using assms
  by (auto simp: EnsureAvailable_def make_copy_def out_room_def out_wf_def out_data_def out_Available_def)

lemma put_stored_appended:
  assumes "out_wf out" "int (length bs) \<le> out_Available out" "length (out_data out) + length bs < 2 ^ 31"
    and "buf = take (nat (sint (o_position out))) (o_buffer out) @ bs
                 @ drop (nat (sint (o_position out)) + length bs) (o_buffer out)"
    and "n = word_of_nat (length bs)"
  shows "\<exists>out'. stored out n buf = Inr out' \<and> appended out bs out'"
proof -
  have p: "int (length (out_data out)) = sint (o_position out)" using assms(1) by (rule length_out_data)
  have "length bs < 2 ^ 31" using assms(3) by linarith
  then have n: "sint n = int (length bs)" by (simp add: assms(5) sint32_of_nat)
  have s: "sint (o_position out + n) = sint (o_position out) + int (length bs)"
    using assms(1,3) p n sint32_add [of "o_position out" n] by (simp add: out_wf_def)
  from assms(1,2) have len: "nat (sint (o_position out)) + length bs \<le> length (o_buffer out)"
    by (simp add: out_wf_def out_Available_def)
  with assms(1) s show ?thesis
    by (auto simp: stored_def appended_def out_wf_def out_data_def assms(4) nat_add_distrib)
qed

lemma put_uint_appends:
  assumes "0 < n"
  shows "appends (\<lambda>out. bind_go (EnsureAvailable (int n) out)
            (\<lambda>out. bind_go (put_uint (f (o_bo out)) n (o_buffer out) (sint (o_position out)) v) (stored out (word_of_nat n))))
          (\<lambda>bo. bo_bytes (f bo) n v)"
  unfolding appends_def
proof (intro allI impI)
  fix out assume wf: "out_wf out" and "length (out_data out) + length (bo_bytes (f (o_bo out)) n v) < 2 ^ 31"
  then have room: "length (out_data out) + n < 2 ^ 31" by simp
  from wf obtain o1 where o1: "EnsureAvailable (int n) out = Inr o1" "out_room out (int n) o1"
    using EnsureAvailable_room [of out "int n"] by auto
  let ?bs = "bo_bytes (f (o_bo out)) n v"
  have "put_uint (f (o_bo out)) n (o_buffer o1) (sint (o_position o1)) v =
      Inr (take (nat (sint (o_position o1))) (o_buffer o1) @ ?bs
                 @ drop (nat (sint (o_position o1)) + length ?bs) (o_buffer o1))"
    using o1(2) by (subst put_uint_ok) (auto simp: out_room_def out_wf_def out_Available_def)
  moreover have "\<exists>out'. stored o1 (word_of_nat n) (take (nat (sint (o_position o1))) (o_buffer o1) @ ?bs
                 @ drop (nat (sint (o_position o1)) + length ?bs) (o_buffer o1)) = Inr out' \<and> appended o1 ?bs out'"
    using o1(2) room by (intro put_stored_appended) (auto simp: out_room_def)
  ultimately show "\<exists>out'. bind_go (EnsureAvailable (int n) out)
        (\<lambda>out. bind_go (put_uint (f (o_bo out)) n (o_buffer out) (sint (o_position out)) v) (stored out (word_of_nat n))) = Inr out'
      \<and> appended out ?bs out'"
    using o1 by (auto simp: out_room_def appended_def)
qed

text \<open>Sequences of writes.\<close>

lemma appended_trans: "appended a bs b \<Longrightarrow> appended b cs c \<Longrightarrow> appended a (bs @ cs) c"
  by (simp add: appended_def)

lemma appended_length: "appended a bs b \<Longrightarrow> length (out_data b) = length (out_data a) + length bs"
  by (simp add: appended_def)

lemma appends_Inr: "appends Inr (\<lambda>_. [])"
  by (simp add: appends_def appended_def)

lemma appends_bind:
  assumes "appends w b" "appends w' b'"
  shows "appends (\<lambda>out. bind_go (w out) w') (\<lambda>bo. b bo @ b' bo)"
  unfolding appends_def
proof (intro allI impI)
  fix out assume wf: "out_wf out" and room: "length (out_data out) + length (b (o_bo out) @ b' (o_bo out)) < 2 ^ 31"
  then obtain o1 where o1: "w out = Inr o1" "appended out (b (o_bo out)) o1"
    using assms(1) by (fastforce simp: appends_def)
  then have "out_wf o1" "o_bo o1 = o_bo out" by (simp_all add: appended_def)
  with room appended_length [OF o1(2)] obtain o2 where "w' o1 = Inr o2" "appended o1 (b' (o_bo out)) o2"
    using assms(2) by (fastforce simp: appends_def)
  with o1 show "\<exists>out'. bind_go (w out) w' = Inr out' \<and> appended out (b (o_bo out) @ b' (o_bo out)) out'"
    by (auto intro: appended_trans)
qed

lemma appends_for_each:
  "(\<And>x. x \<in> set xs \<Longrightarrow> appends (wr x) (enc x)) \<Longrightarrow> appends (for_each wr xs) (\<lambda>bo. concat (map (\<lambda>x. enc x bo) xs))"
proof (induction xs)
  case Nil
  have "for_each wr [] = Inr" by (rule ext) simp
  then show ?case by (simp add: appends_Inr)
next
  case (Cons x xs)
  have "for_each wr (x # xs) = (\<lambda>out. bind_go (wr x out) (for_each wr xs))" by (rule ext) simp
  then show ?case
    using appends_bind [OF Cons.prems [of x] Cons.IH] Cons.prems by simp
qed

text \<open>Stores after one \<open>EnsureAvailable\<close> for all of them: they need the room and keep the buffer's length.\<close>

definition raw_appends :: "(data_output \<Rightarrow> data_output go) \<Rightarrow> byte list \<Rightarrow> bool" where
  "raw_appends w bs \<longleftrightarrow> (\<forall>out. out_wf out \<longrightarrow> int (length bs) \<le> out_Available out \<longrightarrow>
     length (out_data out) + length bs < 2 ^ 31 \<longrightarrow>
     (\<exists>out'. w out = Inr out' \<and> appended out bs out' \<and> length (o_buffer out') = length (o_buffer out)))"

lemma raw_appends_ensure:
  assumes "raw_appends w bs"
  shows "appends (\<lambda>out. bind_go (EnsureAvailable (int (length bs)) out) w) (\<lambda>_. bs)"
  unfolding appends_def
proof (intro allI impI)
  fix out assume wf: "out_wf out" and room: "length (out_data out) + length bs < 2 ^ 31"
  from wf obtain o1 where o1: "EnsureAvailable (int (length bs)) out = Inr o1" "out_room out (int (length bs)) o1"
    using EnsureAvailable_room [of out "int (length bs)"] by auto
  with assms room obtain o2 where "w o1 = Inr o2" "appended o1 bs o2"
    by (fastforce simp: raw_appends_def out_room_def)
  with o1 show "\<exists>out'. bind_go (EnsureAvailable (int (length bs)) out) w = Inr out' \<and> appended out bs out'"
    by (auto simp: out_room_def appended_def)
qed

lemma raw_appends_for_each:
  assumes "\<And>x. raw_appends (wr x) [enc x]"
  shows "raw_appends (for_each wr xs) (map enc xs)"
proof (induction xs)
  case Nil
  then show ?case by (simp add: raw_appends_def appended_def)
next
  case (Cons x xs)
  show ?case
    unfolding raw_appends_def
  proof (intro allI impI)
    fix out assume wf: "out_wf out" and av: "int (length (map enc (x # xs))) \<le> out_Available out"
      and room: "length (out_data out) + length (map enc (x # xs)) < 2 ^ 31"
    then obtain o1 where o1: "wr x out = Inr o1" "appended out [enc x] o1" "length (o_buffer o1) = length (o_buffer out)"
      using assms [of x] by (fastforce simp: raw_appends_def)
    then have l: "length (out_data o1) = length (out_data out) + 1" and wf1: "out_wf o1"
      using appended_length [OF o1(2)] by (simp_all add: appended_def)
    with av wf o1(3) have "int (length (map enc xs)) \<le> out_Available o1"
      using length_out_data [OF wf] length_out_data [OF wf1] by (simp add: out_Available_def)
    with Cons.IH wf1 room l obtain o2 where "for_each wr xs o1 = Inr o2" "appended o1 (map enc xs) o2"
        "length (o_buffer o2) = length (o_buffer o1)"
      by (fastforce simp: raw_appends_def)
    with o1 show "\<exists>out'. for_each wr (x # xs) out = Inr out' \<and> appended out (map enc (x # xs)) out'
        \<and> length (o_buffer out') = length (o_buffer out)"
      using appended_trans [OF o1(2)] by auto
  qed
qed

lemma go_update_split:
  "0 \<le> i \<Longrightarrow> i < int (length xs) \<Longrightarrow> go_update xs i v = Inr (take (nat i) xs @ [v] @ drop (nat i + 1) xs)"
  by (simp add: go_update_def upd_conv_take_nth_drop)

lemma raw_appends_update:
  "raw_appends (\<lambda>out. bind_go (go_update (o_buffer out) (sint (o_position out)) v) (stored out 1)) [v]"
  unfolding raw_appends_def
proof (intro allI impI)
  fix out assume wf: "out_wf out" and av: "int (length [v]) \<le> out_Available out"
    and room: "length (out_data out) + length [v] < 2 ^ 31"
  then have p: "0 \<le> sint (o_position out)" "sint (o_position out) < int (length (o_buffer out))"
    by (auto simp: out_wf_def out_Available_def)
  let ?b = "take (nat (sint (o_position out))) (o_buffer out) @ [v]
              @ drop (nat (sint (o_position out)) + length [v]) (o_buffer out)"
  have "\<exists>out'. stored out 1 ?b = Inr out' \<and> appended out [v] out'"
    using wf av room by (intro put_stored_appended) auto
  moreover have "length ?b = length (o_buffer out)" using p by simp
  ultimately show "\<exists>out'. bind_go (go_update (o_buffer out) (sint (o_position out)) v) (stored out 1) = Inr out'
      \<and> appended out [v] out' \<and> length (o_buffer out') = length (o_buffer out)"
    using p by (auto simp: go_update_split stored_def)
qed

lemma raw_appends_copy:
  "raw_appends (\<lambda>out. bind_go (copy_in bs out) (\<lambda>(b, n). stored out (word_of_nat n) b)) bs"
  unfolding raw_appends_def
proof (intro allI impI)
  fix out assume wf: "out_wf out" and av: "int (length bs) \<le> out_Available out"
    and room: "length (out_data out) + length bs < 2 ^ 31"
  let ?b = "take (nat (sint (o_position out))) (o_buffer out) @ bs
              @ drop (nat (sint (o_position out)) + length bs) (o_buffer out)"
  from wf av have p: "0 \<le> sint (o_position out)" "nat (sint (o_position out)) + length bs \<le> length (o_buffer out)"
    by (auto simp: out_wf_def out_Available_def)
  then have c: "copy_in bs out = Inr (?b, length bs)"
    by (simp add: copy_in_def go_copy_at_def Let_def min_def) linarith
  have "\<exists>out'. stored out (word_of_nat (length bs)) ?b = Inr out' \<and> appended out bs out'"
    using wf av room by (intro put_stored_appended) auto
  moreover have "length ?b = length (o_buffer out)" using p by simp
  ultimately show "\<exists>out'. bind_go (copy_in bs out) (\<lambda>(b, n). stored out (word_of_nat n) b) = Inr out'
      \<and> appended out bs out' \<and> length (o_buffer out') = length (o_buffer out)"
    by (auto simp: c stored_def)
qed

section \<open>The methods\<close>

definition bool_byte :: "bool \<Rightarrow> byte" where
  "bool_byte b = (if b then 1 else 0)"

definition enc_len :: "byte_order \<Rightarrow> nat \<Rightarrow> byte list" where
  "enc_len bo n = bo_bytes bo 4 (word_of_nat n :: i32)"

definition enc_string :: "byte_order \<Rightarrow> gostring \<Rightarrow> byte list" where
  "enc_string bo s = enc_len bo (length s) @ s"

definition enc_array :: "(byte_order \<Rightarrow> 'a \<Rightarrow> byte list) \<Rightarrow> byte_order \<Rightarrow> 'a list option \<Rightarrow> byte list" where
  "enc_array enc bo v = (case v of
     None \<Rightarrow> bo_bytes bo 4 nilArrayLength
   | Some xs \<Rightarrow> enc_len bo (length xs) @ concat (map (enc bo) xs))"

lemma length_enc_len [simp]: "length (enc_len bo n) = 4"
  by (simp add: enc_len_def)

lemma enc_nonempty_simps [simp]:
  "enc_len bo k \<noteq> []" "enc_string bo s \<noteq> []" "enc_array enc bo v \<noteq> []"
  by (simp_all add: enc_len_def enc_string_def enc_array_def split: option.split)

lemma writeBool_update:
  "writeBool v = (\<lambda>out. bind_go (go_update (o_buffer out) (sint (o_position out)) (bool_byte v)) (stored out 1))"
  by (rule ext) (simp add: writeBool_def buf_WriteBool_def bool_byte_def)

named_theorems appends_intros \<open>what each write method appends\<close>

lemma writeByte_raw: "raw_appends (writeByte v) [v]" "raw_appends (writeSignedByte v) [v]"
  using raw_appends_update [of v] by (simp_all add: writeByte_def [abs_def] writeSignedByte_def [abs_def])

lemma writeBool_raw: "raw_appends (writeBool v) [bool_byte v]"
  using raw_appends_update by (simp add: writeBool_update)

lemma WriteByte_appends [appends_intros]: "appends (WriteByte v) (\<lambda>_. [v])"
  using raw_appends_ensure [OF writeByte_raw(1) [of v]] by (simp add: WriteByte_def [abs_def])

lemma WriteSignedByte_appends [appends_intros]: "appends (WriteSignedByte v) (\<lambda>_. [v])"
  using raw_appends_ensure [OF writeByte_raw(2) [of v]] by (simp add: WriteSignedByte_def [abs_def])

lemma WriteBool_appends [appends_intros]: "appends (WriteBool v) (\<lambda>_. [bool_byte v])"
  using raw_appends_ensure [OF writeBool_raw [of v]] by (simp add: WriteBool_def [abs_def])

lemma WriteUInt16_appends [appends_intros]: "appends (WriteUInt16 v) (\<lambda>bo. bo_bytes bo 2 v)"
  using put_uint_appends [of 2 "\<lambda>bo. bo" v] by (simp add: WriteUInt16_def [abs_def] buf_WriteUInt16_def)

lemma WriteInt16_appends [appends_intros]: "appends (WriteInt16 v) (\<lambda>bo. bo_bytes bo 2 v)"
  using put_uint_appends [of 2 "\<lambda>bo. bo" v] by (simp add: WriteInt16_def [abs_def] buf_WriteInt16_def)

lemma WriteInt32_appends [appends_intros]: "appends (WriteInt32 v) (\<lambda>bo. bo_bytes bo 4 v)"
  using put_uint_appends [of 4 "\<lambda>bo. bo" v] by (simp add: WriteInt32_def [abs_def] buf_WriteInt32_def)

lemma WriteInt32BigEndian_appends [appends_intros]:
  "appends (WriteInt32BigEndian v) (\<lambda>_. bo_bytes BigEndian 4 v)"
  using put_uint_appends [of 4 "\<lambda>_. BigEndian" v] by (simp add: WriteInt32BigEndian_def [abs_def] buf_WriteInt32_def)

lemma WriteInt64_appends [appends_intros]: "appends (WriteInt64 v) (\<lambda>bo. bo_bytes bo 8 v)"
  using put_uint_appends [of 8 "\<lambda>bo. bo" v] by (simp add: WriteInt64_def [abs_def] buf_WriteInt64_def)

lemma WriteFloat32_appends [appends_intros]: "appends (WriteFloat32 v) (\<lambda>bo. bo_bytes bo 4 (Float32bits v))"
  using put_uint_appends [of 4 "\<lambda>bo. bo" "Float32bits v"] by (simp add: WriteFloat32_def [abs_def] buf_WriteFloat32_def)

lemma WriteFloat64_appends [appends_intros]: "appends (WriteFloat64 v) (\<lambda>bo. bo_bytes bo 8 (Float64bits v))"
  using put_uint_appends [of 8 "\<lambda>bo. bo" "Float64bits v"] by (simp add: WriteFloat64_def [abs_def] buf_WriteFloat64_def)

lemma WriteLen_appends: "appends (WriteInt32 (word_of_nat n)) (\<lambda>bo. enc_len bo n)"
  using WriteInt32_appends [of "word_of_nat n"] by (simp add: enc_len_def)

lemma copy_appends:
  "appends (\<lambda>out. bind_go (EnsureAvailable (int (length bs)) out)
     (\<lambda>out. bind_go (copy_in bs out) (\<lambda>(b, n). stored out (word_of_nat n) b))) (\<lambda>_. bs)"
  by (rule raw_appends_ensure [OF raw_appends_copy])

lemma WriteRawBytes_appends [appends_intros]: "appends (WriteRawBytes bs) (\<lambda>_. bs)"
  using copy_appends by (simp add: WriteRawBytes_def [abs_def])

lemma WriteByteArray_appends [appends_intros]:
  "appends (WriteByteArray v) (\<lambda>bo. enc_array (\<lambda>_ b. [b]) bo v)"
proof (cases v)
  case None
  with WriteInt32_appends show ?thesis by (simp add: WriteByteArray_def [abs_def] enc_array_def)
next
  case (Some xs)
  with appends_bind [OF WriteLen_appends [of "length xs"] copy_appends [of xs]] show ?thesis
    by (simp add: WriteByteArray_def [abs_def] enc_array_def)
qed

lemma raw_array_appends:
  assumes "\<And>x. raw_appends (wr x) [enc x]"
  shows "appends (\<lambda>out. bind_go (WriteInt32 (word_of_nat (length xs)) out)
            (\<lambda>out. bind_go (EnsureAvailable (int (length xs)) out) (for_each wr xs)))
          (\<lambda>bo. enc_array (\<lambda>_ b. [enc b]) bo (Some xs))"
  using appends_bind [OF WriteLen_appends [of "length xs"]
      raw_appends_ensure [OF raw_appends_for_each [OF assms, where xs = xs]]]
  by (simp add: enc_array_def concat_map_singleton)

lemma WriteInt8Array_appends [appends_intros]:
  "appends (WriteInt8Array v) (\<lambda>bo. enc_array (\<lambda>_ b. [b]) bo v)"
  using raw_array_appends [OF writeByte_raw(2)] WriteInt32_appends
  by (cases v) (simp_all add: WriteInt8Array_def [abs_def] enc_array_def [where v = None])

lemma WriteBoolArray_appends [appends_intros]:
  "appends (WriteBoolArray v) (\<lambda>bo. enc_array (\<lambda>_ b. [bool_byte b]) bo v)"
  using raw_array_appends [OF writeBool_raw] WriteInt32_appends
  by (cases v) (simp_all add: WriteBoolArray_def [abs_def] enc_array_def [where v = None])

lemma write_array_appends:
  assumes "\<And>x. appends (wr x) (\<lambda>bo. enc bo x)"
  shows "appends (write_array wr v) (\<lambda>bo. enc_array enc bo v)"
proof (cases v)
  case None
  with WriteInt32_appends show ?thesis by (simp add: write_array_def [abs_def] enc_array_def)
next
  case (Some xs)
  with appends_bind [OF WriteLen_appends [of "length xs"] appends_for_each [OF assms, where xs = xs]] show ?thesis
    by (simp add: write_array_def [abs_def] enc_array_def)
qed

lemma WriteString_appends [appends_intros]: "appends (WriteString v) (\<lambda>bo. enc_string bo v)"
proof -
  have "appends (\<lambda>out. if length v > 0
           then bind_go (EnsureAvailable (int (length v)) out)
                  (\<lambda>out. bind_go (copy_in v out) (\<lambda>(b, _). stored out (word_of_nat (length v)) b))
           else Inr out) (\<lambda>_. v)"
  proof (cases "length v > 0")
    case True
    have "raw_appends (\<lambda>out. bind_go (copy_in v out) (\<lambda>(b, _). stored out (word_of_nat (length v)) b)) v"
      unfolding raw_appends_def
    proof (intro allI impI)
      fix out assume *: "out_wf out" "int (length v) \<le> out_Available out" "length (out_data out) + length v < 2 ^ 31"
      then have "0 \<le> sint (o_position out)" "nat (sint (o_position out)) + length v \<le> length (o_buffer out)"
        by (auto simp: out_wf_def out_Available_def)
      then have "snd (case copy_in v out of Inr r \<Rightarrow> r) = length v" "\<exists>r. copy_in v out = Inr r"
        by (auto simp: copy_in_def go_copy_at_def Let_def min_def)
      with * raw_appends_copy [of v] show "\<exists>out'. bind_go (copy_in v out) (\<lambda>(b, _). stored out (word_of_nat (length v)) b) = Inr out'
          \<and> appended out v out' \<and> length (o_buffer out') = length (o_buffer out)"
        by (fastforce simp: raw_appends_def)
    qed
    with True show ?thesis using raw_appends_ensure by simp
  next
    case False
    then show ?thesis using appends_Inr by (simp add: fun_eq_iff)
  qed
  from appends_bind [OF WriteLen_appends [of "length v"] this] show ?thesis
    by (simp add: WriteString_def [abs_def] enc_string_def Let_def)
qed

end
