(* ===== verification/DataInput.thy ===== *)
theory DataInput
  imports DataOutput
begin

text \<open>
  Reading of serialized objects: the loads of \<^verbatim>\<open>internal/serialization/buffer_util.go\<close> and the type
  \<^verbatim>\<open>ObjectDataInput\<close> of \<^verbatim>\<open>internal/serialization/object_data.go\<close>. A method returns the value and the
  input with its position moved, or the panic it ends in. The bytes between length and capacity of
  the buffer are a field of their own, since a slice expression may reach into them.
\<close>

section \<open>Loads from a buffer\<close>

definition buf_ReadInt32 :: "byte list \<Rightarrow> i32 \<Rightarrow> byte_order \<Rightarrow> i32 go" where
  "buf_ReadInt32 buf pos bo = get_uint bo 4 buf (sint pos)"

definition buf_ReadFloat32 :: "byte list \<Rightarrow> i32 \<Rightarrow> byte_order \<Rightarrow> float32 go" where
  "buf_ReadFloat32 buf pos bo = bind_go (get_uint bo 4 buf (sint pos)) (\<lambda>w. Inr (Float32 w))"

definition buf_ReadFloat64 :: "byte list \<Rightarrow> i32 \<Rightarrow> byte_order \<Rightarrow> float64 go" where
  "buf_ReadFloat64 buf pos bo = bind_go (get_uint bo 8 buf (sint pos)) (\<lambda>w. Inr (Float64 w))"

definition buf_ReadBool :: "byte list \<Rightarrow> i32 \<Rightarrow> bool go" where
  "buf_ReadBool buf pos = bind_go (go_index buf (sint pos)) (\<lambda>b. Inr (b = 1))"

definition buf_ReadUInt16 :: "byte list \<Rightarrow> i32 \<Rightarrow> byte_order \<Rightarrow> 16 word go" where
  "buf_ReadUInt16 buf pos bo = get_uint bo 2 buf (sint pos)"

definition buf_ReadInt16 :: "byte list \<Rightarrow> i32 \<Rightarrow> byte_order \<Rightarrow> i16 go" where
  "buf_ReadInt16 buf pos bo = get_uint bo 2 buf (sint pos)"

definition buf_ReadInt64 :: "byte list \<Rightarrow> i32 \<Rightarrow> byte_order \<Rightarrow> i64 go" where
  "buf_ReadInt64 buf pos bo = get_uint bo 8 buf (sint pos)"

section \<open>The input\<close>

record data_input =
  i_bo :: byte_order
  i_buffer :: "byte list"
  i_spare :: "byte list"
  i_offset :: i32
  i_position :: i32

definition NewObjectDataInput :: "byte list option \<Rightarrow> byte list \<Rightarrow> i32 \<Rightarrow> bool \<Rightarrow> data_input" where
  "NewObjectDataInput buffer spare offset bigEndian =
     \<lparr>i_bo = (if bigEndian then BigEndian else LittleEndian),
      i_buffer = (case buffer of None \<Rightarrow> [] | Some b \<Rightarrow> b), i_spare = spare,
      i_offset = offset, i_position = offset\<rparr>"

definition in_Available :: "data_input \<Rightarrow> i32" where
  "in_Available inp = word_of_nat (length (i_buffer inp)) - i_position inp"

definition AssertAvailable :: "int \<Rightarrow> data_input \<Rightarrow> unit go" where
  "AssertAvailable k inp =
     (if sint (i_position inp) < 0 then Inl NegativePositionError
      else if int (length (i_buffer inp)) < sint (i_position inp) + k then Inl EOFError
      else Inr ())"

definition in_SetPosition :: "i32 \<Rightarrow> data_input \<Rightarrow> data_input go" where
  "in_SetPosition pos inp =
     (if sint pos < 0 then Inl NegativePositionError
      else if int (length (i_buffer inp)) < sint pos then Inl EOFError
      else Inr (inp\<lparr>i_position := pos\<rparr>))"

definition advance :: "i32 \<Rightarrow> data_input \<Rightarrow> data_input" where
  "advance n inp = inp\<lparr>i_position := i_position inp + n\<rparr>"

text \<open>The value read, with the input moved past it.\<close>

definition took :: "i32 \<Rightarrow> data_input \<Rightarrow> 'a \<Rightarrow> ('a \<times> data_input) go" where
  "took n inp v = Inr (v, advance n inp)"

definition readByte :: "data_input \<Rightarrow> (byte \<times> data_input) go" where
  "readByte inp = bind_go (go_index (i_buffer inp) (sint (i_position inp))) (took 1 inp)"

definition readSignedByte :: "data_input \<Rightarrow> (byte \<times> data_input) go" where
  "readSignedByte inp = bind_go (go_index (i_buffer inp) (sint (i_position inp))) (took 1 inp)"

definition ReadByte :: "data_input \<Rightarrow> (byte \<times> data_input) go" where
  "ReadByte inp = bind_go (AssertAvailable 1 inp) (\<lambda>_. readByte inp)"

definition ReadSignedByte :: "data_input \<Rightarrow> (byte \<times> data_input) go" where
  "ReadSignedByte inp = bind_go (AssertAvailable 1 inp) (\<lambda>_. readSignedByte inp)"

definition ReadByteAtPosition :: "i32 \<Rightarrow> data_input \<Rightarrow> byte go" where
  "ReadByteAtPosition pos inp = go_index (i_buffer inp) (sint pos)"

definition ReadSignedByteAtPosition :: "i32 \<Rightarrow> data_input \<Rightarrow> byte go" where
  "ReadSignedByteAtPosition pos inp = go_index (i_buffer inp) (sint pos)"

definition readBool :: "data_input \<Rightarrow> (bool \<times> data_input) go" where
  "readBool inp = bind_go (buf_ReadBool (i_buffer inp) (i_position inp)) (took 1 inp)"

definition ReadBool :: "data_input \<Rightarrow> (bool \<times> data_input) go" where
  "ReadBool inp = bind_go (AssertAvailable 1 inp) (\<lambda>_. readBool inp)"

definition ReadBoolAtPosition :: "i32 \<Rightarrow> data_input \<Rightarrow> bool go" where
  "ReadBoolAtPosition pos inp = buf_ReadBool (i_buffer inp) pos"

definition ReadUInt16 :: "data_input \<Rightarrow> (16 word \<times> data_input) go" where
  "ReadUInt16 inp = bind_go (AssertAvailable 2 inp)
     (\<lambda>_. bind_go (buf_ReadUInt16 (i_buffer inp) (i_position inp) (i_bo inp)) (took 2 inp))"

definition ReadUInt16AtPosition :: "i32 \<Rightarrow> data_input \<Rightarrow> 16 word go" where
  "ReadUInt16AtPosition pos inp = buf_ReadUInt16 (i_buffer inp) pos (i_bo inp)"

definition ReadInt16 :: "data_input \<Rightarrow> (i16 \<times> data_input) go" where
  "ReadInt16 inp = bind_go (AssertAvailable 2 inp)
     (\<lambda>_. bind_go (buf_ReadInt16 (i_buffer inp) (i_position inp) (i_bo inp)) (took 2 inp))"

definition ReadInt16AtPosition :: "i32 \<Rightarrow> data_input \<Rightarrow> i16 go" where
  "ReadInt16AtPosition pos inp = buf_ReadInt16 (i_buffer inp) pos (i_bo inp)"

definition readInt32 :: "data_input \<Rightarrow> (i32 \<times> data_input) go" where
  "readInt32 inp = bind_go (AssertAvailable 4 inp)
     (\<lambda>_. bind_go (buf_ReadInt32 (i_buffer inp) (i_position inp) (i_bo inp)) (took 4 inp))"

definition ReadInt32 :: "data_input \<Rightarrow> (i32 \<times> data_input) go" where
  "ReadInt32 inp = readInt32 inp"

definition ReadInt32AtPosition :: "i32 \<Rightarrow> data_input \<Rightarrow> i32 go" where
  "ReadInt32AtPosition pos inp = buf_ReadInt32 (i_buffer inp) pos (i_bo inp)"

definition ReadInt64 :: "data_input \<Rightarrow> (i64 \<times> data_input) go" where
  "ReadInt64 inp = bind_go (AssertAvailable 8 inp)
     (\<lambda>_. bind_go (buf_ReadInt64 (i_buffer inp) (i_position inp) (i_bo inp)) (took 8 inp))"

definition ReadInt64AtPosition :: "i32 \<Rightarrow> data_input \<Rightarrow> i64 go" where
  "ReadInt64AtPosition pos inp = buf_ReadInt64 (i_buffer inp) pos (i_bo inp)"

definition ReadFloat32 :: "data_input \<Rightarrow> (float32 \<times> data_input) go" where
  "ReadFloat32 inp = bind_go (AssertAvailable 4 inp)
     (\<lambda>_. bind_go (buf_ReadFloat32 (i_buffer inp) (i_position inp) (i_bo inp)) (took 4 inp))"

definition ReadFloat32AtPosition :: "i32 \<Rightarrow> data_input \<Rightarrow> float32 go" where
  "ReadFloat32AtPosition pos inp = buf_ReadFloat32 (i_buffer inp) pos (i_bo inp)"

definition ReadFloat64 :: "data_input \<Rightarrow> (float64 \<times> data_input) go" where
  "ReadFloat64 inp = bind_go (AssertAvailable 8 inp)
     (\<lambda>_. bind_go (buf_ReadFloat64 (i_buffer inp) (i_position inp) (i_bo inp)) (took 8 inp))"

definition ReadFloat64AtPosition :: "i32 \<Rightarrow> data_input \<Rightarrow> float64 go" where
  "ReadFloat64AtPosition pos inp = buf_ReadFloat64 (i_buffer inp) pos (i_bo inp)"

text \<open>The slice bounds are 32-bit sums; the slice is taken without a check of the available bytes.\<close>

definition ReadString :: "data_input \<Rightarrow> (gostring \<times> data_input) go" where
  "ReadString inp = bind_go (readInt32 inp)
     (\<lambda>(sz, inp). if sz = nilArrayLength then Inr ([], inp)
        else bind_go (go_slice (i_buffer inp) (i_spare inp) (sint (i_position inp)) (sint (i_position inp + sz)))
               (took sz inp))"

definition ReadStringAtPosition :: "i32 \<Rightarrow> data_input \<Rightarrow> gostring go" where
  "ReadStringAtPosition pos inp = bind_go (ReadInt32AtPosition pos inp)
     (\<lambda>sz. if sz = nilArrayLength then Inr []
        else let pos' = pos + 4
             in go_slice (i_buffer inp) (i_spare inp) (sint pos') (sint (pos' + sz)))"

section \<open>Arrays\<close>

definition ReadByteArray :: "data_input \<Rightarrow> (byte list option \<times> data_input) go" where
  "ReadByteArray inp = bind_go (readInt32 inp)
     (\<lambda>(len, inp). if len = nilArrayLength then Inr (None, inp)
        else bind_go (go_slice (i_buffer inp) (i_spare inp) (sint (i_position inp)) (sint (i_position inp + len)))
               (\<lambda>arr. took len inp (Some arr)))"

text \<open>The other array methods: the length, \<open>make\<close>, and each element with the method for its type.\<close>

definition read_array ::
  "(data_input \<Rightarrow> ('a \<times> data_input) go) \<Rightarrow> data_input \<Rightarrow> ('a list option \<times> data_input) go" where
  "read_array rd inp = bind_go (readInt32 inp)
     (\<lambda>(len, inp). if len = nilArrayLength then Inr (None, inp)
        else if sint len < 0 then Inl MakeSliceLenOutOfRange
        else bind_go (read_times (nat (sint len)) rd inp) (\<lambda>(arr, inp). Inr (Some arr, inp)))"

text \<open>\<open>...AtPosition\<close>: the array method from another position; the position is put back afterwards.\<close>

definition array_at_position ::
  "(data_input \<Rightarrow> ('a list option \<times> data_input) go) \<Rightarrow> i32 \<Rightarrow> data_input \<Rightarrow> ('a list option \<times> data_input) go" where
  "array_at_position rd pos inp =
     (let backupPos = i_position inp
      in bind_go (rd (inp\<lparr>i_position := pos\<rparr>)) (\<lambda>(arr, inp). Inr (arr, inp\<lparr>i_position := backupPos\<rparr>)))"

definition ReadByteArrayAtPosition :: "i32 \<Rightarrow> data_input \<Rightarrow> (byte list option \<times> data_input) go" where
  "ReadByteArrayAtPosition = array_at_position ReadByteArray"

definition ReadInt8Array :: "data_input \<Rightarrow> (byte list option \<times> data_input) go" where
  "ReadInt8Array = read_array ReadSignedByte"

definition ReadBoolArray :: "data_input \<Rightarrow> (bool list option \<times> data_input) go" where
  "ReadBoolArray = read_array ReadBool"

definition ReadBoolArrayAtPosition :: "i32 \<Rightarrow> data_input \<Rightarrow> (bool list option \<times> data_input) go" where
  "ReadBoolArrayAtPosition = array_at_position ReadBoolArray"

definition ReadUInt16Array :: "data_input \<Rightarrow> (16 word list option \<times> data_input) go" where
  "ReadUInt16Array = read_array ReadUInt16"

definition ReadUInt16ArrayAtPosition :: "i32 \<Rightarrow> data_input \<Rightarrow> (16 word list option \<times> data_input) go" where
  "ReadUInt16ArrayAtPosition = array_at_position ReadUInt16Array"

definition ReadInt16Array :: "data_input \<Rightarrow> (i16 list option \<times> data_input) go" where
  "ReadInt16Array = read_array ReadInt16"

definition ReadInt16ArrayAtPosition :: "i32 \<Rightarrow> data_input \<Rightarrow> (i16 list option \<times> data_input) go" where
  "ReadInt16ArrayAtPosition = array_at_position ReadInt16Array"

definition ReadInt32Array :: "data_input \<Rightarrow> (i32 list option \<times> data_input) go" where
  "ReadInt32Array = read_array ReadInt32"

definition ReadInt32ArrayAtPosition :: "i32 \<Rightarrow> data_input \<Rightarrow> (i32 list option \<times> data_input) go" where
  "ReadInt32ArrayAtPosition = array_at_position ReadInt32Array"

definition ReadInt64Array :: "data_input \<Rightarrow> (i64 list option \<times> data_input) go" where
  "ReadInt64Array = read_array ReadInt64"

definition ReadInt64ArrayAtPosition :: "i32 \<Rightarrow> data_input \<Rightarrow> (i64 list option \<times> data_input) go" where
  "ReadInt64ArrayAtPosition = array_at_position ReadInt64Array"

definition ReadFloat32Array :: "data_input \<Rightarrow> (float32 list option \<times> data_input) go" where
  "ReadFloat32Array = read_array ReadFloat32"

definition ReadFloat32ArrayAtPosition :: "i32 \<Rightarrow> data_input \<Rightarrow> (float32 list option \<times> data_input) go" where
  "ReadFloat32ArrayAtPosition = array_at_position ReadFloat32Array"

definition ReadFloat64Array :: "data_input \<Rightarrow> (float64 list option \<times> data_input) go" where
  "ReadFloat64Array = read_array ReadFloat64"

definition ReadFloat64ArrayAtPosition :: "i32 \<Rightarrow> data_input \<Rightarrow> (float64 list option \<times> data_input) go" where
  "ReadFloat64ArrayAtPosition = array_at_position ReadFloat64Array"

definition ReadStringArray :: "data_input \<Rightarrow> (gostring list option \<times> data_input) go" where
  "ReadStringArray = read_array ReadString"

definition ReadStringArrayAtPosition :: "i32 \<Rightarrow> data_input \<Rightarrow> (gostring list option \<times> data_input) go" where
  "ReadStringArrayAtPosition = array_at_position ReadStringArray"

section \<open>Every read consumes an encoding\<close>

text \<open>
  What is left to read is the buffer from the position. A read method that finds the encoding of a
  value at the front of it returns that value and moves behind the encoding.
\<close>

definition in_wf :: "data_input \<Rightarrow> bool" where
  "in_wf inp \<longleftrightarrow> 0 \<le> sint (i_position inp) \<and> sint (i_position inp) \<le> int (length (i_buffer inp))
     \<and> length (i_buffer inp) < 2 ^ 31"

definition in_rest :: "data_input \<Rightarrow> byte list" where
  "in_rest inp = drop (nat (sint (i_position inp))) (i_buffer inp)"

definition reads :: "(data_input \<Rightarrow> ('a \<times> data_input) go) \<Rightarrow> (byte_order \<Rightarrow> byte list) \<Rightarrow> 'a \<Rightarrow> bool" where
  "reads rd bs v \<longleftrightarrow> (\<forall>inp rest. in_wf inp \<longrightarrow> in_rest inp = bs (i_bo inp) @ rest \<longrightarrow>
     rd inp = Inr (v, advance (word_of_nat (length (bs (i_bo inp)))) inp))"

lemma NewObjectDataInput_wf [simp]:
  "length b < 2 ^ 31 \<Longrightarrow> in_wf (NewObjectDataInput (Some b) sp 0 be)"
  "in_wf (NewObjectDataInput None sp 0 be)"
  "in_rest (NewObjectDataInput (Some b) sp 0 be) = b"
  "in_rest (NewObjectDataInput None sp 0 be) = []"
  "i_bo (NewObjectDataInput bo sp 0 be) = (if be then BigEndian else LittleEndian)"
  by (simp_all add: in_wf_def in_rest_def NewObjectDataInput_def)

lemma in_rest_length:
  "in_wf inp \<Longrightarrow> in_rest inp = bs @ rest \<Longrightarrow> sint (i_position inp) + int (length bs) \<le> int (length (i_buffer inp))"
proof -
  assume wf: "in_wf inp" and r: "in_rest inp = bs @ rest"
  have "length (in_rest inp) = length (i_buffer inp) - nat (sint (i_position inp))" by (simp add: in_rest_def)
  with wf r show ?thesis by (auto simp: in_wf_def)
qed

lemma sint_advance:
  assumes "in_wf inp" "in_rest inp = bs @ rest"
  shows "sint (i_position inp + word_of_nat (length bs)) = sint (i_position inp) + int (length bs)"
proof -
  have l: "sint (i_position inp) + int (length bs) \<le> int (length (i_buffer inp))"
    using assms by (rule in_rest_length)
  with assms(1) have "length bs < 2 ^ 31" by (simp add: in_wf_def)
  then have "sint (word_of_nat (length bs) :: i32) = int (length bs)" by (rule sint32_of_nat)
  with l assms(1) show ?thesis by (simp add: sint32_add in_wf_def)
qed

lemma advance_bo [simp]: "i_bo (advance n inp) = i_bo inp" "i_buffer (advance n inp) = i_buffer inp"
    "i_spare (advance n inp) = i_spare inp" "i_offset (advance n inp) = i_offset inp"
  by (simp_all add: advance_def)

lemma advance_advance [simp]: "advance m (advance n inp) = advance (n + m) inp"
  by (simp add: advance_def add.assoc)

lemma advance_0 [simp]: "advance 0 inp = inp"
  by (simp add: advance_def)

lemma advance_consumes:
  assumes "in_wf inp" "in_rest inp = bs @ rest"
  shows "in_wf (advance (word_of_nat (length bs)) inp)"
    and "in_rest (advance (word_of_nat (length bs)) inp) = rest"
proof -
  have "drop (length bs) (in_rest inp) = rest" by (simp add: assms(2))
  with sint_advance [OF assms] in_rest_length [OF assms] assms(1)
  show "in_wf (advance (word_of_nat (length bs)) inp)" "in_rest (advance (word_of_nat (length bs)) inp) = rest"
    by (auto simp: in_wf_def in_rest_def advance_def nat_add_distrib add.commute)
qed

lemma reads_Inr: "reads (\<lambda>inp. Inr (v, inp)) (\<lambda>_. []) v"
  by (simp add: reads_def)

lemma reads_bind:
  assumes "reads rd bs v" "reads (rd' v) bs' v'"
  shows "reads (\<lambda>inp. bind_go (rd inp) (\<lambda>(x, inp). rd' x inp)) (\<lambda>bo. bs bo @ bs' bo) v'"
  unfolding reads_def
proof (intro allI impI)
  fix inp rest assume wf: "in_wf inp" and r: "in_rest inp = (bs (i_bo inp) @ bs' (i_bo inp)) @ rest"
  then have r': "in_rest inp = bs (i_bo inp) @ bs' (i_bo inp) @ rest" by simp
  have "rd inp = Inr (v, advance (word_of_nat (length (bs (i_bo inp)))) inp)"
    using assms(1) wf r' by (auto simp: reads_def)
  moreover have "rd' v (advance (word_of_nat (length (bs (i_bo inp)))) inp)
      = Inr (v', advance (word_of_nat (length (bs' (i_bo inp)))) (advance (word_of_nat (length (bs (i_bo inp)))) inp))"
    using assms(2) advance_consumes [OF wf r'] by (simp add: reads_def)
  ultimately show "bind_go (rd inp) (\<lambda>(x, inp). rd' x inp)
      = Inr (v', advance (word_of_nat (length (bs (i_bo inp) @ bs' (i_bo inp)))) inp)"
    by simp
qed

lemma reads_map:
  "reads rd bs v \<Longrightarrow> reads (\<lambda>inp. bind_go (rd inp) (\<lambda>(x, inp). Inr (f x, inp))) bs (f v)"
  by (simp add: reads_def)

lemma reads_times_map:
  "(\<And>x. x \<in> set xs \<Longrightarrow> reads rd (\<lambda>bo. enc bo x) (f x)) \<Longrightarrow>
   reads (read_times (length xs) rd) (\<lambda>bo. concat (map (enc bo) xs)) (map f xs)"
proof (induction xs)
  case Nil
  then show ?case by (simp add: reads_def)
next
  case (Cons x xs)
  have "reads (\<lambda>inp. bind_go (rd inp) (\<lambda>(y, inp). bind_go (read_times (length xs) rd inp) (\<lambda>(ys, inp). Inr (y # ys, inp))))
          (\<lambda>bo. enc bo x @ concat (map (enc bo) xs)) (f x # map f xs)"
    using Cons by (intro reads_bind [where v = "f x"] reads_map [where f = "(#) (f x)"]) auto
  moreover have "read_times (length (x # xs)) rd =
      (\<lambda>inp. bind_go (rd inp) (\<lambda>(y, inp). bind_go (read_times (length xs) rd inp) (\<lambda>(ys, inp). Inr (y # ys, inp))))"
    by (rule ext) simp
  ultimately show ?case by simp
qed

lemmas reads_times = reads_times_map [where f = "\<lambda>x. x", simplified]

section \<open>The methods\<close>

named_theorems reads_intros \<open>what each read method makes of an encoding\<close>

lemma AssertAvailable_ok:
  "in_wf inp \<Longrightarrow> in_rest inp = bs @ rest \<Longrightarrow> length bs = n \<Longrightarrow> AssertAvailable (int n) inp = Inr ()"
  using in_rest_length [of inp bs rest] by (auto simp: AssertAvailable_def in_wf_def)

lemma get_uint_reads:
  assumes "LENGTH('a) \<le> 8 * n"
  shows "reads (\<lambda>inp. bind_go (AssertAvailable (int n) inp)
            (\<lambda>_. bind_go (get_uint (i_bo inp) n (i_buffer inp) (sint (i_position inp))) (took (word_of_nat n) inp)))
          (\<lambda>bo. bo_bytes bo n (v :: 'a::len word)) v"
  unfolding reads_def
proof (intro allI impI)
  fix inp rest assume wf: "in_wf inp" and r: "in_rest inp = bo_bytes (i_bo inp) n v @ rest"
  then have l: "sint (i_position inp) + int n \<le> int (length (i_buffer inp))"
    using in_rest_length [OF wf r] by simp
  have "take n (drop (nat (sint (i_position inp))) (i_buffer inp)) = bo_bytes (i_bo inp) n v"
    using r by (simp add: in_rest_def)
  with wf l assms have "get_uint (i_bo inp) n (i_buffer inp) (sint (i_position inp)) = Inr v"
    by (subst get_uint_ok) (auto simp: in_wf_def)
  moreover have "AssertAvailable (int n) inp = Inr ()"
    using wf r by (rule AssertAvailable_ok) simp
  ultimately show "bind_go (AssertAvailable (int n) inp)
      (\<lambda>_. bind_go (get_uint (i_bo inp) n (i_buffer inp) (sint (i_position inp))) (took (word_of_nat n) inp))
      = Inr (v, advance (word_of_nat (length (bo_bytes (i_bo inp) n v))) inp)"
    by (simp add: took_def)
qed

lemma index_reads:
  "reads (\<lambda>inp. bind_go (AssertAvailable 1 inp)
     (\<lambda>_. bind_go (go_index (i_buffer inp) (sint (i_position inp))) (\<lambda>b. took 1 inp (f b)))) (\<lambda>_. [v]) (f v)"
  unfolding reads_def
proof (intro allI impI)
  fix inp rest assume wf: "in_wf inp" and r: "in_rest inp = [v] @ rest"
  have l: "sint (i_position inp) < int (length (i_buffer inp))" using in_rest_length [OF wf r] by simp
  with wf have n: "nat (sint (i_position inp)) < length (i_buffer inp)" by (simp add: in_wf_def nat_less_iff)
  have "i_buffer inp ! nat (sint (i_position inp)) = v"
    using r n by (metis append_Cons hd_drop_conv_nth in_rest_def list.sel(1))
  with wf l have "go_index (i_buffer inp) (sint (i_position inp)) = Inr v" by (simp add: go_index_def in_wf_def)
  moreover have "AssertAvailable 1 inp = Inr ()" using AssertAvailable_ok [OF wf r, of 1] by simp
  ultimately show "bind_go (AssertAvailable 1 inp)
     (\<lambda>_. bind_go (go_index (i_buffer inp) (sint (i_position inp))) (\<lambda>b. took 1 inp (f b)))
      = Inr (f v, advance (word_of_nat (length [v])) inp)"
    by (simp add: took_def)
qed

lemma ReadByte_reads [reads_intros]: "reads ReadByte (\<lambda>_. [v]) v"
  using index_reads [of "\<lambda>b. b" v] by (simp add: ReadByte_def [abs_def] readByte_def)

lemma ReadSignedByte_reads [reads_intros]: "reads ReadSignedByte (\<lambda>_. [v]) v"
  using index_reads [of "\<lambda>b. b" v] by (simp add: ReadSignedByte_def [abs_def] readSignedByte_def)

lemma bool_byte_eq_1 [simp]: "bool_byte v = 1 \<longleftrightarrow> v"
  by (simp add: bool_byte_def)

lemma ReadBool_reads [reads_intros]: "reads ReadBool (\<lambda>_. [bool_byte v]) v"
  using index_reads [of "\<lambda>b. b = 1" "bool_byte v"]
  by (simp add: ReadBool_def [abs_def] readBool_def buf_ReadBool_def bind_go_assoc)

lemma ReadUInt16_reads [reads_intros]: "reads ReadUInt16 (\<lambda>bo. bo_bytes bo 2 v) v"
  using get_uint_reads [of 2 v] by (simp add: ReadUInt16_def [abs_def] buf_ReadUInt16_def)

lemma ReadInt16_reads [reads_intros]: "reads ReadInt16 (\<lambda>bo. bo_bytes bo 2 v) v"
  using get_uint_reads [of 2 v] by (simp add: ReadInt16_def [abs_def] buf_ReadInt16_def)

lemma readInt32_reads [reads_intros]: "reads readInt32 (\<lambda>bo. bo_bytes bo 4 v) v"
  using get_uint_reads [of 4 v] by (simp add: readInt32_def [abs_def] buf_ReadInt32_def)

lemma ReadInt32_reads [reads_intros]: "reads ReadInt32 (\<lambda>bo. bo_bytes bo 4 v) v"
  using readInt32_reads [of v] by (simp add: ReadInt32_def [abs_def])

lemma ReadInt64_reads [reads_intros]: "reads ReadInt64 (\<lambda>bo. bo_bytes bo 8 v) v"
  using get_uint_reads [of 8 v] by (simp add: ReadInt64_def [abs_def] buf_ReadInt64_def)

lemma ReadFloat32_reads [reads_intros]: "reads ReadFloat32 (\<lambda>bo. bo_bytes bo 4 (Float32bits v)) v"
  using reads_map [OF get_uint_reads [of 4 "Float32bits v"], of Float32]
  by (simp add: ReadFloat32_def [abs_def] buf_ReadFloat32_def bind_go_assoc took_def)

lemma ReadFloat64_reads [reads_intros]: "reads ReadFloat64 (\<lambda>bo. bo_bytes bo 8 (Float64bits v)) v"
  using reads_map [OF get_uint_reads [of 8 "Float64bits v"], of Float64]
  by (simp add: ReadFloat64_def [abs_def] buf_ReadFloat64_def bind_go_assoc took_def)

text \<open>A length read back is not taken for the length of \<^verbatim>\<open>nil\<close>.\<close>

lemma sint_len: "n < 2 ^ 31 \<Longrightarrow> word_of_nat n \<noteq> nilArrayLength \<and> sint (word_of_nat n :: i32) = int n"
proof -
  assume "n < 2 ^ 31"
  then have s: "sint (word_of_nat n :: i32) = int n" by (rule sint32_of_nat)
  then have "word_of_nat n \<noteq> (- 1 :: i32)" by auto
  with s show ?thesis by (simp add: nilArrayLength_def)
qed

text \<open>The two methods that slice the buffer.\<close>

lemma slice_reads:
  "reads (\<lambda>inp. bind_go (go_slice (i_buffer inp) (i_spare inp) (sint (i_position inp))
             (sint (i_position inp + word_of_nat (length v)))) (\<lambda>s. took (word_of_nat (length v)) inp (f s)))
     (\<lambda>_. v) (f v)"
  unfolding reads_def
proof (intro allI impI)
  fix inp rest assume wf: "in_wf inp" and r: "in_rest inp = v @ rest"
  let ?p = "nat (sint (i_position inp))"
  have l: "sint (i_position inp) + int (length v) \<le> int (length (i_buffer inp))"
    using wf r by (rule in_rest_length)
  moreover have "0 \<le> sint (i_position inp)" using wf by (simp add: in_wf_def)
  ultimately have "?p + length v \<le> length (i_buffer inp)" by linarith
  then have "take (length v) (drop ?p (i_buffer inp @ i_spare inp)) = take (length v) (in_rest inp)"
    by (simp add: in_rest_def)
  with r have t: "take (length v) (drop ?p (i_buffer inp @ i_spare inp)) = v" by simp
  have "go_slice (i_buffer inp) (i_spare inp) (sint (i_position inp))
           (sint (i_position inp + word_of_nat (length v))) = Inr v"
    unfolding sint_advance [OF wf r] using wf l t by (simp add: go_slice_def in_wf_def)
  then show "bind_go (go_slice (i_buffer inp) (i_spare inp) (sint (i_position inp))
             (sint (i_position inp + word_of_nat (length v)))) (\<lambda>s. took (word_of_nat (length v)) inp (f s))
      = Inr (f v, advance (word_of_nat (length v)) inp)"
    by (simp add: took_def)
qed

text \<open>Reads that start with a length: the bytes at hand bound it.\<close>

lemma reads_len_bind:
  assumes "n < 2 ^ 31 \<Longrightarrow> reads (rd (word_of_nat n)) bs v" and "\<And>bo. n \<le> length (bs bo)"
  shows "reads (\<lambda>inp. bind_go (readInt32 inp) (\<lambda>(len, inp). rd len inp)) (\<lambda>bo. enc_len bo n @ bs bo) v"
proof (cases "n < 2 ^ 31")
  case True
  then show ?thesis
    using reads_bind [OF readInt32_reads [of "word_of_nat n"], of rd] assms(1) by (simp add: enc_len_def)
next
  case False
  show ?thesis
    unfolding reads_def
  proof (intro allI impI)
    fix inp rest assume wf: "in_wf inp" and r: "in_rest inp = (enc_len (i_bo inp) n @ bs (i_bo inp)) @ rest"
    have "int n \<le> int (length (i_buffer inp))"
      using in_rest_length [OF wf r] assms(2) [of "i_bo inp"] wf by (simp add: in_wf_def)
    with wf False show "bind_go (readInt32 inp) (\<lambda>(len, inp). rd len inp)
        = Inr (v, advance (word_of_nat (length (enc_len (i_bo inp) n @ bs (i_bo inp)))) inp)"
      by (simp add: in_wf_def)
  qed
qed

lemma ReadString_reads [reads_intros]: "reads ReadString (\<lambda>bo. enc_string bo v) v"
proof -
  have "reads (\<lambda>inp. bind_go (readInt32 inp) (\<lambda>(sz, inp). if sz = nilArrayLength then Inr ([], inp)
        else bind_go (go_slice (i_buffer inp) (i_spare inp) (sint (i_position inp)) (sint (i_position inp + sz)))
               (took sz inp))) (\<lambda>bo. enc_len bo (length v) @ v) v"
    using slice_reads [of v "\<lambda>x. x"] by (intro reads_len_bind) (simp_all add: sint_len)
  then show ?thesis by (simp add: ReadString_def [abs_def] enc_string_def)
qed

lemma nil_reads:
  "reads (\<lambda>inp. bind_go (readInt32 inp) (\<lambda>(len, inp). if len = nilArrayLength then Inr (None, inp) else rd len inp))
     (\<lambda>bo. bo_bytes bo 4 nilArrayLength) None"
  using reads_bind [OF readInt32_reads [of nilArrayLength], where bs' = "\<lambda>_. []" and v' = None
      and rd' = "\<lambda>len inp. if len = nilArrayLength then Inr (None, inp) else rd len inp"] reads_Inr [of None]
  by simp

lemma ReadByteArray_reads [reads_intros]: "reads ReadByteArray (\<lambda>bo. enc_array (\<lambda>_ b. [b]) bo v) v"
proof (cases v)
  case None
  then show ?thesis using nil_reads by (simp add: ReadByteArray_def [abs_def] enc_array_def)
next
  case (Some xs)
  have "reads (\<lambda>inp. bind_go (readInt32 inp) (\<lambda>(len, inp). if len = nilArrayLength then Inr (None, inp)
        else bind_go (go_slice (i_buffer inp) (i_spare inp) (sint (i_position inp)) (sint (i_position inp + len)))
               (\<lambda>arr. took len inp (Some arr)))) (\<lambda>bo. enc_len bo (length xs) @ xs) (Some xs)"
    using slice_reads [of xs Some] by (intro reads_len_bind) (simp_all add: sint_len)
  with Some show ?thesis by (simp add: ReadByteArray_def [abs_def] enc_array_def)
qed

lemma read_array_reads:
  assumes "\<And>x. reads rd (\<lambda>bo. enc bo x) x" and "\<And>bo x. 0 < length (enc bo x)"
  shows "reads (read_array rd) (\<lambda>bo. enc_array enc bo v) v"
proof (cases v)
  case None
  then show ?thesis using nil_reads by (simp add: read_array_def [abs_def] enc_array_def)
next
  case (Some xs)
  have len: "length xs \<le> length (concat (map (enc bo) xs))" for bo
  proof (induction xs)
    case (Cons x xs)
    moreover have "1 \<le> length (enc bo x)" using assms(2) [of bo x] by linarith
    ultimately show ?case by simp
  qed simp
  have "reads (\<lambda>inp. bind_go (readInt32 inp) (\<lambda>(len, inp). if len = nilArrayLength then Inr (None, inp)
        else if sint len < 0 then Inl MakeSliceLenOutOfRange
        else bind_go (read_times (nat (sint len)) rd inp) (\<lambda>(arr, inp). Inr (Some arr, inp))))
      (\<lambda>bo. enc_len bo (length xs) @ concat (map (enc bo) xs)) (Some xs)"
    using reads_map [OF reads_times [OF assms(1)], of xs Some] len
    by (intro reads_len_bind) (simp_all add: sint_len)
  with Some show ?thesis by (simp add: read_array_def [abs_def] enc_array_def)
qed

end
