(* ===== verification/ObjectData.thy ===== *)
theory ObjectData
  imports DataInput
begin

text \<open>
  \<^verbatim>\<open>internal/serialization/object_data.go\<close> as a wire format. The contract of a pair of write and read
  methods is a locale; round trips of single values, of arrays and of whole sequences of fields are
  proved in it once, and each pair of methods of \<^verbatim>\<open>ObjectDataOutput\<close> and \<^verbatim>\<open>ObjectDataInput\<close> is an
  interpretation.
\<close>

section \<open>The contract of a write and a read method\<close>

locale wire_codec =
  fixes wr :: "'a \<Rightarrow> data_output \<Rightarrow> data_output go"
    and rd :: "data_input \<Rightarrow> ('a \<times> data_input) go"
    and enc :: "byte_order \<Rightarrow> 'a \<Rightarrow> byte list"
  assumes wr_appends: "appends (wr x) (\<lambda>bo. enc bo x)"
    and rd_reads: "reads rd (\<lambda>bo. enc bo x) x"
    and enc_nonempty: "0 < length (enc bo x)"
begin

lemma array_wire: "wire_codec (write_array wr) (read_array rd) (enc_array enc)"
proof
  show "appends (write_array wr v) (\<lambda>bo. enc_array enc bo v)" for v
    by (rule write_array_appends [OF wr_appends])
  show "reads (read_array rd) (\<lambda>bo. enc_array enc bo v) v" for v
    by (rule read_array_reads [OF rd_reads enc_nonempty])
  show "0 < length (enc_array enc bo v)" for bo v
    by simp
qed

end

interpretation byte_wire: wire_codec WriteByte ReadByte "\<lambda>_ v. [v]"
  by unfold_locales (auto intro: appends_intros reads_intros)

interpretation signedByte_wire: wire_codec WriteSignedByte ReadSignedByte "\<lambda>_ v. [v]"
  by unfold_locales (auto intro: appends_intros reads_intros)

interpretation bool_wire: wire_codec WriteBool ReadBool "\<lambda>_ v. [bool_byte v]"
  by unfold_locales (auto intro: appends_intros reads_intros)

interpretation uInt16_wire: wire_codec WriteUInt16 ReadUInt16 "\<lambda>bo v. bo_bytes bo 2 v"
  by unfold_locales (auto intro: appends_intros reads_intros)

interpretation int16_wire: wire_codec WriteInt16 ReadInt16 "\<lambda>bo v. bo_bytes bo 2 v"
  by unfold_locales (auto intro: appends_intros reads_intros)

interpretation int32_wire: wire_codec WriteInt32 ReadInt32 "\<lambda>bo v. bo_bytes bo 4 v"
  by unfold_locales (auto intro: appends_intros reads_intros)

interpretation int64_wire: wire_codec WriteInt64 ReadInt64 "\<lambda>bo v. bo_bytes bo 8 v"
  by unfold_locales (auto intro: appends_intros reads_intros)

interpretation float32_wire: wire_codec WriteFloat32 ReadFloat32 "\<lambda>bo v. bo_bytes bo 4 (Float32bits v)"
  by unfold_locales (auto intro: appends_intros reads_intros)

interpretation float64_wire: wire_codec WriteFloat64 ReadFloat64 "\<lambda>bo v. bo_bytes bo 8 (Float64bits v)"
  by unfold_locales (auto intro: appends_intros reads_intros)

interpretation string_wire: wire_codec WriteString ReadString "enc_string"
  by unfold_locales (auto intro: appends_intros reads_intros)

interpretation int8Array_wire: wire_codec WriteInt8Array ReadInt8Array "enc_array (\<lambda>_ v. [v])"
  using WriteInt8Array_appends read_array_reads [OF ReadSignedByte_reads]
  by unfold_locales (simp_all add: ReadInt8Array_def)

interpretation byteArray_wire: wire_codec WriteByteArray ReadByteArray "enc_array (\<lambda>_ v. [v])"
  by unfold_locales (auto intro: appends_intros reads_intros)

interpretation boolArray_wire: wire_codec WriteBoolArray ReadBoolArray "enc_array (\<lambda>_ v. [bool_byte v])"
  using WriteBoolArray_appends read_array_reads [OF ReadBool_reads]
  by unfold_locales (simp_all add: ReadBoolArray_def)

interpretation uInt16Array_wire: wire_codec WriteUInt16Array ReadUInt16Array "enc_array (\<lambda>bo v. bo_bytes bo 2 v)"
  using uInt16_wire.array_wire by (simp add: WriteUInt16Array_def ReadUInt16Array_def)

interpretation int16Array_wire: wire_codec WriteInt16Array ReadInt16Array "enc_array (\<lambda>bo v. bo_bytes bo 2 v)"
  using int16_wire.array_wire by (simp add: WriteInt16Array_def ReadInt16Array_def)

interpretation int32Array_wire: wire_codec WriteInt32Array ReadInt32Array "enc_array (\<lambda>bo v. bo_bytes bo 4 v)"
  using int32_wire.array_wire by (simp add: WriteInt32Array_def ReadInt32Array_def)

interpretation int64Array_wire: wire_codec WriteInt64Array ReadInt64Array "enc_array (\<lambda>bo v. bo_bytes bo 8 v)"
  using int64_wire.array_wire by (simp add: WriteInt64Array_def ReadInt64Array_def)

interpretation float32Array_wire: wire_codec WriteFloat32Array ReadFloat32Array "enc_array (\<lambda>bo v. bo_bytes bo 4 (Float32bits v))"
  using float32_wire.array_wire by (simp add: WriteFloat32Array_def ReadFloat32Array_def)

interpretation float64Array_wire: wire_codec WriteFloat64Array ReadFloat64Array "enc_array (\<lambda>bo v. bo_bytes bo 8 (Float64bits v))"
  using float64_wire.array_wire by (simp add: WriteFloat64Array_def ReadFloat64Array_def)

interpretation stringArray_wire: wire_codec WriteStringArray ReadStringArray "enc_array enc_string"
  using string_wire.array_wire by (simp add: WriteStringArray_def ReadStringArray_def)

section \<open>Sequences of fields\<close>

text \<open>
  A serializer is a sequence of write calls, its counterpart the sequence of read calls of the same
  kinds. A value here is one call with its argument.
\<close>

datatype wire_kind =
    KByte | KSignedByte | KBool | KUInt16 | KInt16 | KInt32 | KInt64
  | KFloat32 | KFloat64 | KString | KInt8Array | KByteArray | KBoolArray | KUInt16Array
  | KInt16Array | KInt32Array | KInt64Array | KFloat32Array | KFloat64Array | KStringArray

datatype wire_value =
    VByte byte
  | VSignedByte byte
  | VBool bool
  | VUInt16 "16 word"
  | VInt16 i16
  | VInt32 i32
  | VInt64 i64
  | VFloat32 float32
  | VFloat64 float64
  | VString gostring
  | VInt8Array "byte list option"
  | VByteArray "byte list option"
  | VBoolArray "bool list option"
  | VUInt16Array "16 word list option"
  | VInt16Array "i16 list option"
  | VInt32Array "i32 list option"
  | VInt64Array "i64 list option"
  | VFloat32Array "float32 list option"
  | VFloat64Array "float64 list option"
  | VStringArray "gostring list option"

fun kind_of :: "wire_value \<Rightarrow> wire_kind" where
  "kind_of (VByte _) = KByte"
| "kind_of (VSignedByte _) = KSignedByte"
| "kind_of (VBool _) = KBool"
| "kind_of (VUInt16 _) = KUInt16"
| "kind_of (VInt16 _) = KInt16"
| "kind_of (VInt32 _) = KInt32"
| "kind_of (VInt64 _) = KInt64"
| "kind_of (VFloat32 _) = KFloat32"
| "kind_of (VFloat64 _) = KFloat64"
| "kind_of (VString _) = KString"
| "kind_of (VInt8Array _) = KInt8Array"
| "kind_of (VByteArray _) = KByteArray"
| "kind_of (VBoolArray _) = KBoolArray"
| "kind_of (VUInt16Array _) = KUInt16Array"
| "kind_of (VInt16Array _) = KInt16Array"
| "kind_of (VInt32Array _) = KInt32Array"
| "kind_of (VInt64Array _) = KInt64Array"
| "kind_of (VFloat32Array _) = KFloat32Array"
| "kind_of (VFloat64Array _) = KFloat64Array"
| "kind_of (VStringArray _) = KStringArray"

fun write_value :: "wire_value \<Rightarrow> data_output \<Rightarrow> data_output go" where
  "write_value (VByte v) = WriteByte v"
| "write_value (VSignedByte v) = WriteSignedByte v"
| "write_value (VBool v) = WriteBool v"
| "write_value (VUInt16 v) = WriteUInt16 v"
| "write_value (VInt16 v) = WriteInt16 v"
| "write_value (VInt32 v) = WriteInt32 v"
| "write_value (VInt64 v) = WriteInt64 v"
| "write_value (VFloat32 v) = WriteFloat32 v"
| "write_value (VFloat64 v) = WriteFloat64 v"
| "write_value (VString v) = WriteString v"
| "write_value (VInt8Array v) = WriteInt8Array v"
| "write_value (VByteArray v) = WriteByteArray v"
| "write_value (VBoolArray v) = WriteBoolArray v"
| "write_value (VUInt16Array v) = WriteUInt16Array v"
| "write_value (VInt16Array v) = WriteInt16Array v"
| "write_value (VInt32Array v) = WriteInt32Array v"
| "write_value (VInt64Array v) = WriteInt64Array v"
| "write_value (VFloat32Array v) = WriteFloat32Array v"
| "write_value (VFloat64Array v) = WriteFloat64Array v"
| "write_value (VStringArray v) = WriteStringArray v"

definition read_as :: "('a \<Rightarrow> 'b) \<Rightarrow> (data_input \<Rightarrow> ('a \<times> data_input) go) \<Rightarrow> data_input \<Rightarrow> ('b \<times> data_input) go" where
  "read_as f rd inp = bind_go (rd inp) (\<lambda>(x, inp). Inr (f x, inp))"

fun read_value :: "wire_kind \<Rightarrow> data_input \<Rightarrow> (wire_value \<times> data_input) go" where
  "read_value KByte = read_as VByte ReadByte"
| "read_value KSignedByte = read_as VSignedByte ReadSignedByte"
| "read_value KBool = read_as VBool ReadBool"
| "read_value KUInt16 = read_as VUInt16 ReadUInt16"
| "read_value KInt16 = read_as VInt16 ReadInt16"
| "read_value KInt32 = read_as VInt32 ReadInt32"
| "read_value KInt64 = read_as VInt64 ReadInt64"
| "read_value KFloat32 = read_as VFloat32 ReadFloat32"
| "read_value KFloat64 = read_as VFloat64 ReadFloat64"
| "read_value KString = read_as VString ReadString"
| "read_value KInt8Array = read_as VInt8Array ReadInt8Array"
| "read_value KByteArray = read_as VByteArray ReadByteArray"
| "read_value KBoolArray = read_as VBoolArray ReadBoolArray"
| "read_value KUInt16Array = read_as VUInt16Array ReadUInt16Array"
| "read_value KInt16Array = read_as VInt16Array ReadInt16Array"
| "read_value KInt32Array = read_as VInt32Array ReadInt32Array"
| "read_value KInt64Array = read_as VInt64Array ReadInt64Array"
| "read_value KFloat32Array = read_as VFloat32Array ReadFloat32Array"
| "read_value KFloat64Array = read_as VFloat64Array ReadFloat64Array"
| "read_value KStringArray = read_as VStringArray ReadStringArray"

fun enc_value :: "byte_order \<Rightarrow> wire_value \<Rightarrow> byte list" where
  "enc_value bo (VByte v) = [v]"
| "enc_value bo (VSignedByte v) = [v]"
| "enc_value bo (VBool v) = [bool_byte v]"
| "enc_value bo (VUInt16 v) = bo_bytes bo 2 v"
| "enc_value bo (VInt16 v) = bo_bytes bo 2 v"
| "enc_value bo (VInt32 v) = bo_bytes bo 4 v"
| "enc_value bo (VInt64 v) = bo_bytes bo 8 v"
| "enc_value bo (VFloat32 v) = bo_bytes bo 4 (Float32bits v)"
| "enc_value bo (VFloat64 v) = bo_bytes bo 8 (Float64bits v)"
| "enc_value bo (VString v) = enc_string bo v"
| "enc_value bo (VInt8Array v) = enc_array (\<lambda>_ v. [v]) bo v"
| "enc_value bo (VByteArray v) = enc_array (\<lambda>_ v. [v]) bo v"
| "enc_value bo (VBoolArray v) = enc_array (\<lambda>_ v. [bool_byte v]) bo v"
| "enc_value bo (VUInt16Array v) = enc_array (\<lambda>bo v. bo_bytes bo 2 v) bo v"
| "enc_value bo (VInt16Array v) = enc_array (\<lambda>bo v. bo_bytes bo 2 v) bo v"
| "enc_value bo (VInt32Array v) = enc_array (\<lambda>bo v. bo_bytes bo 4 v) bo v"
| "enc_value bo (VInt64Array v) = enc_array (\<lambda>bo v. bo_bytes bo 8 v) bo v"
| "enc_value bo (VFloat32Array v) = enc_array (\<lambda>bo v. bo_bytes bo 4 (Float32bits v)) bo v"
| "enc_value bo (VFloat64Array v) = enc_array (\<lambda>bo v. bo_bytes bo 8 (Float64bits v)) bo v"
| "enc_value bo (VStringArray v) = enc_array enc_string bo v"

primrec read_values :: "wire_kind list \<Rightarrow> data_input \<Rightarrow> (wire_value list \<times> data_input) go" where
  "read_values [] inp = Inr ([], inp)"
| "read_values (k # ks) inp =
     bind_go (read_value k inp) (\<lambda>(v, inp). bind_go (read_values ks inp) (\<lambda>(vs, inp). Inr (v # vs, inp)))"

lemma write_value_appends: "appends (write_value v) (\<lambda>bo. enc_value bo v)"
  by (cases v) (simp_all add: byte_wire.wr_appends
    signedByte_wire.wr_appends
    bool_wire.wr_appends
    uInt16_wire.wr_appends
    int16_wire.wr_appends
    int32_wire.wr_appends
    int64_wire.wr_appends
    float32_wire.wr_appends
    float64_wire.wr_appends
    string_wire.wr_appends
    int8Array_wire.wr_appends
    byteArray_wire.wr_appends
    boolArray_wire.wr_appends
    uInt16Array_wire.wr_appends
    int16Array_wire.wr_appends
    int32Array_wire.wr_appends
    int64Array_wire.wr_appends
    float32Array_wire.wr_appends
    float64Array_wire.wr_appends
    stringArray_wire.wr_appends)

lemma read_as_reads: "reads rd bs v \<Longrightarrow> reads (read_as f rd) bs (f v)"
  using reads_map by (simp add: read_as_def [abs_def])

lemma read_value_reads: "reads (read_value (kind_of v)) (\<lambda>bo. enc_value bo v) v"
  by (cases v) (auto intro!: read_as_reads byte_wire.rd_reads
    signedByte_wire.rd_reads
    bool_wire.rd_reads
    uInt16_wire.rd_reads
    int16_wire.rd_reads
    int32_wire.rd_reads
    int64_wire.rd_reads
    float32_wire.rd_reads
    float64_wire.rd_reads
    string_wire.rd_reads
    int8Array_wire.rd_reads
    byteArray_wire.rd_reads
    boolArray_wire.rd_reads
    uInt16Array_wire.rd_reads
    int16Array_wire.rd_reads
    int32Array_wire.rd_reads
    int64Array_wire.rd_reads
    float32Array_wire.rd_reads
    float64Array_wire.rd_reads
    stringArray_wire.rd_reads)

lemma read_values_reads:
  "reads (read_values (map kind_of vs)) (\<lambda>bo. concat (map (enc_value bo) vs)) vs"
proof (induction vs)
  case Nil
  then show ?case by (simp add: reads_def)
next
  case (Cons v vs)
  have "reads (\<lambda>inp. bind_go (read_value (kind_of v) inp)
            (\<lambda>(x, inp). bind_go (read_values (map kind_of vs) inp) (\<lambda>(xs, inp). Inr (x # xs, inp))))
          (\<lambda>bo. enc_value bo v @ concat (map (enc_value bo) vs)) (v # vs)"
    using Cons by (intro reads_bind [where v = v] reads_map [where f = "(#) v"] read_value_reads)
  then show ?case by (simp add: reads_def)
qed

text \<open>The bytes of a sequence of write calls on a fresh output.\<close>

lemma write_values_fresh:
  assumes "length (concat (map (enc_value (if be then BigEndian else LittleEndian)) vs)) < 2 ^ 31"
  shows "\<exists>out. for_each write_value vs (NewObjectDataOutput n be) = Inr out \<and> out_wf out
    \<and> out_data out = concat (map (enc_value (if be then BigEndian else LittleEndian)) vs)"
proof -
  have "appends (for_each write_value vs) (\<lambda>bo. concat (map (\<lambda>v. enc_value bo v) vs))"
    by (rule appends_for_each) (rule write_value_appends)
  then show ?thesis
    using assms by (fastforce simp: appends_def appended_def dest: spec [of _ "NewObjectDataOutput n be"])
qed

text \<open>
  C18: whatever sequence of values a serializer writes, in either byte order and whatever the size
  the buffer starts with, reading the resulting bytes with the same sequence of kinds returns the
  same values, \<^verbatim>\<open>nil\<close> arrays and empty ones told apart, and ends behind the last byte.
\<close>

theorem object_data_roundtrip:
  assumes "length (concat (map (enc_value (if be then BigEndian else LittleEndian)) vs)) < 2 ^ 31"
  shows "\<exists>out buf inp. for_each write_value vs (NewObjectDataOutput n be) = Inr out
     \<and> ToBuffer out = Inr buf
     \<and> read_values (map kind_of vs) (NewObjectDataInput buf spare 0 be) = Inr (vs, inp)
     \<and> i_position inp = o_position out"
proof -
  let ?bs = "concat (map (enc_value (if be then BigEndian else LittleEndian)) vs)"
  obtain out where out: "for_each write_value vs (NewObjectDataOutput n be) = Inr out" "out_wf out" "out_data out = ?bs"
    using write_values_fresh [OF assms] by blast
  define buf where "buf = (if ?bs = [] then None else Some ?bs)"
  have buf: "ToBuffer out = Inr buf" using ToBuffer_data [OF out(2)] out(3) by (simp only: buf_def)
  let ?inp = "NewObjectDataInput buf spare 0 be"
  have "in_wf ?inp" "in_rest ?inp = ?bs" using assms by (simp_all add: buf_def)
  then have "read_values (map kind_of vs) ?inp = Inr (vs, advance (word_of_nat (length ?bs)) ?inp)"
    using read_values_reads [of vs] by (simp add: reads_def)
  moreover have "o_position out = word_of_nat (length ?bs)"
    using length_out_data [OF out(2)] out(3) sint32_of_nat [OF assms]
    by (simp only: word_eq_iff_signed [where 'a = int])
  ultimately show ?thesis using out(1) buf by (simp add: advance_def NewObjectDataInput_def)
qed

theorem object_data_roundtrip_witness:
  "\<exists>out buf inp. for_each write_value [VBool True, VString [104, 105], VInt32Array None, VInt64 7, VInt16Array (Some [])]
        (NewObjectDataOutput 0 True) = Inr out
     \<and> ToBuffer out = Inr buf
     \<and> read_values [KBool, KString, KInt32Array, KInt64, KInt16Array] (NewObjectDataInput buf [] 0 True)
         = Inr ([VBool True, VString [104, 105], VInt32Array None, VInt64 7, VInt16Array (Some [])], inp)
     \<and> i_position inp = o_position out"
  using object_data_roundtrip [of True "[VBool True, VString [104, 105], VInt32Array None, VInt64 7, VInt16Array (Some [])]" 0 "[]"]
  by (simp add: enc_string_def enc_array_def)

end
