(* ===== verification/BigInt.thy ===== *)
theory BigInt
  imports Hzerrors
begin

text \<open>
  \<^verbatim>\<open>internal/serialization/big_int.go\<close>: integers of any size in the format of \<^verbatim>\<open>java.math.BigInteger\<close>, for a
  64-bit platform. A \<^verbatim>\<open>*big.Int\<close> is an \<open>int\<close>; of its methods the code uses \<^verbatim>\<open>Bits\<close>, \<^verbatim>\<open>SetBits\<close>, \<^verbatim>\<open>Sign\<close> and \<^verbatim>\<open>Neg\<close>.
  Indices that the code holds in an \<^verbatim>\<open>int32\<close> are \<open>int\<close>: a slice of bytes is shorter than \<open>2 ^ 31\<close>.
\<close>

section \<open>Numbers as lists of digits\<close>

text \<open>The value of a list of words, the least significant one first.\<close>

primrec le_val :: "'a::len word list \<Rightarrow> int" where
  "le_val [] = 0"
| "le_val (w # ws) = uint w + 2 ^ LENGTH('a) * le_val ws"

text \<open>\<^verbatim>\<open>big.Int.Bits\<close>: the words of the absolute value, without leading zeros; \<^verbatim>\<open>bits.Len32\<close> and \<^verbatim>\<open>bits.OnesCount32\<close>.\<close>

function nat_words :: "nat \<Rightarrow> 64 word list" where
  "nat_words n = (if n = 0 then [] else word_of_nat n # nat_words (drop_bit 64 n))"
  by auto

termination
  by (relation "measure id") (auto simp: drop_bit_eq_div intro!: div_less_dividend)

declare nat_words.simps [simp del]

definition big_Bits :: "int \<Rightarrow> 64 word list" where
  "big_Bits b = nat_words (nat \<bar>b\<bar>)"

fun bits_Len :: "nat \<Rightarrow> nat" where
  "bits_Len n = (if n = 0 then 0 else Suc (bits_Len (n div 2)))"

declare bits_Len.simps [simp del]

definition OnesCount32 :: "32 word \<Rightarrow> nat" where
  "OnesCount32 w = length (filter (bit w) [0..<32])"

section \<open>Conversion of magnitudes\<close>

record big_int =
  bi_mag :: "i32 list"
  bi_signum :: int

definition wordsToInt32Arr64 :: "64 word list \<Rightarrow> i32 list" where
  "wordsToInt32Arr64 ws =
     dropWhile (\<lambda>x. x = 0) (concat (map (\<lambda>w. [ucast (drop_bit 32 w), ucast w]) (rev ws)))"

text \<open>The loop runs from the end of the slice, which is given here in reverse and has even length.\<close>

fun pair_ints :: "i32 list \<Rightarrow> 64 word list" where
  "pair_ints (lo # hi # a) = (push_bit 32 (scast hi) OR scast lo AND 0xffffffff) # pair_ints a"
| "pair_ints _ = []"

definition int32ArrToWords64 :: "i32 list \<Rightarrow> 64 word list" where
  "int32ArrToWords64 a = pair_ints (rev (if odd (length a) then 0 # a else a))"

definition NewBigInt :: "int \<Rightarrow> big_int" where
  "NewBigInt b = \<lparr>bi_mag = wordsToInt32Arr64 (big_Bits b), bi_signum = sgn b\<rparr>"

definition GoBigInt :: "big_int \<Rightarrow> int" where
  "GoBigInt b =
     (if bi_mag b = [] then 0
      else let bb = le_val (int32ArrToWords64 (bi_mag b)) in if bi_signum b < 0 then - bb else bb)"

section \<open>To bytes\<close>

definition firstNonZeroIntNum :: "big_int \<Rightarrow> nat" where
  "firstNonZeroIntNum b = length (takeWhile (\<lambda>x. x = 0) (rev (bi_mag b)))"

definition getInt :: "big_int \<Rightarrow> nat \<Rightarrow> i32" where
  "getInt b n =
     (if length (bi_mag b) \<le> n then (if bi_signum b < 0 then - 1 else 0)
      else let magInt = bi_mag b ! (length (bi_mag b) - n - 1)
           in if 0 \<le> bi_signum b then magInt
              else if n \<le> firstNonZeroIntNum b then - magInt
              else NOT magInt)"

definition bitLength :: "big_int \<Rightarrow> nat" where
  "bitLength b =
     (case bi_mag b of
        [] \<Rightarrow> 0
      | m0 # m \<Rightarrow>
          (let magBitLen = 32 * length m + bits_Len (unat m0)
           in if 0 \<le> bi_signum b then magBitLen
              else if OnesCount32 m0 = 1 \<and> list_all (\<lambda>x. x = 0) m then magBitLen - 1
              else magBitLen))"

text \<open>The loop fills the array from its end; \<open>k\<close> bytes are still to be written.\<close>

primrec bytes_loop :: "big_int \<Rightarrow> nat \<Rightarrow> nat \<Rightarrow> i32 \<Rightarrow> nat \<Rightarrow> byte list \<Rightarrow> byte list" where
  "bytes_loop b 0 copied nextInt intIndex byteArr = byteArr"
| "bytes_loop b (Suc k) copied nextInt intIndex byteArr =
     (if copied = 4
      then let nextInt = getInt b intIndex in bytes_loop b k 1 nextInt (intIndex + 1) (ucast nextInt # byteArr)
      else let nextInt = signed_drop_bit 8 nextInt in bytes_loop b k (copied + 1) nextInt intIndex (ucast nextInt # byteArr))"

definition bi_Bytes :: "big_int \<Rightarrow> byte list" where
  "bi_Bytes b = bytes_loop b (bitLength b div 8 + 1) 4 0 0 []"

section \<open>From bytes\<close>

text \<open>The inner loop of both conversions: \<open>n\<close> more bytes, from index \<open>b\<close> downwards, into \<open>result[i]\<close>.\<close>

primrec transfer :: "byte list \<Rightarrow> nat \<Rightarrow> nat \<Rightarrow> int \<Rightarrow> i32 \<Rightarrow> (i32 \<times> int) go" where
  "transfer a 0 j b r = Inr (r, b)"
| "transfer a (Suc n) j b r =
     bind_go (go_index a b) (\<lambda>x. transfer a n (j + 8) (b - 1) (r OR push_bit j (ucast x)))"

primrec strip_loop :: "byte list \<Rightarrow> int \<Rightarrow> nat \<Rightarrow> int \<Rightarrow> i32 list \<Rightarrow> i32 list go" where
  "strip_loop a keep 0 b result = Inr result"
| "strip_loop a keep (Suc i) b result =
     bind_go (go_index a b) (\<lambda>x.
       let b = b - 1; bytesToTransfer = min 3 (b - keep + 1)
       in bind_go (transfer a (nat bytesToTransfer) 8 b (ucast x)) (\<lambda>(r, b). strip_loop a keep i b (r # result)))"

definition stripLeadingZeroBytes :: "byte list \<Rightarrow> i32 list go" where
  "stripLeadingZeroBytes a =
     (let byteLen = length a; keep = length (takeWhile (\<lambda>x. x = 0) a); intLen = (byteLen - keep + 3) div 4
      in strip_loop a (int keep) intLen (int byteLen - 1) [])"

primrec complement_loop :: "byte list \<Rightarrow> int \<Rightarrow> nat \<Rightarrow> int \<Rightarrow> i32 list \<Rightarrow> i32 list go" where
  "complement_loop a keep 0 b result = Inr result"
| "complement_loop a keep (Suc i) b result =
     bind_go (go_index a b) (\<lambda>x.
       let b = b - 1; numBytesToTransfer = nat (max 0 (min 3 (b - keep + 1)))
       in bind_go (transfer a numBytesToTransfer 8 b (ucast x)) (\<lambda>(r, b).
            let m = drop_bit (8 * (3 - numBytesToTransfer)) 0xffffffff
            in complement_loop a keep i b ((NOT r AND m) # result)))"

text \<open>Adds one to a magnitude, given from its last entry.\<close>

fun add_one :: "i32 list \<Rightarrow> i32 list" where
  "add_one [] = []"
| "add_one (x # xs) =
     (let y = ucast ((scast x AND 0xffffffff :: 64 word) + 1) in if y \<noteq> 0 then y # xs else y # add_one xs)"

definition makePositive :: "byte list \<Rightarrow> i32 list go" where
  "makePositive a =
     (let byteLen = length a;
          keep = length (takeWhile (\<lambda>x. x = 0xff) a);
          k = keep + length (takeWhile (\<lambda>x. x = 0) (drop keep a));
          extraByte = (if k = byteLen then 1 else 0);
          intLen = (byteLen - keep + extraByte + 3) div 4
      in bind_go (complement_loop a (int keep) intLen (int byteLen - 1) []) (\<lambda>result.
           Inr (rev (add_one (rev result)))))"

definition maxMagLength :: nat where "maxMagLength = (2 ^ 31 - 1) div 32 + 1"

definition NewBigIntFromByteArray :: "byte list \<Rightarrow> (go_error + big_int) go" where
  "NewBigIntFromByteArray val =
     (case val of
        [] \<Rightarrow> Inr (Inl (OtherError (gostr ''zero length BigInt'')))
      | v # _ \<Rightarrow>
          bind_go (if 128 \<le> v then bind_go (makePositive val) (\<lambda>mag. Inr (mag, - 1))
                   else bind_go (stripLeadingZeroBytes val) (\<lambda>mag. Inr (mag, if 0 < length mag then 1 else 0)))
            (\<lambda>(mag, signum).
              if maxMagLength < length mag \<or> length mag = maxMagLength \<and> sint (hd mag) < 0
              then Inr (Inl (OtherError (gostr ''big int overflow'')))
              else Inr (Inr \<lparr>bi_mag = mag, bi_signum = signum\<rparr>)))"

definition BigIntToJavaBytes :: "int \<Rightarrow> byte list" where
  "BigIntToJavaBytes b = bi_Bytes (NewBigInt b)"

definition JavaBytesToBigInt :: "byte list \<Rightarrow> (go_error + int) go" where
  "JavaBytesToBigInt bs =
     bind_go (NewBigIntFromByteArray bs) (\<lambda>res. Inr (case res of
       Inl e \<Rightarrow> Inl (WrapError (gostr ''creating BigInt from byte array: '') e)
     | Inr bb \<Rightarrow> Inr (GoBigInt bb)))"

section \<open>Digit lists\<close>

lemma le_val_append: "le_val (xs @ ys) = le_val xs + 2 ^ (LENGTH('a) * length xs) * le_val (ys :: 'a::len word list)"
  by (induction xs) (simp_all add: algebra_simps power_add)

lemma le_val_bounds: "0 \<le> le_val ws" "le_val (ws :: 'a::len word list) < 2 ^ (LENGTH('a) * length ws)"
proof -
  show "0 \<le> le_val ws" by (induction ws) simp_all
  show "le_val ws < 2 ^ (LENGTH('a) * length ws)"
  proof (induction ws)
    case (Cons w ws)
    have "2 ^ LENGTH('a) * (le_val ws + 1) \<le> 2 ^ LENGTH('a) * 2 ^ (LENGTH('a) * length ws)"
      using Cons by (intro mult_left_mono) simp_all
    moreover have "le_val (w # ws) < 2 ^ LENGTH('a) * (le_val ws + 1)" by (simp add: distrib_left)
    ultimately have "le_val (w # ws) < 2 ^ LENGTH('a) * 2 ^ (LENGTH('a) * length ws)" by linarith
    then show ?case by (simp add: power_add)
  qed simp
qed

lemma le_val_bounds_ge: "length ws \<le> n \<Longrightarrow> le_val (ws :: 'a::len word list) < 2 ^ (LENGTH('a) * n)"
  by (rule order.strict_trans2 [OF le_val_bounds(2)]) (simp add: power_increasing)

lemma le_val_zero_iff: "le_val ws = 0 \<longleftrightarrow> list_all (\<lambda>w. w = 0) ws"
proof (induction ws)
  case (Cons w ws)
  have "0 \<le> uint w" "0 \<le> 2 ^ LENGTH('a) * le_val ws" using le_val_bounds(1) [of ws] by simp_all
  then show ?case using Cons by (auto simp: add_nonneg_eq_0_iff unsigned_eq_0_iff)
qed simp

lemma le_val_take: "take_bit (LENGTH('a) * n) (le_val (ws :: 'a::len word list)) = le_val (take n ws)"
proof (cases "n \<le> length ws")
  case True
  then have "le_val ws = le_val (take n ws) + 2 ^ (LENGTH('a) * n) * le_val (drop n ws)"
    using le_val_append [of "take n ws" "drop n ws"] by simp
  then show ?thesis
    using True le_val_bounds [of "take n ws"] by (simp add: take_bit_eq_mod)
next
  case False
  with le_val_bounds_ge [of ws n] le_val_bounds(1) [of ws] show ?thesis by (simp add: take_bit_int_eq_self)
qed

lemma le_val_drop: "drop_bit (LENGTH('a) * n) (le_val (ws :: 'a::len word list)) = le_val (drop n ws)"
proof (cases "n \<le> length ws")
  case True
  then have "le_val ws = le_val (take n ws) + 2 ^ (LENGTH('a) * n) * le_val (drop n ws)"
    using le_val_append [of "take n ws" "drop n ws"] by simp
  then show ?thesis
    using True le_val_bounds [of "take n ws"] by (simp add: drop_bit_eq_div)
next
  case False
  with le_val_bounds_ge [of ws n] le_val_bounds(1) [of ws] show ?thesis by (simp add: drop_bit_eq_div)
qed

lemma le_val_nth:
  "n < length ws \<Longrightarrow> ws ! n = word_of_int (drop_bit (LENGTH('a) * n) (le_val (ws :: 'a::len word list)))"
  by (simp add: le_val_drop Cons_nth_drop_Suc [symmetric] word_of_int_2p_len)

lemma le_val_digits:
  "le_val (map (\<lambda>p. word_of_int (drop_bit (LENGTH('a) * p) v)) [0..<k] :: 'a::len word list) = take_bit (LENGTH('a) * k) v"
proof (induction k)
  case (Suc k)
  have "v mod 2 ^ (LENGTH('a) * k + LENGTH('a)) =
      2 ^ (LENGTH('a) * k) * (v div 2 ^ (LENGTH('a) * k) mod 2 ^ LENGTH('a)) + v mod 2 ^ (LENGTH('a) * k)"
    by (simp add: power_add zmod_zmult2_eq)
  with Suc show ?case
    by (simp add: le_val_append take_bit_eq_mod drop_bit_eq_div uint_word_of_int add.commute)
qed simp

lemma le_val_nat_words: "le_val (nat_words n) = int n"
proof (induction n rule: nat_words.induct)
  case (1 n)
  have "int n = int n mod 2 ^ 64 + 2 ^ 64 * (int n div 2 ^ 64)" by (simp only: mod_mult_div_eq)
  then show ?case
    using 1 by (subst nat_words.simps) (simp add: unsigned_of_nat drop_bit_eq_div take_bit_eq_mod zdiv_int zmod_int)
qed

lemma dropWhile_val: "le_val (rev (dropWhile (\<lambda>x. x = 0) xs)) = le_val (rev (xs :: 'a::len word list))"
  by (induction xs) (simp_all add: le_val_append)

lemma uint_halves: "uint (ucast w :: 32 word) + 2 ^ 32 * uint (ucast (drop_bit 32 w) :: 32 word) = uint (w :: 64 word)"
proof -
  have "uint w < 2 ^ 64" using uint_lt2p [of w] by simp
  then have "uint w div 2 ^ 32 < 2 ^ 32" "0 \<le> uint w div 2 ^ 32" by (simp_all add: pos_imp_zdiv_nonneg_iff)
  then show ?thesis
    unfolding unsigned_ucast_eq unsigned_drop_bit_eq by (simp add: take_bit_eq_mod drop_bit_eq_div)
qed

lemma words_val: "le_val (rev (concat (map (\<lambda>w. [ucast (drop_bit 32 w), ucast w]) (rev ws))) :: 32 word list) = le_val (ws :: 64 word list)"
proof (induction ws)
  case (Cons w ws)
  then show ?case
    using uint_halves [of w] by (simp add: le_val_append algebra_simps)
qed simp

lemma NewBigInt_mag:
  "le_val (rev (bi_mag (NewBigInt v))) = \<bar>v\<bar>" "bi_mag (NewBigInt v) = [] \<or> hd (bi_mag (NewBigInt v)) \<noteq> 0"
  "bi_signum (NewBigInt v) = sgn v"
  by (simp_all add: NewBigInt_def wordsToInt32Arr64_def dropWhile_val words_val big_Bits_def le_val_nat_words
      del: dropWhile_eq_Nil_conv)
    (use hd_dropWhile in blast)

lemma low_mask: "(0xffffffff :: 'a::len word) = mask 32"
  by (simp add: mask_eq_exp_minus_1)

lemma scast_low: "scast (x :: i32) AND 0xffffffff = (ucast x :: 64 word)"
proof (rule bit_word_eqI)
  fix n assume "n < LENGTH(64)"
  then show "bit (scast x AND 0xffffffff :: 64 word) n = bit (ucast x :: 64 word) n"
    unfolding low_mask using bit_imp_le_length [of x n] by (cases "n < 32") (auto simp: bit_simps)
qed

lemma or_ints: "uint (push_bit 32 (scast hi) OR scast lo AND 0xffffffff :: 64 word) = uint (lo :: i32) + 2 ^ 32 * uint (hi :: i32)"
proof -
  have hi: "push_bit 32 (scast hi) = (push_bit 32 (ucast hi) :: 64 word)"
    by (rule bit_word_eqI) (auto simp: bit_simps)
  have "push_bit 32 (uint hi) OR uint lo = push_bit 32 (uint hi) + uint lo"
    by (rule disjunctive_add [symmetric]) (auto simp: bit_simps dest: bit_imp_le_length)
  moreover have "uint (push_bit 32 (ucast hi) :: 64 word) = push_bit 32 (uint hi)"
    unfolding unsigned_push_bit_eq unsigned_ucast_eq using uint_lt2p [of hi] by (simp add: take_bit_push_bit take_bit_int_eq_self)
  moreover have "uint (ucast lo :: 64 word) = uint lo" by (rule uint_up_ucast) (simp add: is_up)
  ultimately show ?thesis
    unfolding scast_low hi unsigned_or_eq by (simp add: push_bit_eq_mult mult.commute)
qed

lemma pair_ints_val: "even (length a) \<Longrightarrow> le_val (pair_ints a) = le_val a"
  by (induction a rule: pair_ints.induct) (auto simp: or_ints algebra_simps)

lemma GoBigInt_val: "GoBigInt b = (if bi_signum b < 0 then - le_val (rev (bi_mag b)) else le_val (rev (bi_mag b)))"
  by (auto simp: GoBigInt_def int32ArrToWords64_def Let_def pair_ints_val le_val_append)

section \<open>Two's complement\<close>

text \<open>The reference: the value of bytes in two's complement, the most significant one first.\<close>

definition tc_val :: "byte list \<Rightarrow> int" where
  "tc_val bs = le_val (rev bs) - (if bs \<noteq> [] \<and> 128 \<le> hd bs then 2 ^ (8 * length bs) else 0)"

definition bi_val :: "big_int \<Rightarrow> int" where
  "bi_val b = (if bi_signum b < 0 then - le_val (rev (bi_mag b)) else le_val (rev (bi_mag b)))"

definition bi_wf :: "big_int \<Rightarrow> bool" where
  "bi_wf b \<longleftrightarrow> (bi_mag b = [] \<or> hd (bi_mag b) \<noteq> 0) \<and> (bi_signum b < 0 \<longrightarrow> bi_mag b \<noteq> [])"

lemma NewBigInt_val: "bi_val (NewBigInt v) = v" "bi_wf (NewBigInt v)"
proof -
  show "bi_val (NewBigInt v) = v" using NewBigInt_mag [of v] by (simp add: bi_val_def sgn_if)
  have "bi_mag (NewBigInt v) = [] \<Longrightarrow> v = 0" using NewBigInt_mag(1) [of v] by simp
  then show "bi_wf (NewBigInt v)" using NewBigInt_mag [of v] by (auto simp: bi_wf_def)
qed

lemma neg_div: "(- m) div 2 ^ k = (if m mod 2 ^ k = 0 then - (m div 2 ^ k) else - (m div 2 ^ k) - 1)" for m :: int
  by (simp add: zdiv_zminus1_eq_if)

lemma low_digits_zero:
  assumes "n < length ws"
  shows "n \<le> length (takeWhile (\<lambda>x. x = 0) ws) \<longleftrightarrow> le_val (take n (ws :: 'a::len word list)) = 0"
proof -
  have "n \<le> length (takeWhile (\<lambda>x. x = 0) ws) \<longleftrightarrow> (\<forall>i<n. ws ! i = 0)"
  proof
    assume zero: "\<forall>i<n. ws ! i = 0"
    show "n \<le> length (takeWhile (\<lambda>x. x = 0) ws)"
    proof (rule ccontr)
      assume "\<not> n \<le> length (takeWhile (\<lambda>x. x = 0) ws)"
      then show False using zero assms nth_length_takeWhile [of "\<lambda>x. x = 0" ws] by simp
    qed
  next
    assume *: "n \<le> length (takeWhile (\<lambda>x. x = 0) ws)"
    show "\<forall>i<n. ws ! i = 0"
    proof (intro allI impI)
      fix i assume "i < n"
      with * have "i < length (takeWhile (\<lambda>x. x = 0) ws)" by simp
      then show "ws ! i = 0" using nth_mem [of i "takeWhile (\<lambda>x. x = 0) ws"] by (auto simp: takeWhile_nth dest: set_takeWhileD)
    qed
  qed
  also have "\<dots> \<longleftrightarrow> le_val (take n ws) = 0"
    using assms by (auto simp: le_val_zero_iff list_all_length)
  finally show ?thesis .
qed

lemma getInt_digit:
  assumes "bi_wf b"
  shows "getInt b n = word_of_int (drop_bit (32 * n) (bi_val b))"
proof -
  let ?ws = "rev (bi_mag b)" and ?M = "le_val (rev (bi_mag b))"
  have nth: "n < length ?ws \<Longrightarrow> bi_mag b ! (length (bi_mag b) - n - 1) = word_of_int (?M div 2 ^ (32 * n))"
    using le_val_nth [of n ?ws] by (simp add: rev_nth drop_bit_eq_div)
  have big: "?M div 2 ^ (32 * n) = 0" "?M mod 2 ^ (32 * n) = ?M" if "length ?ws \<le> n"
    using le_val_bounds_ge [OF that] le_val_bounds(1) [of ?ws] by simp_all
  have low: "?M mod 2 ^ (32 * n) = le_val (take n ?ws)" using le_val_take [where n = n and ws = ?ws] by (simp add: take_bit_eq_mod)
  have pos: "?M \<noteq> 0" if "bi_signum b < 0"
    using assms that by (cases "bi_mag b") (auto simp: bi_wf_def le_val_zero_iff)
  show ?thesis
    using nth big low pos low_digits_zero [of n ?ws]
    by (auto simp: getInt_def bi_val_def drop_bit_eq_div neg_div firstNonZeroIntNum_def Let_def not_eq_complement)
qed

lemma bytes_loop_digits:
  assumes "p + 4 = 4 * idx + copied" "1 \<le> copied" "copied \<le> 4"
    and "copied < 4 \<longrightarrow> nextInt = signed_drop_bit (8 * (copied - 1)) (getInt b (idx - 1))"
  shows "bytes_loop b k copied nextInt idx acc =
    rev (map (\<lambda>q. ucast (signed_drop_bit (8 * (q mod 4)) (getInt b (q div 4)))) [p..<p + k]) @ acc"
  using assms
proof (induction k arbitrary: p copied nextInt idx acc)
  case (Suc k)
  have up: "[p..<p + Suc k] = p # [Suc p..<Suc p + k]" by (simp add: upt_rec)
  show ?case
  proof (cases "copied = 4")
    case True
    with Suc.prems(1) have p: "p = 4 * idx" by simp
    show ?thesis
      using Suc.IH [of "Suc p" "idx + 1" 1 "getInt b idx"] p True unfolding up by (simp add: Let_def)
  next
    case False
    with Suc.prems have p: "p div 4 = idx - 1" "p mod 4 = copied" by presburger+
    have "signed_drop_bit 8 nextInt = signed_drop_bit (8 * copied) (getInt b (idx - 1))"
      using False Suc.prems(2-4) by (cases copied) simp_all
    then show ?thesis
      using Suc.IH [of "Suc p" idx "copied + 1" "signed_drop_bit 8 nextInt" ] Suc.prems(1-3) False p unfolding up by (simp add: Let_def)
  qed
qed simp

lemma byte_digit:
  assumes "c < 4"
  shows "ucast (signed_drop_bit (8 * c) (word_of_int (drop_bit (32 * q) v) :: i32)) = (word_of_int (drop_bit (8 * (4 * q + c)) v) :: byte)"
  using assms by (intro bit_word_eqI) (auto simp: bit_simps algebra_simps)

lemma Bytes_digits:
  assumes "bi_wf b"
  shows "bi_Bytes b = rev (map (\<lambda>p. word_of_int (drop_bit (8 * p) (bi_val b))) [0..<bitLength b div 8 + 1])"
proof -
  have "ucast (signed_drop_bit (8 * (q mod 4)) (getInt b (q div 4))) = (word_of_int (drop_bit (8 * q) (bi_val b)) :: byte)" for q
    using byte_digit [of "q mod 4" "q div 4" "bi_val b"] by (simp add: getInt_digit [OF assms])
  then show ?thesis
    unfolding bi_Bytes_def by (subst bytes_loop_digits [where p = 0]) simp_all
qed

section \<open>The length in bits\<close>

lemma bits_Len_bounds: "0 < n \<Longrightarrow> 0 < bits_Len n \<and> 2 ^ (bits_Len n - 1) \<le> n \<and> n < 2 ^ bits_Len n"
proof (induction n rule: bits_Len.induct)
  case (1 n)
  show ?case
  proof (cases "n = 1")
    case False
    with 1 have "0 < bits_Len (n div 2)" "2 ^ (bits_Len (n div 2) - 1) \<le> n div 2" "n div 2 < 2 ^ bits_Len (n div 2)" by auto
    moreover have "bits_Len n = Suc (bits_Len (n div 2))" using 1(2) by (subst bits_Len.simps) simp
    ultimately show ?thesis by (cases "bits_Len (n div 2)") (simp, simp, linarith)
  qed (simp add: bits_Len.simps)
qed

lemma OnesCount32_one: "OnesCount32 w = 1 \<longleftrightarrow> (\<exists>i<32. w = 2 ^ i)"
proof -
  have "OnesCount32 w = card {i. i < 32 \<and> bit w i}"
    unfolding OnesCount32_def distinct_length_filter [OF distinct_upt] set_upt by (rule arg_cong [where f = card]) auto
  moreover have "{i. i < 32 \<and> bit w i} = {i} \<longleftrightarrow> i < 32 \<and> w = 2 ^ i" for i
  proof
    assume *: "{i. i < 32 \<and> bit w i} = {i}"
    have mem: "(j < 32 \<and> bit w j) = (j = i)" for j using arg_cong [OF *, of "\<lambda>A. j \<in> A"] by simp
    have "w = 2 ^ i"
    proof (rule bit_word_eqI)
      fix j assume "j < LENGTH(32)"
      then show "bit w j = bit (2 ^ i :: 32 word) j" using mem [of j] mem [of i] by (simp add: bit_exp_iff)
    qed
    with mem [of i] show "i < 32 \<and> w = 2 ^ i" by simp
  next
    assume "i < 32 \<and> w = 2 ^ i"
    then show "{i. i < 32 \<and> bit w i} = {i}" by (auto simp: bit_exp_iff)
  qed
  ultimately show ?thesis by (simp only: One_nat_def card_1_singleton_iff ex_simps)
qed

lemma mag_bounds:
  fixes m0 :: i32 and m :: "i32 list"
  assumes "m0 \<noteq> 0"
  defines "n \<equiv> 32 * length m + bits_Len (unat m0)" and "M \<equiv> le_val (rev (m0 # m))"
  shows "0 < n" "2 ^ (n - 1) \<le> M" "M < 2 ^ n" "M = 2 ^ (n - 1) \<longleftrightarrow> OnesCount32 m0 = 1 \<and> list_all (\<lambda>x. x = 0) m"
proof -
  let ?k = "32 * length m" and ?R = "le_val (rev m)" and ?l = "bits_Len (unat m0)"
  have "0 < unat m0" using assms(1) by (simp add: unat_gt_0)
  from bits_Len_bounds [OF this] have "0 < ?l" "int (2 ^ (?l - 1)) \<le> int (unat m0)" "int (unat m0) < int (2 ^ ?l)"
    by (simp_all only: of_nat_le_iff of_nat_less_iff)
  then have l: "0 < ?l" "2 ^ (?l - 1) \<le> uint m0" "uint m0 < 2 ^ ?l" by simp_all
  have R: "0 \<le> ?R" "?R < 2 ^ ?k" using le_val_bounds [of "rev m"] by simp_all
  have M: "M = ?R + 2 ^ ?k * uint m0" by (simp add: M_def le_val_append)
  have n1: "(2 :: int) ^ (n - 1) = 2 ^ ?k * 2 ^ (?l - 1)" "(2 :: int) ^ n = 2 ^ ?k * 2 ^ ?l"
    using l(1) by (simp_all add: n_def flip: power_add)
  show "0 < n" using l(1) by (simp add: n_def)
  show "2 ^ (n - 1) \<le> M" using R(1) l(2) unfolding M n1 by (simp add: add_increasing)
  have "2 ^ ?k * (uint m0 + 1) \<le> (2 :: int) ^ ?k * 2 ^ ?l" using l(3) by (intro mult_left_mono) simp_all
  then show "M < 2 ^ n" using R(2) unfolding M n1 by (simp add: distrib_left)
  have zero: "?R = 0 \<longleftrightarrow> list_all (\<lambda>x. x = 0) m" by (simp add: le_val_zero_iff)
  show "M = 2 ^ (n - 1) \<longleftrightarrow> OnesCount32 m0 = 1 \<and> list_all (\<lambda>x. x = 0) m"
  proof
    assume eq: "M = 2 ^ (n - 1)"
    have "uint m0 = M div 2 ^ ?k" "?R = M mod 2 ^ ?k" using R unfolding M by simp_all
    then have "uint m0 = 2 ^ (?l - 1)" "?R = 0" unfolding eq n1 by simp_all
    moreover from this(1) have "m0 = 2 ^ (?l - 1)" using word_of_int_uint [of m0] by simp
    moreover have "?l - 1 < 32"
    proof -
      have "(2 :: int) ^ (?l - 1) < 2 ^ 32" using \<open>uint m0 = 2 ^ (?l - 1)\<close> uint_lt2p [of m0] by simp
      then show ?thesis by (simp only: power_strict_increasing_iff one_less_numeral_iff semiring_norm)
    qed
    ultimately show "OnesCount32 m0 = 1 \<and> list_all (\<lambda>x. x = 0) m" using zero OnesCount32_one [of m0] by blast
  next
    assume "OnesCount32 m0 = 1 \<and> list_all (\<lambda>x. x = 0) m"
    then obtain i where i: "i < 32" "m0 = 2 ^ i" "?R = 0" using zero OnesCount32_one [of m0] by blast
    have "(2 :: int) ^ i < 2 ^ 32" using i(1) by (simp only: power_strict_increasing_iff one_less_numeral_iff semiring_norm)
    then have u: "uint m0 = 2 ^ i" using i(2) uint_word_of_int [of "2 ^ i", where ?'a = 32] by simp
    with l have "2 ^ (?l - 1) \<le> (2 :: int) ^ i" "(2 :: int) ^ i < 2 ^ ?l" by simp_all
    then have "i = ?l - 1" using l(1) by simp
    with i(3) u show "M = 2 ^ (n - 1)" unfolding M n1 by simp
  qed
qed

lemma bitLength_bounds:
  assumes "bi_wf b"
  shows "- (2 ^ bitLength b) \<le> bi_val b" "bi_val b < 2 ^ bitLength b"
    and "0 < bitLength b \<Longrightarrow> bi_val b < - (2 ^ (bitLength b - 1)) \<or> 2 ^ (bitLength b - 1) \<le> bi_val b"
proof -
  have "- (2 ^ bitLength b) \<le> bi_val b \<and> bi_val b < 2 ^ bitLength b
    \<and> (0 < bitLength b \<longrightarrow> bi_val b < - (2 ^ (bitLength b - 1)) \<or> 2 ^ (bitLength b - 1) \<le> bi_val b)"
  proof (cases "bi_mag b")
    case Nil
    with assms show ?thesis by (simp add: bitLength_def bi_val_def bi_wf_def)
  next
    case (Cons m0 m)
    with assms have "m0 \<noteq> 0" by (simp add: bi_wf_def)
    note M = mag_bounds [OF this, of m]
    let ?n = "32 * length m + bits_Len (unat m0)" and ?M = "le_val (rev (m0 # m))"
    have p: "(2 :: int) ^ (?n - 1) < 2 ^ ?n" using M(1) by simp
    have q: "(2 :: int) ^ (?n - 1 - 1) < 2 ^ (?n - 1)" if "0 < ?n - 1" using that by simp
    show ?thesis
    proof (cases "bi_signum b < 0")
      case True
      then have v: "bi_val b = - ?M" using Cons by (simp add: bi_val_def)
      show ?thesis
      proof (cases "OnesCount32 m0 = 1 \<and> list_all (\<lambda>x. x = 0) m")
        case True
        then have "bitLength b = ?n - 1" "?M = 2 ^ (?n - 1)" using \<open>bi_signum b < 0\<close> Cons M(4) by (simp_all add: bitLength_def)
        with q show ?thesis by (simp add: v)
      next
        case False
        then have "bitLength b = ?n" "?M \<noteq> 2 ^ (?n - 1)" using \<open>bi_signum b < 0\<close> Cons M(4) by (auto simp: bitLength_def)
        with M(2,3) le_val_bounds(1) [of "rev (m0 # m)"] show ?thesis unfolding v by (simp only:) simp
      qed
    next
      case False
      then have "bi_val b = ?M" "bitLength b = ?n" using Cons by (simp_all add: bi_val_def bitLength_def)
      with M(2,3) show ?thesis using le_val_bounds(1) [of "rev (m0 # m)"] by (simp only:) simp
    qed
  qed
  then show "- (2 ^ bitLength b) \<le> bi_val b" "bi_val b < 2 ^ bitLength b"
    "0 < bitLength b \<Longrightarrow> bi_val b < - (2 ^ (bitLength b - 1)) \<or> 2 ^ (bitLength b - 1) \<le> bi_val b" by simp_all
qed

section \<open>Bytes in two's complement\<close>

lemma two_power_pred: "0 < n \<Longrightarrow> (2 :: int) ^ n = 2 * 2 ^ (n - 1)"
  by (cases n) simp_all

lemma byte_ge_128: "128 \<le> (x :: byte) \<longleftrightarrow> 2 ^ 7 \<le> uint x"
  by (simp add: word_le_def)

text \<open>The sign bit of the first byte is the sign bit of the value.\<close>

lemma hd_ge_128:
  assumes "bs \<noteq> []"
  shows "128 \<le> (hd bs :: byte) \<longleftrightarrow> 2 ^ (8 * length bs - 1) \<le> le_val (rev bs)"
proof -
  obtain x xs where bs: "bs = x # xs" using assms by (cases bs) auto
  let ?k = "8 * length xs"
  have R: "0 \<le> le_val (rev xs)" "le_val (rev xs) < 2 ^ ?k" using le_val_bounds [of "rev xs"] by simp_all
  have V: "le_val (rev bs) = le_val (rev xs) + 2 ^ ?k * uint x" by (simp add: bs le_val_append)
  have "2 ^ ?k * 2 ^ 7 \<le> le_val (rev xs) + 2 ^ ?k * uint x \<longleftrightarrow> 2 ^ 7 \<le> uint x"
  proof (cases "2 ^ 7 \<le> uint x")
    case True
    then have "(2 :: int) ^ ?k * 2 ^ 7 \<le> 2 ^ ?k * uint x" by (intro mult_left_mono) simp_all
    with R True show ?thesis by linarith
  next
    case False
    then have "2 ^ ?k * (uint x + 1) \<le> 2 ^ ?k * 2 ^ 7" by (intro mult_left_mono) simp_all
    then have "2 ^ ?k * uint x + 2 ^ ?k \<le> 2 ^ ?k * 2 ^ 7" by (simp add: distrib_left)
    with R False show ?thesis by linarith
  qed
  then show ?thesis unfolding byte_ge_128 V by (simp add: bs power_add add.commute mult.commute)
qed

lemma tc_val_bounds:
  assumes "bs \<noteq> []"
  shows "- (2 ^ (8 * length bs - 1)) \<le> tc_val bs" "tc_val bs < 2 ^ (8 * length bs - 1)"
proof -
  have "(2 :: int) ^ (8 * length bs) = 2 * 2 ^ (8 * length bs - 1)" using assms by (intro two_power_pred) simp
  then show "- (2 ^ (8 * length bs - 1)) \<le> tc_val bs" "tc_val bs < 2 ^ (8 * length bs - 1)"
    using le_val_bounds [of "rev bs"] hd_ge_128 [OF assms] assms by (auto simp: tc_val_def)
qed

lemma tc_val_digits:
  assumes "0 < k" "- (2 ^ (8 * k - 1)) \<le> v" "v < 2 ^ (8 * k - 1)"
    and "bs = rev (map (\<lambda>p. word_of_int (drop_bit (8 * p) v)) [0..<k])"
  shows "tc_val bs = v"
proof -
  have len: "length bs = k" "bs \<noteq> []" using assms(1,4) by auto
  have val: "le_val (rev bs) = v mod 2 ^ (8 * k)" using le_val_digits [where 'a = 8, of v k] by (simp add: assms(4) take_bit_eq_mod)
  have two: "(2 :: int) ^ (8 * k) = 2 * 2 ^ (8 * k - 1)" using assms(1) by (intro two_power_pred) simp
  show ?thesis
  proof (cases "0 \<le> v")
    case True
    then have "v mod 2 ^ (8 * k) = v" using assms(3) two by simp
    then show ?thesis using hd_ge_128 [OF len(2)] assms(3) by (simp add: tc_val_def val len)
  next
    case False
    then have "v mod 2 ^ (8 * k) = v + 2 ^ (8 * k)"
      using mod_add_self2 [of v "2 ^ (8 * k)"] mod_pos_pos_trivial [of "v + 2 ^ (8 * k)" "2 ^ (8 * k)"] assms(2) two by simp
    then show ?thesis using hd_ge_128 [OF len(2)] assms(2) two by (simp add: tc_val_def val len)
  qed
qed

lemma Bytes_tc_val:
  assumes "bi_wf b"
  shows "tc_val (bi_Bytes b) = bi_val b" "length (bi_Bytes b) = bitLength b div 8 + 1"
proof -
  let ?k = "bitLength b div 8 + 1"
  have "bitLength b \<le> 8 * ?k - 1" by presburger
  then have "(2 :: int) ^ bitLength b \<le> 2 ^ (8 * ?k - 1)" by (rule power_increasing) simp
  then show "tc_val (bi_Bytes b) = bi_val b"
    using bitLength_bounds(1,2) [OF assms] by (intro tc_val_digits [OF _ _ _ Bytes_digits [OF assms]]) linarith+
  show "length (bi_Bytes b) = ?k" by (simp add: Bytes_digits [OF assms])
qed

section \<open>Magnitudes from bytes\<close>

lemma uint_le_word: "8 * length bs \<le> LENGTH('a::len) \<Longrightarrow> uint (le_word bs :: 'a word) = le_val bs"
proof (induction bs)
  case (Cons b bs)
  let ?w = "le_word bs :: 'a word"
  have w: "uint ?w = le_val bs" using Cons by simp
  have "le_val (b # bs) < 2 ^ LENGTH('a)"
    by (rule order.strict_trans2 [OF le_val_bounds(2)]) (use Cons.prems in \<open>simp add: power_increasing\<close>)
  then have "uint b + 256 * le_val bs < 2 ^ LENGTH('a)" by simp
  moreover have "0 \<le> le_val bs" "0 \<le> uint b" by (rule le_val_bounds) simp
  ultimately have "256 * le_val bs < 2 ^ LENGTH('a)" "0 \<le> 256 * le_val bs" by linarith+
  then have "uint (push_bit 8 ?w) = push_bit 8 (le_val bs)"
    unfolding unsigned_push_bit_eq w by (simp add: push_bit_eq_mult take_bit_int_eq_self mult.commute)
  moreover have "uint (ucast b :: 'a word) = uint b" using Cons.prems by (intro uint_up_ucast) (simp add: is_up)
  moreover have "uint b OR push_bit 8 (le_val bs) = uint b + push_bit 8 (le_val bs)"
    by (rule disjunctive_add [symmetric]) (auto simp: bit_simps dest: bit_imp_le_length)
  ultimately show ?case by (simp add: unsigned_or_eq push_bit_eq_mult mult.commute)
qed simp

text \<open>\<open>T\<close> are the bytes from index \<open>b\<close> down to \<open>keep\<close>.\<close>

definition pending :: "byte list \<Rightarrow> int \<Rightarrow> int \<Rightarrow> byte list \<Rightarrow> bool" where
  "pending a keep b T \<longleftrightarrow> 0 \<le> keep \<and> b = keep + int (length T) - 1 \<and> b < int (length a)
     \<and> (\<forall>i < length T. T ! i = a ! nat (b - int i))"

lemma pending_index: "pending a keep b (t # T) \<Longrightarrow> go_index a b = Inr t \<and> pending a keep (b - 1) T"
  by (auto simp: pending_def go_index_def) (metis Suc_less_eq add.commute diff_diff_eq nth_Cons_Suc of_nat_Suc)

lemma pending_start: "keep \<le> length a \<Longrightarrow> pending a (int keep) (int (length a) - 1) (rev (drop keep a))"
  by (auto simp: pending_def rev_nth nat_diff_distrib intro!: arg_cong [where f = "(!) a"])

lemma transfer_pending:
  "pending a keep b T \<Longrightarrow> n \<le> length T \<Longrightarrow>
   transfer a n j b r = Inr (r OR push_bit j (le_word (take n T)), b - int n) \<and> pending a keep (b - int n) (drop n T)"
proof (induction n arbitrary: j b r T)
  case (Suc n)
  then obtain t T' where T: "T = t # T'" by (cases T) auto
  with Suc.prems pending_index [of a keep b t T'] Suc.IH [of "b - 1" T' "j + 8" "r OR push_bit j (ucast t)"]
  show ?case by (simp add: push_bit_or or.assoc add.commute diff_diff_eq)
qed simp

lemma first_byte: "ucast t OR push_bit 8 (le_word T :: i32) = le_word (t # T)"
  by simp

lemma strip_loop_val:
  "pending a keep b T \<Longrightarrow> length T \<le> 4 * i \<Longrightarrow> 4 * i < length T + 4 \<Longrightarrow>
   \<exists>R. strip_loop a keep i b acc = Inr (R @ acc) \<and> length R = i \<and> le_val (rev R) = le_val T"
proof (induction i arbitrary: b T acc)
  case (Suc i)
  then obtain t T' where T: "T = t # T'" by (cases T) auto
  note step = pending_index [OF Suc.prems(1) [unfolded T]]
  define n where "n = min 3 (length T')"
  have n: "nat (min 3 (b - 1 - keep + 1)) = n" "n \<le> length T'"
    using step by (auto simp: pending_def n_def min_def)
  have len: "length (drop n T') \<le> 4 * i" "4 * i < length (drop n T') + 4"
    using Suc.prems(2,3) by (auto simp: T n_def min_def)
  obtain R where R: "strip_loop a keep i (b - 1 - int n) (le_word (t # take n T') # acc) = Inr (R @ le_word (t # take n T') # acc)"
    "length R = i" "le_val (rev R) = le_val (drop n T')"
    using Suc.IH [of "b - 1 - int n" "drop n T'" "le_word (t # take n T') # acc"]
      transfer_pending [of a keep "b - 1" T' n] step n(2) len by blast
  have "le_val T = le_val (t # take n T') + 2 ^ (8 * Suc n) * le_val (drop n T')"
    using le_val_append [of "t # take n T'" "drop n T'"] n(2) by (simp add: T)
  moreover have "n = 3 \<or> drop n T' = []" by (auto simp: n_def min_def)
  moreover have "uint (le_word (t # take n T') :: i32) = le_val (t # take n T')"
    by (rule uint_le_word) (simp add: n_def)
  ultimately have "le_val (rev (R @ [le_word (t # take n T')])) = le_val T" using R(3) by (auto simp del: le_word.simps)
  moreover have "strip_loop a keep (Suc i) b acc = Inr ((R @ [le_word (t # take n T')]) @ acc)"
    using step transfer_pending [of a keep "b - 1" T' n 8 "ucast t"] n R(1) by (simp add: Let_def)
  ultimately show ?case using R(2) by (intro exI [of _ "R @ [le_word (t # take n T')]"]) simp
qed simp

lemma uint_complement:
  assumes "uint (r :: i32) < 2 ^ (8 * c)" "c \<le> 4"
  shows "uint (NOT r AND drop_bit (8 * (4 - c)) 0xffffffff) = 2 ^ (8 * c) - 1 - uint r"
proof -
  have m: "drop_bit (8 * (4 - c)) 0xffffffff = (mask (8 * c) :: i32)"
  proof (rule bit_word_eqI)
    fix n assume "n < LENGTH(32)"
    then show "bit (drop_bit (8 * (4 - c)) 0xffffffff :: i32) n = bit (mask (8 * c) :: i32) n"
      unfolding low_mask using assms(2) by (auto simp: bit_simps)
  qed
  have "uint (NOT r AND mask (8 * c)) = take_bit (8 * c) (NOT (uint r))"
    using assms(2) by (simp add: take_bit_eq_mask [symmetric] unsigned_take_bit_eq unsigned_not_eq)
  also have "\<dots> = mask (8 * c) - take_bit (8 * c) (uint r)" by (rule take_bit_not_eq_mask_diff)
  also have "\<dots> = 2 ^ (8 * c) - 1 - uint r" using assms(1) by (simp add: take_bit_int_eq_self mask_eq_exp_minus_1)
  finally show ?thesis by (simp only: m)
qed

lemma complement_loop_val:
  "pending a keep b T \<Longrightarrow> length T \<le> 4 * i \<Longrightarrow>
   4 * i < length T + 4 \<or> 4 * i = length T + 4 \<and> 0 < keep \<and> a ! nat (keep - 1) = 0xff \<Longrightarrow>
   \<exists>R. complement_loop a keep i b acc = Inr (R @ acc) \<and> length R = i \<and> le_val (rev R) = 2 ^ (8 * length T) - 1 - le_val T"
proof (induction i arbitrary: b T acc)
  case (Suc i)
  show ?case
  proof (cases T)
    case Nil
    with Suc.prems have i: "i = 0" "0 < keep" "a ! nat (keep - 1) = 0xff" "b = keep - 1" "keep - 1 < int (length a)"
      by (auto simp: pending_def)
    then have "go_index a b = Inr 0xff" by (simp add: go_index_def)
    then show ?thesis using i(1,4) Nil by (simp add: max_def min_def)
  next
    case (Cons t T')
    note step = pending_index [OF Suc.prems(1) [unfolded Cons]]
    define n where "n = min 3 (length T')"
    define x :: i32 where "x = NOT (le_word (t # take n T')) AND drop_bit (8 * (3 - n)) 0xffffffff"
    have n: "nat (max 0 (min 3 (b - 1 - keep + 1))) = n" "n \<le> length T'" "n \<le> 3"
      using step by (auto simp: pending_def n_def min_def max_def)
    have "length (drop n T') \<le> 4 * i" "4 * i < length (drop n T') + 4 \<or> 4 * i = length (drop n T') + 4 \<and> 0 < keep \<and> a ! nat (keep - 1) = 0xff"
      using Suc.prems(2,3) by (auto simp: Cons n_def min_def)
    then obtain R where R: "complement_loop a keep i (b - 1 - int n) (x # acc) = Inr (R @ x # acc)"
      "length R = i" "le_val (rev R) = 2 ^ (8 * length (drop n T')) - 1 - le_val (drop n T')"
      using Suc.IH [of "b - 1 - int n" "drop n T'" "x # acc"] transfer_pending [of a keep "b - 1" T' n] step n(2) by blast
    have w: "uint (le_word (t # take n T') :: i32) = le_val (t # take n T')" by (rule uint_le_word) (use n in simp)
    moreover have "le_val (t # take n T') < 2 ^ (8 * Suc n)" using le_val_bounds(2) [of "t # take n T'"] n(2) by simp
    ultimately have x: "uint x = 2 ^ (8 * Suc n) - 1 - le_val (t # take n T')"
      using uint_complement [of "le_word (t # take n T')" "Suc n"] n(3) by (simp add: x_def del: le_word.simps)
    have "le_val T = le_val (t # take n T') + 2 ^ (8 * Suc n) * le_val (drop n T')"
      using le_val_append [of "t # take n T'" "drop n T'"] n(2) by (simp add: Cons)
    moreover have "(2 :: int) ^ (8 * length T) = 2 ^ (8 * Suc n) * 2 ^ (8 * length (drop n T'))"
      using n(2) by (simp add: Cons flip: power_add)
    moreover have "n = 3 \<or> drop n T' = []" by (auto simp: n_def min_def)
    ultimately have "le_val (rev (R @ [x])) = 2 ^ (8 * length T) - 1 - le_val T" using R(3) x by (auto simp: right_diff_distrib)
    moreover have "complement_loop a keep (Suc i) b acc = Inr ((R @ [x]) @ acc)"
      using step transfer_pending [of a keep "b - 1" T' n 8 "ucast t"] n R(1) by (simp add: Let_def x_def)
    ultimately show ?thesis using R(2) by (intro exI [of _ "R @ [x]"]) simp
  qed
qed simp

lemma add_one_word: "(ucast ((scast x AND 0xffffffff :: 64 word) + 1) :: i32) = x + 1"
proof -
  have "uint (ucast ((ucast x :: 64 word) + 1) :: i32) = uint (x + 1)"
    unfolding unsigned_ucast_eq uint_word_ariths take_bit_eq_mod by (simp add: mod_mod_cancel mod_add_left_eq)
  then show ?thesis unfolding scast_low by (rule unsigned_word_eqI)
qed

lemma uint_succ: "x + 1 \<noteq> 0 \<Longrightarrow> uint (x + 1 :: i32) = uint x + 1"
proof -
  assume "x + 1 \<noteq> 0"
  then have nz: "uint (x + 1) \<noteq> 0" by (simp only: unsigned_eq_0_iff not_False_eq_True)
  have m: "uint (x + 1) = (uint x + 1) mod 2 ^ 32" by (simp add: uint_word_ariths)
  have "uint x < 2 ^ 32" using uint_lt2p [of x] by simp
  moreover have "uint x + 1 \<noteq> 2 ^ 32" using nz unfolding m by auto
  ultimately show ?thesis unfolding m by (intro mod_pos_pos_trivial) simp_all
qed

lemma add_one_val: "le_val xs + 1 < 2 ^ (32 * length xs) \<Longrightarrow> le_val (add_one xs) = le_val xs + 1 \<and> length (add_one xs) = length xs"
proof (induction xs)
  case (Cons x xs)
  show ?case
  proof (cases "x + 1 = 0")
    case True
    then have "x = - 1" by (simp only: eq_neg_iff_add_eq_0)
    then have x: "uint x = 2 ^ 32 - 1" by (simp add: unsigned_minus_1_eq_mask mask_eq_exp_minus_1)
    then have "2 ^ 32 * (le_val xs + 1) < 2 ^ 32 * (2 :: int) ^ (32 * length xs)" using Cons.prems by (simp add: power_add)
    then have "le_val xs + 1 < 2 ^ (32 * length xs)" by simp
    with Cons.IH x True show ?thesis by (simp add: add_one_word)
  next
    case False
    with uint_succ [OF False] show ?thesis by (simp add: add_one_word)
  qed
qed simp

lemma takeWhile_split: "(xs :: 'a list) = replicate (length (takeWhile (\<lambda>x. x = c) xs)) c @ drop (length (takeWhile (\<lambda>x. x = c) xs)) xs"
  by (induction xs) auto

lemma ceil4: "m \<le> 4 * ((m + 3) div 4)" "4 * ((m + 3) div 4) < m + 4" for m :: nat
  by presburger+

lemma stripLeadingZeroBytes_val: "\<exists>mag. stripLeadingZeroBytes a = Inr mag \<and> le_val (rev mag) = le_val (rev a) \<and> length mag \<le> length a div 4 + 1"
proof -
  let ?keep = "length (takeWhile (\<lambda>x. x = 0) a)"
  have keep: "?keep \<le> length a" by (rule length_takeWhile_le)
  obtain R where R: "strip_loop a (int ?keep) ((length a - ?keep + 3) div 4) (int (length a) - 1) [] = Inr R"
    "length R = (length a - ?keep + 3) div 4" "le_val (rev R) = le_val (rev (drop ?keep a))"
    using strip_loop_val [OF pending_start [OF keep], of "(length a - ?keep + 3) div 4" "[]"]
      ceil4 [of "length a - ?keep"] by auto
  have "le_val (rev a) = le_val (rev (drop ?keep a))"
    by (subst takeWhile_split [of a 0]) (simp add: le_val_append le_val_zero_iff [THEN iffD2] list_all_length)
  with R show ?thesis by (auto simp: stripLeadingZeroBytes_def Let_def)
qed

lemma takeWhile_all: "length (takeWhile (\<lambda>x. x = c) xs) = length xs \<longleftrightarrow> list_all (\<lambda>x. x = c) xs"
  by (induction xs) auto

lemma le_val_ones: "le_val (replicate k (0xff :: byte)) = 2 ^ (8 * k) - 1"
proof (induction k)
  case (Suc k)
  have "uint (0xff :: byte) = 255" by simp
  with Suc show ?case by (simp only: replicate_Suc le_val.simps) (simp add: power_add)
qed simp

lemma makePositive_val:
  assumes "a \<noteq> []" "128 \<le> hd a"
  shows "\<exists>mag. makePositive a = Inr mag \<and> le_val (rev mag) = - tc_val a \<and> length mag \<le> length a div 4 + 1"
proof -
  define keep where "keep = length (takeWhile (\<lambda>x. x = 0xff) a)"
  define rest where "rest = drop keep a"
  define e :: nat where "e = (if keep + length (takeWhile (\<lambda>x. x = 0) rest) = length a then 1 else 0)"
  define n where "n = (length a - keep + e + 3) div 4"
  have keep: "keep \<le> length a" unfolding keep_def by (rule length_takeWhile_le)
  have len: "length a = keep + length rest" using keep by (simp add: rest_def)
  have e: "e = (if le_val (rev rest) = 0 then 1 else 0)"
    using takeWhile_all [of 0 rest] by (simp add: e_def len le_val_zero_iff)
  have split: "a = replicate keep 0xff @ rest" unfolding rest_def keep_def by (rule takeWhile_split)
  have ff: "0 < keep \<and> a ! (keep - 1) = 0xff" if "e = 1"
  proof -
    have "keep \<noteq> 0"
    proof
      assume "keep = 0"
      moreover have "le_val (rev rest) = 0" using that e by (cases "le_val (rev rest) = 0") simp_all
      ultimately have "list_all (\<lambda>x. x = 0) a" by (simp add: rest_def le_val_zero_iff)
      then show False using assms by (cases a) auto
    qed
    then have "(replicate keep 0xff @ rest) ! (keep - 1) = 0xff" by (simp add: nth_append)
    with \<open>keep \<noteq> 0\<close> show ?thesis by (simp only: split [symmetric]) simp
  qed
  have n4: "length rest + e \<le> 4 * n" "4 * n < length rest + e + 4" "e \<le> 1"
    using ceil4 [of "length rest + e"] by (simp_all add: n_def len e)
  have "length (rev rest) \<le> 4 * n" "4 * n < length (rev rest) + 4 \<or> 4 * n = length (rev rest) + 4 \<and> 0 < int keep \<and> a ! nat (int keep - 1) = 0xff"
    using ff n4 by (simp, cases "e = 1") (auto simp: nat_diff_distrib)
  then obtain R where R: "complement_loop a (int keep) n (int (length a) - 1) [] = Inr R"
    "length R = n" "le_val (rev R) = 2 ^ (8 * length rest) - 1 - le_val (rev rest)"
    using complement_loop_val [OF pending_start [OF keep], of n "[]"] by (auto simp: rest_def)
  have "8 * length rest + 8 * e \<le> 32 * n" using n4 by simp
  then have "(2 :: int) ^ (8 * length rest + 8 * e) \<le> 2 ^ (32 * n)" by (rule power_increasing) simp
  then have pow: "(2 :: int) ^ (8 * length rest) * 2 ^ (8 * e) \<le> 2 ^ (32 * n)" by (simp only: power_add)
  have "le_val (rev R) + 1 < 2 ^ (32 * n)"
  proof (cases "le_val (rev rest) = 0")
    case True
    then have "e = 1" by (simp add: e)
    then show ?thesis using n4(1) True unfolding R(3) by simp
  next
    case False
    then have "0 < le_val (rev rest)" "e = 0" using le_val_bounds(1) [of "rev rest"] by (simp_all add: e)
    moreover from this pow have "(2 :: int) ^ (8 * length rest) \<le> 2 ^ (32 * n)" by (simp only: mult_0_right power_0 mult_1_right)
    ultimately show ?thesis unfolding R(3) by linarith
  qed
  then have "le_val (rev R) + 1 < 2 ^ (32 * length (rev R))" using R(2) by simp
  from add_one_val [OF this] have mag: "le_val (add_one (rev R)) = 2 ^ (8 * length rest) - le_val (rev rest)"
    "length (add_one (rev R)) = n" using R by simp_all
  have "le_val (rev a) = le_val (rev rest) + 2 ^ (8 * length rest) * (2 ^ (8 * keep) - 1)"
    by (subst split) (simp add: le_val_append le_val_ones)
  then have "tc_val a = le_val (rev rest) - 2 ^ (8 * length rest)"
    using assms by (simp add: tc_val_def len algebra_simps flip: power_add)
  moreover have "n \<le> length a div 4 + 1" using ff n4 len by (cases "e = 1") auto
  moreover have "makePositive a = Inr (rev (add_one (rev R)))"
    using R(1) by (simp add: makePositive_def Let_def n_def e_def rest_def keep_def)
  ultimately show ?thesis using mag by simp
qed

lemma BigIntToJavaBytes_val: "tc_val (BigIntToJavaBytes v) = v" "BigIntToJavaBytes v \<noteq> []"
proof -
  note wf = NewBigInt_val(2) [of v]
  show "tc_val (BigIntToJavaBytes v) = v" by (simp add: BigIntToJavaBytes_def Bytes_tc_val(1) [OF wf] NewBigInt_val(1))
  show "BigIntToJavaBytes v \<noteq> []" using Bytes_tc_val(2) [OF wf] by (auto simp: BigIntToJavaBytes_def)
qed

lemma BigIntToJavaBytes_length:
  assumes "bs \<noteq> []"
  shows "length (BigIntToJavaBytes (tc_val bs)) \<le> length bs"
proof -
  let ?b = "NewBigInt (tc_val bs)"
  note wf = NewBigInt_val(2) [of "tc_val bs"]
  have "bitLength ?b \<le> 8 * length bs - 1"
  proof (rule ccontr)
    assume *: "\<not> bitLength ?b \<le> 8 * length bs - 1"
    then have "(2 :: int) ^ (8 * length bs - 1) \<le> 2 ^ (bitLength ?b - 1)" by (intro power_increasing) simp_all
    then show False
      using bitLength_bounds(3) [OF wf] tc_val_bounds [OF assms] * unfolding NewBigInt_val(1) by linarith
  qed
  with assms show ?thesis by (cases bs) (auto simp: BigIntToJavaBytes_def Bytes_tc_val(2) [OF NewBigInt_val(2)])
qed

section \<open>Properties\<close>

text \<open>
  C9: the bytes of an integer are its two's complement, as \<^verbatim>\<open>java.math.BigInteger\<close> has them, and no
  shorter sequence of bytes has that value.
\<close>

theorem BigIntToJavaBytes_minimal:
  "tc_val (BigIntToJavaBytes v) = v
   \<and> (\<forall>bs. bs = [] \<or> tc_val bs \<noteq> v \<or> length (BigIntToJavaBytes v) \<le> length bs)"
  using BigIntToJavaBytes_val(1) BigIntToJavaBytes_length by blast

theorem BigIntToJavaBytes_minimal_witness:
  "tc_val (BigIntToJavaBytes (tc_val [0xff, 0x80])) = tc_val [0xff, 0x80] \<and> length (BigIntToJavaBytes (tc_val [0xff, 0x80])) \<le> length [0x80 :: byte]"
  using BigIntToJavaBytes_minimal [of "tc_val [0xff, 0x80]"] by (auto simp: tc_val_def dest: spec [of _ "[0x80]"])


lemma JavaBytesToBigInt_tc:
  assumes "bs \<noteq> []" "length bs div 4 + 1 < maxMagLength"
  shows "JavaBytesToBigInt bs = Inr (Inr (tc_val bs))"
proof -
  obtain x xs where bs: "bs = x # xs" using assms(1) by (cases bs) auto
  show ?thesis
  proof (cases "128 \<le> x")
    case True
    then obtain mag where "makePositive bs = Inr mag" "le_val (rev mag) = - tc_val bs" "length mag \<le> length bs div 4 + 1"
      using makePositive_val [of bs] bs by auto
    with assms(2) True bs show ?thesis
      by (auto simp: JavaBytesToBigInt_def NewBigIntFromByteArray_def GoBigInt_val)
  next
    case False
    obtain mag where "stripLeadingZeroBytes bs = Inr mag" "le_val (rev mag) = le_val (rev bs)" "length mag \<le> length bs div 4 + 1"
      using stripLeadingZeroBytes_val [of bs] by blast
    with assms(2) False bs show ?thesis
      by (auto simp: JavaBytesToBigInt_def NewBigIntFromByteArray_def GoBigInt_val tc_val_def)
  qed
qed

text \<open>C10: an integer whose bytes are not longer than the format allows is read back from them.\<close>

theorem big_int_roundtrip:
  assumes "length (BigIntToJavaBytes v) div 4 + 1 < maxMagLength"
  shows "JavaBytesToBigInt (BigIntToJavaBytes v) = Inr (Inr v)"
proof -
  from JavaBytesToBigInt_tc [OF BigIntToJavaBytes_val(2) assms] show ?thesis by (simp add: BigIntToJavaBytes_val(1))
qed

theorem big_int_roundtrip_witness:
  "JavaBytesToBigInt (BigIntToJavaBytes (- 32768)) = Inr (Inr (- 32768))"
proof (rule big_int_roundtrip)
  have "length (BigIntToJavaBytes (- 32768)) \<le> 2" using BigIntToJavaBytes_length [of "[0x80, 0]"] by (simp add: tc_val_def)
  then show "length (BigIntToJavaBytes (- 32768)) div 4 + 1 < maxMagLength" by (simp add: maxMagLength_def)
qed

end
