(* ===== verification/Serialization.thy ===== *)
theory Serialization
  imports ObjectData BigInt Partition
begin

text \<open>
  The serialization service (\<^verbatim>\<open>internal/serialization/serialization.go\<close>) with the default serializers
  (\<^verbatim>\<open>default_serializer.go\<close>). Values of the types that have a serializer of their own here are
  constructors of \<open>goval\<close>. All others, the calendar types and the compact, portable, identified,
  custom and gob-encoded objects, are \<open>GOther\<close>; their serializers are a parameter.
\<close>

section \<open>Values and type ids\<close>

datatype 'x goval =
    GBool bool
  | GString gostring
  | GUInt8 byte
  | GUInt16 "16 word"
  | GInt i64
  | GInt8 byte
  | GInt16 i16
  | GInt32 i32
  | GInt64 i64
  | GFloat32 float32
  | GFloat64 float64
  | GBoolArray "bool list option"
  | GStringArray "gostring list option"
  | GUInt8Array "byte list option"
  | GUInt16Array "16 word list option"
  | GIntArray "i64 list option"
  | GInt16Array "i16 list option"
  | GInt32Array "i32 list option"
  | GInt64Array "i64 list option"
  | GFloat32Array "float32 list option"
  | GFloat64Array "float64 list option"
  | GSlice "'x goval option list option"
  | GUUID uuid
  | GTime i64
  | GBigInt "int option"
  | GDecimal "int option" i32
  | GJSON gostring
  | GOther 'x

text \<open>
  A \<^verbatim>\<open>time.Time\<close> is given by its \<^verbatim>\<open>UnixNano\<close>, a nil \<^verbatim>\<open>*big.Int\<close> is \<open>None\<close>, and \<^verbatim>\<open>nil\<close> itself is the absence of
  a value. The built-in types with their ids:
\<close>

datatype builtin_type =
    TNil | TPortable | TDataSerializable | TByte | TBool | TUInt16 | TInt16 | TInt32 | TInt64
  | TFloat32 | TFloat64 | TString | TByteArray | TBoolArray | TUInt16Array | TInt16Array
  | TInt32Array | TInt64Array | TFloat32Array | TFloat64Array | TStringArray | TUUID | TJavaClass
  | TJavaDate | TJavaBigInteger | TJavaDecimal | TJavaArray | TJavaArrayList | TJavaLinkedList
  | TJavaLocalDate | TJavaLocalTime | TJavaLocalDateTime | TJavaOffsetDateTime | TCompact
  | TJSONSerialization | TGobSerialization

definition type_ids :: "(builtin_type \<times> i32) list" where
  "type_ids =
     [(TNil, 0), (TPortable, - 1), (TDataSerializable, - 2), (TByte, - 3), (TBool, - 4),
      (TUInt16, - 5), (TInt16, - 6), (TInt32, - 7), (TInt64, - 8), (TFloat32, - 9),
      (TFloat64, - 10), (TString, - 11), (TByteArray, - 12), (TBoolArray, - 13),
      (TUInt16Array, - 14), (TInt16Array, - 15), (TInt32Array, - 16), (TInt64Array, - 17),
      (TFloat32Array, - 18), (TFloat64Array, - 19), (TStringArray, - 20), (TUUID, - 21),
      (TJavaClass, - 24), (TJavaDate, - 25), (TJavaBigInteger, - 26), (TJavaDecimal, - 27),
      (TJavaArray, - 28), (TJavaArrayList, - 29), (TJavaLinkedList, - 30),
      (TJavaLocalDate, - 51), (TJavaLocalTime, - 52), (TJavaLocalDateTime, - 53),
      (TJavaOffsetDateTime, - 54), (TCompact, - 55), (TJSONSerialization, - 130),
      (TGobSerialization, - 140)]"

definition type_id :: "builtin_type \<Rightarrow> i32" where
  "type_id t = the (map_of type_ids t)"

section \<open>Serializers\<close>

text \<open>
  What the service finds for the other types: the id and the \<^verbatim>\<open>Write\<close> method of the serializer of a
  value, and the \<^verbatim>\<open>Read\<close> methods by id.
\<close>

record 'x other_serializers =
  os_ID :: "'x \<Rightarrow> i32"
  os_Write :: "'x \<Rightarrow> data_output \<Rightarrow> data_output go"
  os_Read :: "i32 \<Rightarrow> (data_input \<Rightarrow> ('x goval option \<times> data_input) go) option"

fun lookupBuiltinSerializer :: "'x goval option \<Rightarrow> builtin_type option" where
  "lookupBuiltinSerializer None = Some TNil"
| "lookupBuiltinSerializer (Some (GBool _)) = Some TBool"
| "lookupBuiltinSerializer (Some (GString _)) = Some TString"
| "lookupBuiltinSerializer (Some (GUInt8 _)) = Some TByte"
| "lookupBuiltinSerializer (Some (GUInt16 _)) = Some TUInt16"
| "lookupBuiltinSerializer (Some (GInt _)) = Some TInt64"
| "lookupBuiltinSerializer (Some (GInt8 _)) = Some TByte"
| "lookupBuiltinSerializer (Some (GInt16 _)) = Some TInt16"
| "lookupBuiltinSerializer (Some (GInt32 _)) = Some TInt32"
| "lookupBuiltinSerializer (Some (GInt64 _)) = Some TInt64"
| "lookupBuiltinSerializer (Some (GFloat32 _)) = Some TFloat32"
| "lookupBuiltinSerializer (Some (GFloat64 _)) = Some TFloat64"
| "lookupBuiltinSerializer (Some (GBoolArray _)) = Some TBoolArray"
| "lookupBuiltinSerializer (Some (GStringArray _)) = Some TStringArray"
| "lookupBuiltinSerializer (Some (GUInt8Array _)) = Some TByteArray"
| "lookupBuiltinSerializer (Some (GUInt16Array _)) = Some TUInt16Array"
| "lookupBuiltinSerializer (Some (GIntArray _)) = Some TInt64Array"
| "lookupBuiltinSerializer (Some (GInt16Array _)) = Some TInt16Array"
| "lookupBuiltinSerializer (Some (GInt32Array _)) = Some TInt32Array"
| "lookupBuiltinSerializer (Some (GInt64Array _)) = Some TInt64Array"
| "lookupBuiltinSerializer (Some (GFloat32Array _)) = Some TFloat32Array"
| "lookupBuiltinSerializer (Some (GFloat64Array _)) = Some TFloat64Array"
| "lookupBuiltinSerializer (Some (GSlice _)) = Some TJavaArrayList"
| "lookupBuiltinSerializer (Some (GUUID _)) = Some TUUID"
| "lookupBuiltinSerializer (Some (GTime _)) = Some TJavaDate"
| "lookupBuiltinSerializer (Some (GBigInt _)) = Some TJavaBigInteger"
| "lookupBuiltinSerializer (Some (GDecimal _ _)) = Some TJavaDecimal"
| "lookupBuiltinSerializer (Some (GJSON _)) = Some TJSONSerialization"
| "lookupBuiltinSerializer (Some (GOther _)) = None"

definition FindSerializerFor :: "'x other_serializers \<Rightarrow> 'x goval option \<Rightarrow> i32" where
  "FindSerializerFor os v =
     (case lookupBuiltinSerializer v of
        Some t \<Rightarrow> type_id t
      | None \<Rightarrow> (case v of Some (GOther x) \<Rightarrow> os_ID os x | _ \<Rightarrow> 0))"

definition WriteBigInt :: "int option \<Rightarrow> data_output \<Rightarrow> data_output go" where
  "WriteBigInt b = WriteByteArray (Some (BigIntToJavaBytes (case b of None \<Rightarrow> 0 | Some n \<Rightarrow> n)))"

definition WriteDecimal :: "int option \<Rightarrow> i32 \<Rightarrow> data_output \<Rightarrow> data_output go" where
  "WriteDecimal unscaled scale out = bind_go (WriteBigInt unscaled out) (WriteInt32 scale)"

text \<open>The \<^verbatim>\<open>Write\<close> methods, with \<^verbatim>\<open>WriteObject\<close> on the elements of a slice.\<close>

fun serializer_Write :: "'x other_serializers \<Rightarrow> 'x goval option \<Rightarrow> data_output \<Rightarrow> data_output go"
  and write_elements :: "'x other_serializers \<Rightarrow> 'x goval option list \<Rightarrow> data_output \<Rightarrow> data_output go" where
  "serializer_Write os None out = Inr out"
| "serializer_Write os (Some (GBool v)) out = WriteBool v out"
| "serializer_Write os (Some (GString v)) out = WriteString v out"
| "serializer_Write os (Some (GUInt8 v)) out = WriteByte v out"
| "serializer_Write os (Some (GUInt16 v)) out = WriteUInt16 v out"
| "serializer_Write os (Some (GInt v)) out = WriteInt64 v out"
| "serializer_Write os (Some (GInt8 v)) out = WriteByte v out"
| "serializer_Write os (Some (GInt16 v)) out = WriteInt16 v out"
| "serializer_Write os (Some (GInt32 v)) out = WriteInt32 v out"
| "serializer_Write os (Some (GInt64 v)) out = WriteInt64 v out"
| "serializer_Write os (Some (GFloat32 v)) out = WriteFloat32 v out"
| "serializer_Write os (Some (GFloat64 v)) out = WriteFloat64 v out"
| "serializer_Write os (Some (GBoolArray v)) out = WriteBoolArray v out"
| "serializer_Write os (Some (GStringArray v)) out = WriteStringArray v out"
| "serializer_Write os (Some (GUInt8Array v)) out = WriteByteArray v out"
| "serializer_Write os (Some (GUInt16Array v)) out = WriteUInt16Array v out"
| "serializer_Write os (Some (GIntArray v)) out = WriteInt64Array (Some (case v of None \<Rightarrow> [] | Some xs \<Rightarrow> xs)) out"
| "serializer_Write os (Some (GInt16Array v)) out = WriteInt16Array v out"
| "serializer_Write os (Some (GInt32Array v)) out = WriteInt32Array v out"
| "serializer_Write os (Some (GInt64Array v)) out = WriteInt64Array v out"
| "serializer_Write os (Some (GFloat32Array v)) out = WriteFloat32Array v out"
| "serializer_Write os (Some (GFloat64Array v)) out = WriteFloat64Array v out"
| "serializer_Write os (Some (GSlice None)) out = WriteInt32 0 out"
| "serializer_Write os (Some (GSlice (Some vs))) out =
     bind_go (WriteInt32 (word_of_nat (length vs)) out) (write_elements os vs)"
| "serializer_Write os (Some (GUUID u)) out =
     bind_go (WriteInt64 (mostSigBits u) out) (WriteInt64 (leastSigBits u))"
| "serializer_Write os (Some (GTime ns)) out = WriteInt64 (word_of_int (go_quot (sint ns) 1000000)) out"
| "serializer_Write os (Some (GBigInt b)) out = WriteBigInt b out"
| "serializer_Write os (Some (GDecimal unscaled scale)) out = WriteDecimal unscaled scale out"
| "serializer_Write os (Some (GJSON v)) out = WriteString v out"
| "serializer_Write os (Some (GOther x)) out = os_Write os x out"
| "write_elements os [] out = Inr out"
| "write_elements os (v # vs) out =
     bind_go (WriteInt32 (FindSerializerFor os v) out) (\<lambda>out. bind_go (serializer_Write os v out) (write_elements os vs))"

section \<open>Deserializers\<close>

text \<open>
  The table of \<^verbatim>\<open>BuiltinDeserializers\<close> by id, without the calendar types and gob, which \<open>os_Read\<close> has.
\<close>

definition BuiltinDeserializers :: "(i32, builtin_type) gomap" where
  "BuiltinDeserializers =
     map (\<lambda>t. (type_id t, t))
       [TNil, TBool, TString, TByte, TUInt16, TInt16, TInt32, TInt64, TFloat32, TFloat64,
        TBoolArray, TStringArray, TByteArray, TUInt16Array, TInt16Array, TInt32Array, TInt64Array,
        TFloat32Array, TFloat64Array, TUUID, TJavaDate, TJavaBigInteger, TJavaDecimal,
        TJSONSerialization, TJavaArray, TJavaArrayList, TJavaLinkedList, TJavaClass]"

definition ReadBigInt :: "data_input \<Rightarrow> (int \<times> data_input) go" where
  "ReadBigInt inp =
     bind_go (ReadByteArray inp) (\<lambda>(bs, inp).
     bind_go (JavaBytesToBigInt (case bs of None \<Rightarrow> [] | Some bs \<Rightarrow> bs)) (\<lambda>res.
       case res of Inl e \<Rightarrow> Inl (PanicError ''creating BigInt from byte array'') | Inr b \<Rightarrow> Inr (b, inp)))"

definition ReadDecimal :: "data_input \<Rightarrow> ((int \<times> i32) \<times> data_input) go" where
  "ReadDecimal inp =
     bind_go (ReadBigInt inp) (\<lambda>(v, inp). bind_go (ReadInt32 inp) (\<lambda>(scale, inp). Inr ((v, scale), inp)))"

text \<open>\<open>rt\<close> is the \<^verbatim>\<open>Read\<close> method of a type, one level of nesting below.\<close>

definition ReadObject ::
  "'x other_serializers \<Rightarrow> (builtin_type \<Rightarrow> data_input \<Rightarrow> ('x goval option \<times> data_input) go) \<Rightarrow>
   data_input \<Rightarrow> ('x goval option \<times> data_input) go" where
  "ReadObject os rt inp =
     bind_go (ReadInt32 inp) (\<lambda>(typeID, inp).
       case map_of BuiltinDeserializers typeID of
         Some t \<Rightarrow> rt t inp
       | None \<Rightarrow> (case os_Read os typeID of
             Some rd \<Rightarrow> rd inp
           | None \<Rightarrow> Inl (PanicMessage ''serialization.Service.ReadObject: there is no suitable de-serializer'')))"

definition read_list ::
  "'x other_serializers \<Rightarrow> (builtin_type \<Rightarrow> data_input \<Rightarrow> ('x goval option \<times> data_input) go) \<Rightarrow>
   data_input \<Rightarrow> ('x goval option \<times> data_input) go" where
  "read_list os rt inp =
     bind_go (ReadInt32 inp) (\<lambda>(count, inp).
       if sint count < 0 then Inl MakeSliceLenOutOfRange
       else bind_go (read_times (nat (sint count)) (ReadObject os rt) inp) (\<lambda>(res, inp).
              Inr (Some (GSlice (Some res)), inp)))"

definition serializer_Read ::
  "'x other_serializers \<Rightarrow> (builtin_type \<Rightarrow> data_input \<Rightarrow> ('x goval option \<times> data_input) go) \<Rightarrow>
   builtin_type \<Rightarrow> data_input \<Rightarrow> ('x goval option \<times> data_input) go" where
  "serializer_Read os rt t =
     (case t of
        TNil \<Rightarrow> (\<lambda>inp. Inr (None, inp))
      | TBool \<Rightarrow> read_as (\<lambda>v. Some (GBool v)) ReadBool
      | TString \<Rightarrow> read_as (\<lambda>v. Some (GString v)) ReadString
      | TByte \<Rightarrow> read_as (\<lambda>v. Some (GUInt8 v)) ReadByte
      | TUInt16 \<Rightarrow> read_as (\<lambda>v. Some (GUInt16 v)) ReadUInt16
      | TInt16 \<Rightarrow> read_as (\<lambda>v. Some (GInt16 v)) ReadInt16
      | TInt32 \<Rightarrow> read_as (\<lambda>v. Some (GInt32 v)) ReadInt32
      | TInt64 \<Rightarrow> read_as (\<lambda>v. Some (GInt64 v)) ReadInt64
      | TFloat32 \<Rightarrow> read_as (\<lambda>v. Some (GFloat32 v)) ReadFloat32
      | TFloat64 \<Rightarrow> read_as (\<lambda>v. Some (GFloat64 v)) ReadFloat64
      | TBoolArray \<Rightarrow> read_as (\<lambda>v. Some (GBoolArray v)) ReadBoolArray
      | TStringArray \<Rightarrow> read_as (\<lambda>v. Some (GStringArray v)) ReadStringArray
      | TByteArray \<Rightarrow> read_as (\<lambda>v. Some (GUInt8Array v)) ReadByteArray
      | TUInt16Array \<Rightarrow> read_as (\<lambda>v. Some (GUInt16Array v)) ReadUInt16Array
      | TInt16Array \<Rightarrow> read_as (\<lambda>v. Some (GInt16Array v)) ReadInt16Array
      | TInt32Array \<Rightarrow> read_as (\<lambda>v. Some (GInt32Array v)) ReadInt32Array
      | TInt64Array \<Rightarrow> read_as (\<lambda>v. Some (GInt64Array v)) ReadInt64Array
      | TFloat32Array \<Rightarrow> read_as (\<lambda>v. Some (GFloat32Array v)) ReadFloat32Array
      | TFloat64Array \<Rightarrow> read_as (\<lambda>v. Some (GFloat64Array v)) ReadFloat64Array
      | TUUID \<Rightarrow> (\<lambda>inp. bind_go (ReadInt64 inp) (\<lambda>(most, inp). bind_go (ReadInt64 inp) (\<lambda>(least, inp).
          Inr (Some (GUUID (NewUUIDWith most least)), inp))))
      | TJavaDate \<Rightarrow> read_as (\<lambda>ms. Some (GTime (ms * 1000000))) ReadInt64
      | TJavaBigInteger \<Rightarrow> read_as (\<lambda>b. Some (GBigInt (Some b))) ReadBigInt
      | TJavaDecimal \<Rightarrow> read_as (\<lambda>(b, scale). Some (GDecimal (Some b) scale)) ReadDecimal
      | TJSONSerialization \<Rightarrow> read_as (\<lambda>v. Some (GJSON v)) ReadString
      | TJavaClass \<Rightarrow> read_as (\<lambda>v. Some (GString v)) ReadString
      | TJavaArray \<Rightarrow> read_list os rt
      | TJavaArrayList \<Rightarrow> read_list os rt
      | TJavaLinkedList \<Rightarrow> read_list os rt
      | _ \<Rightarrow> (\<lambda>inp. Inl NilDereference))"

text \<open>
  \<^verbatim>\<open>Read\<close> with a bound on the nesting of lists. Each level takes the bytes of a count and an id, so the
  length of the data is bound enough.
\<close>

primrec read_typed ::
  "'x other_serializers \<Rightarrow> nat \<Rightarrow> builtin_type \<Rightarrow> data_input \<Rightarrow> ('x goval option \<times> data_input) go" where
  "read_typed os 0 = (\<lambda>t inp. Inl Diverges)"
| "read_typed os (Suc f) = serializer_Read os (read_typed os f)"

section \<open>The service\<close>

text \<open>\<^verbatim>\<open>makeError\<close> turns a recovered panic into an error.\<close>

fun makeError :: "go_panic \<Rightarrow> go_error" where
  "makeError (PanicMessage s) = NewSerializationError (gostr s) None"
| "makeError (PanicError s) = OtherError (gostr s)"
| "makeError (PanicIllegalArgument s) = ClientError s None (Some (Sentinel ErrIllegalArgument))"
| "makeError (PanicSerialization s) = NewSerializationError s None"
| "makeError EOFError = ClientError (gostr ''cannot read'') None (Some (Sentinel ErrEOF))"
| "makeError NegativePositionError = ClientError (gostr ''negative pos'') None (Some (Sentinel ErrIllegalArgument))"
| "makeError _ = OtherError (gostr ''runtime error'')"

definition recovered :: "(go_error + 'a) go \<Rightarrow> go_error + 'a" where
  "recovered m = (case m of Inl p \<Rightarrow> Inl (makeError p) | Inr r \<Rightarrow> r)"

definition ToData :: "bool \<Rightarrow> 'x other_serializers \<Rightarrow> 'x goval option \<Rightarrow> go_error + data" where
  "ToData littleEndian os v =
     (if v = None then Inr None
      else recovered (
        bind_go (WriteInt32BigEndian 0 (NewObjectDataOutput 16 (\<not> littleEndian))) (\<lambda>out.
        bind_go (WriteInt32BigEndian (FindSerializerFor os v) out) (\<lambda>out.
        bind_go (serializer_Write os v out) (\<lambda>out.
        bind_go (go_slice (o_buffer out) [] 0 (sint (o_position out))) (\<lambda>d. Inr (Inr (Some d))))))))"

definition ToObject :: "bool \<Rightarrow> 'x other_serializers \<Rightarrow> data \<Rightarrow> go_error + 'x goval option" where
  "ToObject littleEndian os d =
     (case d of
        None \<Rightarrow> Inr None
      | Some bs \<Rightarrow> recovered (
          bind_go (data_Type d) (\<lambda>typeID.
            let inp = NewObjectDataInput d [] DataOffset (\<not> littleEndian)
            in case map_of BuiltinDeserializers typeID of
                 Some t \<Rightarrow> bind_go (read_typed os (length bs) t inp) (\<lambda>(v, _). Inr (Inr v))
               | None \<Rightarrow> (case os_Read os typeID of
                     Some rd \<Rightarrow> bind_go (rd inp) (\<lambda>(v, _). Inr (Inr v))
                   | None \<Rightarrow> Inr (Inl (NewSerializationError
                       (gostr ''serialization.Service.ToObject: there is no suitable de-serializer for type '' @ itoa (sint typeID)) None))))))"

section \<open>The bytes of a value\<close>

text \<open>The values that are written with one call.\<close>

fun wire_of :: "'x goval \<Rightarrow> wire_value option" where
  "wire_of (GBool v) = Some (VBool v)"
| "wire_of (GString v) = Some (VString v)"
| "wire_of (GUInt8 v) = Some (VByte v)"
| "wire_of (GUInt16 v) = Some (VUInt16 v)"
| "wire_of (GInt v) = Some (VInt64 v)"
| "wire_of (GInt8 v) = Some (VByte v)"
| "wire_of (GInt16 v) = Some (VInt16 v)"
| "wire_of (GInt32 v) = Some (VInt32 v)"
| "wire_of (GInt64 v) = Some (VInt64 v)"
| "wire_of (GFloat32 v) = Some (VFloat32 v)"
| "wire_of (GFloat64 v) = Some (VFloat64 v)"
| "wire_of (GBoolArray v) = Some (VBoolArray v)"
| "wire_of (GStringArray v) = Some (VStringArray v)"
| "wire_of (GUInt8Array v) = Some (VByteArray v)"
| "wire_of (GUInt16Array v) = Some (VUInt16Array v)"
| "wire_of (GIntArray v) = Some (VInt64Array (Some (case v of None \<Rightarrow> [] | Some xs \<Rightarrow> xs)))"
| "wire_of (GInt16Array v) = Some (VInt16Array v)"
| "wire_of (GInt32Array v) = Some (VInt32Array v)"
| "wire_of (GInt64Array v) = Some (VInt64Array v)"
| "wire_of (GFloat32Array v) = Some (VFloat32Array v)"
| "wire_of (GFloat64Array v) = Some (VFloat64Array v)"
| "wire_of (GTime ns) = Some (VInt64 (word_of_int (go_quot (sint ns) 1000000)))"
| "wire_of (GBigInt b) = Some (VByteArray (Some (BigIntToJavaBytes (case b of None \<Rightarrow> 0 | Some n \<Rightarrow> n))))"
| "wire_of (GJSON v) = Some (VString v)"
| "wire_of _ = None"

definition builtin_id :: "'x goval option \<Rightarrow> i32" where
  "builtin_id v = (case lookupBuiltinSerializer v of Some t \<Rightarrow> type_id t | None \<Rightarrow> 0)"

fun enc_goval :: "byte_order \<Rightarrow> 'x goval option \<Rightarrow> byte list" where
  "enc_goval bo None = []"
| "enc_goval bo (Some (GSlice None)) = enc_len bo 0"
| "enc_goval bo (Some (GSlice (Some vs))) =
     enc_len bo (length vs) @ concat (map (\<lambda>v. bo_bytes bo 4 (builtin_id v) @ enc_goval bo v) vs)"
| "enc_goval bo (Some (GUUID u)) = bo_bytes bo 8 (mostSigBits u) @ bo_bytes bo 8 (leastSigBits u)"
| "enc_goval bo (Some (GDecimal b scale)) = enc_value bo (the (wire_of (GBigInt b :: 'x goval))) @ bo_bytes bo 4 scale"
| "enc_goval bo (Some v) = (case wire_of v of Some w \<Rightarrow> enc_value bo w | None \<Rightarrow> [])"

text \<open>
  What comes back of a value: Go's \<^verbatim>\<open>int\<close> and \<^verbatim>\<open>int8\<close> as the types of their encodings, a nil \<^verbatim>\<open>[]int\<close> or
  \<^verbatim>\<open>[]interface{}\<close> as an empty slice, a nil \<^verbatim>\<open>*big.Int\<close> as zero, a time to the millisecond.
\<close>

fun canon :: "'x goval option \<Rightarrow> 'x goval option" where
  "canon (Some (GInt v)) = Some (GInt64 v)"
| "canon (Some (GInt8 v)) = Some (GUInt8 v)"
| "canon (Some (GIntArray v)) = Some (GInt64Array (Some (case v of None \<Rightarrow> [] | Some xs \<Rightarrow> xs)))"
| "canon (Some (GSlice None)) = Some (GSlice (Some []))"
| "canon (Some (GSlice (Some vs))) = Some (GSlice (Some (map canon vs)))"
| "canon (Some (GTime ns)) = Some (GTime (word_of_int (go_quot (sint ns) 1000000) * 1000000))"
| "canon (Some (GBigInt b)) = Some (GBigInt (Some (case b of None \<Rightarrow> 0 | Some n \<Rightarrow> n)))"
| "canon (Some (GDecimal b scale)) = Some (GDecimal (Some (case b of None \<Rightarrow> 0 | Some n \<Rightarrow> n)) scale)"
| "canon v = v"

definition big_ok :: "int option \<Rightarrow> bool" where
  "big_ok b \<longleftrightarrow> length (BigIntToJavaBytes (case b of None \<Rightarrow> 0 | Some n \<Rightarrow> n)) div 4 + 1 < maxMagLength"

text \<open>Values of the built-in types, with integers that are not too long for the format.\<close>

fun val_ok :: "'x goval option \<Rightarrow> bool" where
  "val_ok (Some (GOther x)) \<longleftrightarrow> False"
| "val_ok (Some (GSlice (Some vs))) \<longleftrightarrow> list_all val_ok vs"
| "val_ok (Some (GBigInt b)) \<longleftrightarrow> big_ok b"
| "val_ok (Some (GDecimal b _)) \<longleftrightarrow> big_ok b"
| "val_ok _ \<longleftrightarrow> True"

fun depth :: "'x goval option \<Rightarrow> nat" where
  "depth (Some (GSlice (Some vs))) = Suc (sum_list (map depth vs))"
| "depth _ = 1"

section \<open>Writing\<close>

lemma builtin_lookup:
  "lookupBuiltinSerializer v = Some t \<Longrightarrow> map_of BuiltinDeserializers (type_id t) = Some t"
proof (rule map_of_is_SomeI)
  show "distinct (map fst BuiltinDeserializers)" by code_simp
  show "lookupBuiltinSerializer v = Some t \<Longrightarrow> (type_id t, t) \<in> set BuiltinDeserializers"
    by (cases v rule: lookupBuiltinSerializer.cases) (simp_all add: BuiltinDeserializers_def)
qed

lemma val_ok_lookup: "val_ok v \<Longrightarrow> \<exists>t. lookupBuiltinSerializer v = Some t"
  by (cases v rule: lookupBuiltinSerializer.cases) auto

lemma FindSerializerFor_ok: "val_ok v \<Longrightarrow> FindSerializerFor os v = builtin_id v"
  using val_ok_lookup [of v] by (auto simp: FindSerializerFor_def builtin_id_def)

lemma Write_wire: "wire_of v = Some w \<Longrightarrow> serializer_Write os (Some v) = write_value w"
  by (cases v) (auto intro!: ext simp: WriteBigInt_def)

lemma write_elements_for_each:
  "write_elements os vs = for_each (\<lambda>v out. bind_go (WriteInt32 (FindSerializerFor os v) out) (serializer_Write os v)) vs"
proof (induction vs)
  case Nil
  show ?case by (rule ext) simp
next
  case (Cons v vs)
  then show ?case by (intro ext) (simp add: bind_go_assoc)
qed

lemma enc_wire: "wire_of v = Some w \<Longrightarrow> enc_goval bo (Some v) = enc_value bo w"
  by (cases v) auto

lemma Write_direct:
  "appends (serializer_Write os None) (\<lambda>bo. [])"
  "appends (serializer_Write os (Some (GSlice None))) (\<lambda>bo. enc_len bo 0)"
  "appends (serializer_Write os (Some (GUUID u))) (\<lambda>bo. bo_bytes bo 8 (mostSigBits u) @ bo_bytes bo 8 (leastSigBits u))"
proof -
  have "serializer_Write os None = Inr" "serializer_Write os (Some (GSlice None)) = WriteInt32 (word_of_nat 0)"
    "serializer_Write os (Some (GUUID u)) = (\<lambda>out. bind_go (WriteInt64 (mostSigBits u) out) (WriteInt64 (leastSigBits u)))"
    by (intro ext; simp)+
  then show "appends (serializer_Write os None) (\<lambda>bo. [])"
    "appends (serializer_Write os (Some (GSlice None))) (\<lambda>bo. enc_len bo 0)"
    "appends (serializer_Write os (Some (GUUID u))) (\<lambda>bo. bo_bytes bo 8 (mostSigBits u) @ bo_bytes bo 8 (leastSigBits u))"
    using appends_Inr WriteLen_appends [of 0] appends_bind [OF WriteInt64_appends WriteInt64_appends, of "mostSigBits u" "leastSigBits u"]
    by simp_all
qed

lemma Write_appends: "val_ok v \<Longrightarrow> appends (serializer_Write os v) (\<lambda>bo. enc_goval bo v)"
proof (induction v rule: val_ok.induct)
  case (2 vs)
  have "appends (\<lambda>out. bind_go (WriteInt32 (FindSerializerFor os v) out) (serializer_Write os v))
      (\<lambda>bo. bo_bytes bo 4 (builtin_id v) @ enc_goval bo v)" if "v \<in> set vs" for v
    using appends_bind [OF WriteInt32_appends 2(1) [OF that], of "FindSerializerFor os v"] 2(2) that
    by (simp add: FindSerializerFor_ok list_all_iff)
  from appends_bind [OF WriteLen_appends [of "length vs"] appends_for_each [OF this]]
  have "appends (\<lambda>out. bind_go (WriteInt32 (word_of_nat (length vs)) out) (write_elements os vs)) (\<lambda>bo. enc_goval bo (Some (GSlice (Some vs))))"
    by (simp add: write_elements_for_each)
  moreover have "serializer_Write os (Some (GSlice (Some vs))) = (\<lambda>out. bind_go (WriteInt32 (word_of_nat (length vs)) out) (write_elements os vs))"
    by (rule ext) simp
  ultimately show ?case by simp
next
  case (4 b scale)
  have "serializer_Write os (Some (GDecimal b scale)) = (\<lambda>out. bind_go (WriteBigInt b out) (WriteInt32 scale))"
    by (rule ext) (simp add: WriteDecimal_def)
  then show ?case unfolding WriteBigInt_def
    using appends_bind [OF WriteByteArray_appends WriteInt32_appends [of scale]] by simp
qed (simp_all add: Write_wire write_value_appends Write_direct del: write_value.simps enc_value.simps)

section \<open>Reading\<close>

lemma ReadBigInt_reads:
  assumes "big_ok b"
  shows "reads ReadBigInt (\<lambda>bo. enc_array (\<lambda>_ b. [b]) bo (Some (BigIntToJavaBytes (case b of None \<Rightarrow> 0 | Some n \<Rightarrow> n)))) (case b of None \<Rightarrow> 0 | Some n \<Rightarrow> n)"
proof -
  let ?n = "case b of None \<Rightarrow> 0 | Some n \<Rightarrow> n"
  have "JavaBytesToBigInt (BigIntToJavaBytes ?n) = Inr (Inr ?n)"
    using JavaBytesToBigInt_tc [OF BigIntToJavaBytes_val(2)] assms by (simp add: big_ok_def BigIntToJavaBytes_val(1))
  then have "reads (\<lambda>inp. bind_go (ReadByteArray inp) (\<lambda>(bs, inp). bind_go (JavaBytesToBigInt (case bs of None \<Rightarrow> [] | Some bs \<Rightarrow> bs))
      (\<lambda>res. case res of Inl e \<Rightarrow> Inl (PanicError ''creating BigInt from byte array'') | Inr b \<Rightarrow> Inr (b, inp))))
      (\<lambda>bo. enc_array (\<lambda>_ b. [b]) bo (Some (BigIntToJavaBytes ?n)) @ []) ?n"
    by (intro reads_bind [OF ReadByteArray_reads]) (simp add: reads_Inr)
  then show ?thesis by (simp add: ReadBigInt_def [abs_def])
qed

lemma ReadObject_reads:
  assumes "val_ok v" "\<And>t. lookupBuiltinSerializer v = Some t \<Longrightarrow> reads (rt t) (\<lambda>bo. enc_goval bo v) w"
  shows "reads (ReadObject os rt) (\<lambda>bo. bo_bytes bo 4 (builtin_id v) @ enc_goval bo v) w"
proof -
  obtain t where t: "lookupBuiltinSerializer v = Some t" using val_ok_lookup [OF assms(1)] by blast
  then have "builtin_id v = type_id t" "map_of BuiltinDeserializers (type_id t) = Some t"
    using builtin_lookup by (auto simp: builtin_id_def)
  then show ?thesis unfolding ReadObject_def [abs_def]
    using assms(2) [OF t] by (intro reads_bind [OF ReadInt32_reads]) simp
qed

lemma read_list_reads:
  assumes "\<And>v. v \<in> set vs \<Longrightarrow> reads (ReadObject os rt) (\<lambda>bo. bo_bytes bo 4 (builtin_id v) @ enc_goval bo v) (canon v)"
  shows "reads (read_list os rt) (\<lambda>bo. enc_goval bo (Some (GSlice (Some vs)))) (canon (Some (GSlice (Some vs))))"
proof -
  have len: "length vs \<le> length (concat (map (\<lambda>v. bo_bytes bo 4 (builtin_id v) @ enc_goval bo v) vs))" for bo
    by (induction vs) simp_all
  have "reads (\<lambda>inp. bind_go (readInt32 inp) (\<lambda>(count, inp). if sint count < 0 then Inl MakeSliceLenOutOfRange
       else bind_go (read_times (nat (sint count)) (ReadObject os rt) inp) (\<lambda>(res, inp). Inr (Some (GSlice (Some res)), inp))))
      (\<lambda>bo. enc_len bo (length vs) @ concat (map (\<lambda>v. bo_bytes bo 4 (builtin_id v) @ enc_goval bo v) vs))
      (Some (GSlice (Some (map canon vs))))"
    using reads_map [OF reads_times_map [OF assms], where f = "\<lambda>res. Some (GSlice (Some res))"] len
    by (intro reads_len_bind) (simp_all add: sint_len)
  then show ?thesis by (simp add: read_list_def [abs_def] ReadInt32_def)
qed

lemma read_as_readsI: "reads rd bs v \<Longrightarrow> f v = w \<Longrightarrow> reads (read_as f rd) bs w"
  using read_as_reads [of rd bs v f] by simp

lemmas wire_reads =
  bool_wire.rd_reads string_wire.rd_reads byte_wire.rd_reads uInt16_wire.rd_reads int16_wire.rd_reads
  int32_wire.rd_reads int64_wire.rd_reads float32_wire.rd_reads float64_wire.rd_reads boolArray_wire.rd_reads
  stringArray_wire.rd_reads byteArray_wire.rd_reads uInt16Array_wire.rd_reads int16Array_wire.rd_reads
  int32Array_wire.rd_reads int64Array_wire.rd_reads float32Array_wire.rd_reads float64Array_wire.rd_reads

lemma Read_direct:
  "reads (\<lambda>inp. bind_go (ReadInt64 inp) (\<lambda>(most, inp). bind_go (ReadInt64 inp) (\<lambda>(least, inp).
     Inr (Some (GUUID (NewUUIDWith most least)), inp))))
     (\<lambda>bo. bo_bytes bo 8 (mostSigBits u) @ bo_bytes bo 8 (leastSigBits u)) (Some (GUUID u))"
  "big_ok b \<Longrightarrow> reads (read_as (\<lambda>(b, scale). Some (GDecimal (Some b) scale)) ReadDecimal)
     (\<lambda>bo. enc_array (\<lambda>_ b. [b]) bo (Some (BigIntToJavaBytes (case b of None \<Rightarrow> 0 | Some n \<Rightarrow> n))) @ bo_bytes bo 4 scale)
     (Some (GDecimal (Some (case b of None \<Rightarrow> 0 | Some n \<Rightarrow> n)) scale))"
proof -
  have "reads (\<lambda>inp. bind_go (ReadInt64 inp) (\<lambda>(least, inp). Inr (Some (GUUID (NewUUIDWith (mostSigBits u) least)), inp)))
      (\<lambda>bo. bo_bytes bo 8 (leastSigBits u)) (Some (GUUID u))"
    using reads_map [OF ReadInt64_reads [of "leastSigBits u"], of "\<lambda>least. Some (GUUID (NewUUIDWith (mostSigBits u) least))"]
    by (cases u) (simp add: NewUUIDWith_def)
  then show "reads (\<lambda>inp. bind_go (ReadInt64 inp) (\<lambda>(most, inp). bind_go (ReadInt64 inp) (\<lambda>(least, inp).
     Inr (Some (GUUID (NewUUIDWith most least)), inp))))
     (\<lambda>bo. bo_bytes bo 8 (mostSigBits u) @ bo_bytes bo 8 (leastSigBits u)) (Some (GUUID u))"
    by (rule reads_bind [OF ReadInt64_reads])
next
  assume b: "big_ok b"
  let ?n = "case b of None \<Rightarrow> 0 | Some n \<Rightarrow> n"
  have "reads ReadDecimal (\<lambda>bo. enc_array (\<lambda>_ b. [b]) bo (Some (BigIntToJavaBytes (case b of None \<Rightarrow> 0 | Some n \<Rightarrow> n))) @ bo_bytes bo 4 scale) (?n, scale)"
    unfolding ReadDecimal_def [abs_def]
    by (rule reads_bind [OF ReadBigInt_reads [OF b]]) (rule reads_map [OF ReadInt32_reads])
  from read_as_reads [OF this, of "\<lambda>(b, scale). Some (GDecimal (Some b) scale)"]
  show "reads (read_as (\<lambda>(b, scale). Some (GDecimal (Some b) scale)) ReadDecimal)
     (\<lambda>bo. enc_array (\<lambda>_ b. [b]) bo (Some (BigIntToJavaBytes (case b of None \<Rightarrow> 0 | Some n \<Rightarrow> n))) @ bo_bytes bo 4 scale)
     (Some (GDecimal (Some ?n) scale))" by simp
qed

lemma read_empty: "reads (read_list os rt) (\<lambda>bo. enc_len bo 0) (Some (GSlice (Some [])))"
  using read_list_reads [of "[]"] by simp

lemma depth_pos: "0 < depth v"
  by (cases v rule: depth.cases) simp_all

lemma depth_element: "v \<in> set vs \<Longrightarrow> depth v < depth (Some (GSlice (Some vs)))"
  by (simp add: less_Suc_eq_le member_le_sum_list)

text \<open>The types without nesting.\<close>

lemma Read_flat:
  assumes "val_ok v" "lookupBuiltinSerializer v = Some t" "t \<noteq> TJavaArrayList"
  shows "reads (serializer_Read os rt t) (\<lambda>bo. enc_goval bo v) (canon v)"
proof (cases v)
  case None
  with assms show ?thesis by (auto simp: serializer_Read_def reads_Inr)
next
  case (Some w)
  show ?thesis
  proof (cases w)
    case (GUUID u)
    with assms Some Read_direct(1) [of u] show ?thesis by (auto simp: serializer_Read_def)
  next
    case (GDecimal b scale)
    with assms Some Read_direct(2) [of b scale] show ?thesis by (auto simp: serializer_Read_def)
  next
    case (GBigInt b)
    with assms Some ReadBigInt_reads [of b] show ?thesis by (auto simp: serializer_Read_def intro!: read_as_readsI)
  qed (use assms Some in \<open>simp_all add: serializer_Read_def\<close>, (rule read_as_readsI, rule wire_reads, simp)+)
qed

lemma read_typed_reads:
  "val_ok v \<Longrightarrow> depth v \<le> f \<Longrightarrow> lookupBuiltinSerializer v = Some t \<Longrightarrow>
   reads (read_typed os f t) (\<lambda>bo. enc_goval bo v) (canon v)"
proof (induction f arbitrary: v t)
  case (Suc f)
  show ?case
  proof (cases "t = TJavaArrayList")
    case True
    then obtain w where v: "v = Some (GSlice w)" using Suc.prems(3) by (cases v rule: lookupBuiltinSerializer.cases) auto
    show ?thesis
    proof (cases w)
      case None
      with True v read_empty show ?thesis by (simp add: serializer_Read_def)
    next
      case (Some vs)
      have "reads (read_list os (read_typed os f)) (\<lambda>bo. enc_goval bo (Some (GSlice (Some vs)))) (canon (Some (GSlice (Some vs))))"
      proof (rule read_list_reads, rule ReadObject_reads)
        fix u assume u: "u \<in> set vs"
        show "val_ok u" using Suc.prems(1) u by (simp add: v Some list_all_iff)
        then show "reads (read_typed os f t) (\<lambda>bo. enc_goval bo u) (canon u)" if "lookupBuiltinSerializer u = Some t" for t
          using Suc.IH [of u t] that depth_element [OF u] Suc.prems(2) by (simp add: v Some)
      qed
      with True v Some show ?thesis by (simp add: serializer_Read_def)
    qed
  next
    case False
    with Suc.prems Read_flat show ?thesis by simp
  qed
next
  case 0
  with depth_pos [of v] show ?case by simp
qed

end
