(* ===== verification/NearCacheRecord.thy ===== *)
theory NearCacheRecord
  imports Partition
begin

text \<open>
  The records of a Near Cache: the seconds they keep instead of milliseconds
  (\<^verbatim>\<open>internal/nearcache/time.go\<close>), the record itself (\<^verbatim>\<open>record.go\<close>), the eviction policies as
  comparators of candidates (\<^verbatim>\<open>comparators.go\<close>) and the choice of a victim
  (\<^verbatim>\<open>evaluateForEviction\<close> of \<^verbatim>\<open>record_store.go\<close>).

  A Go \<^verbatim>\<open>interface{}\<close> that holds a key or a value is \<open>'o iface option\<close>: \<open>None\<close> is the nil interface,
  \<open>IData\<close> serialized data (which may itself be a nil slice), \<open>IDataString\<close> the hashable text form of
  data, and \<open>IObj\<close> any other object; objects used as keys are of comparable types.
\<close>

section \<open>Times\<close>

abbreviation (input) MaxInt32 :: int where "MaxInt32 \<equiv> 2147483647"

definition MaxInt64 :: i64 where "MaxInt64 = 0x7FFFFFFFFFFFFFFF"

definition timeUnset :: i32 where "timeUnset = - 1"

definition zeroOutMs :: "i64 \<Rightarrow> i64" where
  "zeroOutMs ms = word_of_int (go_quot (sint ms) 1000) * 1000"

definition EpochTimeMillis :: i64 where "EpochTimeMillis = zeroOutMs 1514764800000"

definition StripBaseTime :: "i64 \<Rightarrow> i32" where
  "StripBaseTime ms =
     (if ms = MaxInt64 then word_of_int MaxInt32
      else if sint ms \<le> 0 then timeUnset
      else let toSeconds = go_quot (sint (ms - EpochTimeMillis)) 1000
           in if toSeconds \<ge> MaxInt32 then word_of_int MaxInt32 else word_of_int toSeconds)"

definition RecomputeWithBaseTime :: "i32 \<Rightarrow> i64" where
  "RecomputeWithBaseTime seconds =
     (if seconds = timeUnset then 0
      else if sint seconds = MaxInt32 then MaxInt64
      else EpochTimeMillis + scast seconds * 1000)"

section \<open>Records\<close>

datatype 'o iface = IData data | IDataString "byte list" | IObj 'o

record 'o nc_record =
  rec_invalidationSequence :: i64
  rec_reservationID :: i64
  rec_value :: "'o iface option"
  rec_uuid :: uuid
  rec_creationTime :: i32
  rec_lastAccessTime :: i32
  rec_expirationTime :: i32
  rec_hits :: i32
  rec_cachedAsNil :: bool
  rec_partitionID :: i32

text \<open>
  \<^verbatim>\<open>uuid\<close> is an \<^verbatim>\<open>atomic.Value\<close> read as the zero UUID when nothing is stored, and \<^verbatim>\<open>cachedAsNil\<close>
  an \<^verbatim>\<open>int32\<close> that is 0 or 1. The last access time of a new record is Go's zero value.
\<close>

definition SetCreationTime :: "i64 \<Rightarrow> 'o nc_record \<Rightarrow> 'o nc_record" where
  "SetCreationTime ms r = r\<lparr>rec_creationTime := StripBaseTime ms\<rparr>"

definition SetLastAccessTime :: "i64 \<Rightarrow> 'o nc_record \<Rightarrow> 'o nc_record" where
  "SetLastAccessTime ms r = r\<lparr>rec_lastAccessTime := StripBaseTime ms\<rparr>"

definition SetExpirationTIme :: "i64 \<Rightarrow> 'o nc_record \<Rightarrow> 'o nc_record" where
  "SetExpirationTIme ms r = r\<lparr>rec_expirationTime := StripBaseTime ms\<rparr>"

definition NewRecord :: "'o iface option \<Rightarrow> i64 \<Rightarrow> i64 \<Rightarrow> 'o nc_record" where
  "NewRecord value creationTime expirationTime =
     SetExpirationTIme expirationTime (SetCreationTime creationTime
       \<lparr>rec_invalidationSequence = 0, rec_reservationID = 0, rec_value = value, rec_uuid = zero_uuid,
        rec_creationTime = 0, rec_lastAccessTime = 0, rec_expirationTime = 0, rec_hits = 0,
        rec_cachedAsNil = False, rec_partitionID = 0\<rparr>)"

definition IncrementHits :: "'o nc_record \<Rightarrow> 'o nc_record" where
  "IncrementHits r = r\<lparr>rec_hits := rec_hits r + 1\<rparr>"

definition CreationTime :: "'o nc_record \<Rightarrow> i64" where
  "CreationTime r = RecomputeWithBaseTime (rec_creationTime r)"

definition LastAccessTime :: "'o nc_record \<Rightarrow> i64" where
  "LastAccessTime r = RecomputeWithBaseTime (rec_lastAccessTime r)"

definition ExpirationTime :: "'o nc_record \<Rightarrow> i64" where
  "ExpirationTime r = RecomputeWithBaseTime (rec_expirationTime r)"

definition IsExpiredAt :: "'o nc_record \<Rightarrow> i64 \<Rightarrow> bool" where
  "IsExpiredAt r ms \<longleftrightarrow> 0 < sint (ExpirationTime r) \<and> sint (ExpirationTime r) \<le> sint ms"

definition IsIdleAt :: "'o nc_record \<Rightarrow> i64 \<Rightarrow> i64 \<Rightarrow> bool" where
  "IsIdleAt r maxIdleMS nowMS \<longleftrightarrow>
     (if sint maxIdleMS \<le> 0 then False
      else let lat = LastAccessTime r
           in if 0 < sint lat then sint (lat + maxIdleMS) < sint nowMS
              else sint (CreationTime r + maxIdleMS) < sint nowMS)"

section \<open>Eviction policies\<close>

type_synonym 'o candidate = "'o iface option \<times> 'o nc_record"
type_synonym 'o comparator = "'o candidate \<Rightarrow> 'o candidate \<Rightarrow> int"

definition candidate_Hits :: "'o candidate \<Rightarrow> i64" where
  "candidate_Hits e = scast (rec_hits (snd e))"

definition candidate_CreationTime :: "'o candidate \<Rightarrow> i64" where
  "candidate_CreationTime e = CreationTime (snd e)"

definition candidate_LastAccessTime :: "'o candidate \<Rightarrow> i64" where
  "candidate_LastAccessTime e = LastAccessTime (snd e)"

definition maxInt64 :: "i64 \<Rightarrow> i64 \<Rightarrow> i64" where
  "maxInt64 a b = (if sint b \<le> sint a then a else b)"

definition LRUEvictionPolicyComparator :: "'o comparator" where
  "LRUEvictionPolicyComparator e1 e2 =
     (let time1 = maxInt64 (candidate_CreationTime e1) (candidate_LastAccessTime e1);
          time2 = maxInt64 (candidate_CreationTime e2) (candidate_LastAccessTime e2)
      in if sint time1 < sint time2 then - 1 else if sint time1 > sint time2 then 1 else 0)"

definition LFUEvictionPolicyComparator :: "'o comparator" where
  "LFUEvictionPolicyComparator e1 e2 =
     (let result = candidate_Hits e1 - candidate_Hits e2;
          result = (if result = 0 then candidate_CreationTime e1 - candidate_CreationTime e2 else result)
      in if sint result < 0 then - 1 else if sint result > 0 then 1 else 0)"

definition RandomEvictionPolicyComparator :: "'o comparator" where
  "RandomEvictionPolicyComparator e1 e2 = 0"

text \<open>
  The loop of \<^verbatim>\<open>evaluateForEviction\<close> after its first round, which has selected a candidate, and the
  whole function; the zero candidate of an empty sample is \<open>None\<close>.
\<close>

fun evaluate_loop :: "'o comparator \<Rightarrow> i64 \<Rightarrow> 'o candidate \<Rightarrow> 'o candidate list \<Rightarrow> 'o candidate" where
  "evaluate_loop cmp now selected [] = selected"
| "evaluate_loop cmp now selected (current # candies) =
     (if IsExpiredAt (snd current) now then current
      else evaluate_loop cmp now (if cmp current selected < 0 then current else selected) candies)"

fun evaluateForEviction :: "'o comparator \<Rightarrow> i64 \<Rightarrow> 'o candidate list \<Rightarrow> 'o candidate option" where
  "evaluateForEviction cmp now [] = None"
| "evaluateForEviction cmp now (c # candies) = Some (evaluate_loop cmp now c candies)"

section \<open>Facts\<close>

lemma EpochTimeMillis_eq: "EpochTimeMillis = 1514764800000"
  by (simp add: EpochTimeMillis_def zeroOutMs_def go_quot_def)

lemma sint_EpochTimeMillis: "sint EpochTimeMillis = 1514764800000"
  by (simp add: EpochTimeMillis_eq)

lemma sint64_of_int: "- (2 ^ 63) \<le> k \<Longrightarrow> k < 2 ^ 63 \<Longrightarrow> sint (word_of_int k :: i64) = k"
  by (simp add: signed_of_int signed_take_bit_int_eq_self)

lemma sint64_bounds: "- (2 ^ 63) \<le> sint (a :: i64)" "sint (a :: i64) < 2 ^ 63"
  using sint_greater_eq [of a] sint_less [of a] by simp_all

lemma sint64_add:
  "- (2 ^ 63) \<le> sint a + sint b \<Longrightarrow> sint a + sint b < 2 ^ 63 \<Longrightarrow> sint (a + b) = sint a + sint (b :: i64)"
  by (simp add: sint_word_ariths signed_take_bit_int_eq_self)

lemma sint64_diff:
  "- (2 ^ 63) \<le> sint a - sint b \<Longrightarrow> sint a - sint b < 2 ^ 63 \<Longrightarrow> sint (a - b) = sint a - sint (b :: i64)"
  by (simp add: sint_word_ariths signed_take_bit_int_eq_self)

lemma sint_scast_i64 [simp]: "sint (scast (a :: i32) :: i64) = sint a"
  using sint32_bounds [of a] by (simp only: scast_eq) (rule sint64_of_int, simp_all)

lemma sint_MaxInt64: "sint MaxInt64 = 2 ^ 63 - 1"
  by (simp add: MaxInt64_def)

text \<open>What a record keeps of a moment after the epoch: the moment with its milliseconds dropped.\<close>

lemma strip_recompute:
  assumes "1514764800000 \<le> sint ms" and "sint ms < 1514764800000 + 1000 * MaxInt32"
  shows "sint (RecomputeWithBaseTime (StripBaseTime ms)) = sint ms - sint ms mod 1000"
proof -
  define d where "d = sint ms - 1514764800000"
  have d: "sint (ms - EpochTimeMillis) = d"
    using assms by (subst sint64_diff) (simp_all add: sint_EpochTimeMillis d_def)
  define k where "k = d div 1000"
  have q: "go_quot d 1000 = k" using assms by (simp add: go_quot_nonneg d_def k_def)
  have k: "0 \<le> k" "k < MaxInt32" using assms by (auto simp: d_def k_def)
  have ms: "ms \<noteq> MaxInt64" using assms by (auto simp: sint_MaxInt64)
  have strip: "StripBaseTime ms = word_of_int k"
    using assms k by (simp add: StripBaseTime_def d q ms Let_def)
  have s: "sint (word_of_int k :: i32) = k"
    using k by (simp add: sint32_of_int)
  then have unset: "(word_of_int k :: i32) \<noteq> timeUnset"
    using k by (auto simp: timeUnset_def)
  have "scast (word_of_int k :: i32) = (word_of_int k :: i64)"
    using s by (metis scast_eq)
  then have "EpochTimeMillis + scast (word_of_int k :: i32) * 1000 = word_of_int (1514764800000 + k * 1000)"
    by (simp add: EpochTimeMillis_eq)
  moreover have "sint (word_of_int (1514764800000 + k * 1000) :: i64) = 1514764800000 + k * 1000"
    using k by (intro sint64_of_int) simp_all
  ultimately have r: "sint (RecomputeWithBaseTime (StripBaseTime ms)) = 1514764800000 + k * 1000"
    using k s unset by (simp only: RecomputeWithBaseTime_def strip if_False) simp
  have "d = sint ms + - 1514764800 * 1000" by (simp add: d_def)
  then have m: "d mod 1000 = sint ms mod 1000" by (simp only: mod_mult_self1)
  have "k * 1000 = d - sint ms mod 1000" by (simp only: k_def minus_mod_eq_div_mult flip: m)
  moreover have "1514764800000 + (d - r) = sint ms - r" for r by (simp add: d_def)
  ultimately show ?thesis by (simp only: r)
qed

lemma strip_recompute_late:
  assumes "1514764800000 + 1000 * MaxInt32 \<le> sint ms"
  shows "RecomputeWithBaseTime (StripBaseTime ms) = MaxInt64"
proof -
  have d: "sint (ms - EpochTimeMillis) = sint ms - 1514764800000"
    using assms sint64_bounds [of ms] by (subst sint64_diff) (simp_all add: sint_EpochTimeMillis)
  have "MaxInt32 \<le> (sint ms - 1514764800000) div 1000"
    using assms by simp
  then have "StripBaseTime ms = word_of_int MaxInt32"
    using assms by (simp add: StripBaseTime_def d go_quot_nonneg)
  then show ?thesis by (simp add: RecomputeWithBaseTime_def timeUnset_def)
qed

lemma NewRecord_simps [simp]:
  "rec_value (NewRecord v c e) = v"
  "rec_creationTime (NewRecord v c e) = StripBaseTime c"
  "rec_expirationTime (NewRecord v c e) = StripBaseTime e"
  "rec_lastAccessTime (NewRecord v c e) = 0"
  "rec_reservationID (NewRecord v c e) = 0"
  "rec_cachedAsNil (NewRecord v c e) = False"
  "rec_hits (NewRecord v c e) = 0"
  by (simp_all add: NewRecord_def SetCreationTime_def SetExpirationTIme_def)

section \<open>The contract of an eviction comparator\<close>

text \<open>
  What the choice of a victim needs of a comparator: on the candidates it may meet, \<open>less than\<close> is a
  strict order. A comparator configured by the user has to promise the same.
\<close>

locale eviction_comparator =
  fixes cmp :: "'o comparator" and ok :: "'o candidate \<Rightarrow> bool"
  assumes cmp_irrefl: "ok x \<Longrightarrow> \<not> cmp x x < 0"
    and cmp_trans: "ok x \<Longrightarrow> ok y \<Longrightarrow> ok z \<Longrightarrow> cmp x y < 0 \<Longrightarrow> cmp y z < 0 \<Longrightarrow> cmp x z < 0"
begin

lemma loop_minimal:
  assumes "\<forall>c\<in>set (sel # candies). ok c" and "\<forall>c\<in>set candies. \<not> IsExpiredAt (snd c) now"
    and "\<forall>y\<in>seen. ok y \<and> \<not> cmp y sel < 0"
  shows "evaluate_loop cmp now sel candies \<in> set (sel # candies)
    \<and> (\<forall>y\<in>set (sel # candies) \<union> seen. \<not> cmp y (evaluate_loop cmp now sel candies) < 0)"
  using assms
proof (induction candies arbitrary: sel seen)
  case Nil
  then show ?case by (auto simp: cmp_irrefl)
next
  case (Cons c candies)
  let ?sel = "if cmp c sel < 0 then c else sel"
  have ok: "ok c" "ok sel" "\<forall>y\<in>seen. ok y \<and> \<not> cmp y sel < 0" using Cons.prems by simp_all
  have "\<not> cmp y ?sel < 0" if "y \<in> insert c (insert sel seen)" for y
    using that ok cmp_irrefl [of c] cmp_irrefl [of sel] cmp_trans [of y c sel] cmp_trans [of sel c sel]
    by (auto split: if_splits)
  then have "\<forall>y\<in>insert c (insert sel seen). ok y \<and> \<not> cmp y ?sel < 0" using ok by blast
  with Cons.IH [of ?sel "insert c (insert sel seen)"] Cons.prems show ?case by auto
qed

lemma victim_minimal:
  assumes "candies \<noteq> []" and "\<forall>c\<in>set candies. ok c" and "\<forall>c\<in>set (tl candies). \<not> IsExpiredAt (snd c) now"
  shows "\<exists>v\<in>set candies. evaluateForEviction cmp now candies = Some v
    \<and> (\<forall>y\<in>set candies. \<not> cmp y v < 0)"
proof (cases candies)
  case (Cons c cs)
  with assms loop_minimal [of c cs now "{}"] show ?thesis by auto
qed (simp add: assms)

end

lemma evaluate_loop_mem: "evaluate_loop cmp now sel candies \<in> set (sel # candies)"
proof (induction candies arbitrary: sel)
  case (Cons c candies)
  from Cons.IH [of c] Cons.IH [of sel] show ?case by auto
qed simp

lemma evaluateForEviction_mem: "evaluateForEviction cmp now candies = Some v \<Longrightarrow> v \<in> set candies"
  using evaluate_loop_mem by (cases "(cmp, now, candies)" rule: evaluateForEviction.cases) fastforce+

lemma evaluate_loop_expired:
  "\<exists>c\<in>set candies. IsExpiredAt (snd c) now \<Longrightarrow> IsExpiredAt (snd (evaluate_loop cmp now sel candies)) now"
  by (induction candies arbitrary: sel) auto

interpretation lru: eviction_comparator LRUEvictionPolicyComparator "\<lambda>_. True"
  by unfold_locales (auto simp: LRUEvictionPolicyComparator_def Let_def split: if_splits)

text \<open>The moment at which \<^verbatim>\<open>LRU\<close> sees a candidate used, and the rank \<^verbatim>\<open>LFU\<close> gives it.\<close>

definition used_at :: "'o candidate \<Rightarrow> int" where
  "used_at e = max (sint (candidate_CreationTime e)) (sint (candidate_LastAccessTime e))"

lemma lru_less: "LRUEvictionPolicyComparator x y < 0 \<longleftrightarrow> used_at x < used_at y"
  by (simp add: LRUEvictionPolicyComparator_def used_at_def maxInt64_def Let_def max_def)

lemma lfu_less:
  assumes "0 \<le> sint (candidate_CreationTime x)" "0 \<le> sint (candidate_CreationTime y)"
  shows "LFUEvictionPolicyComparator x y < 0 \<longleftrightarrow>
    sint (rec_hits (snd x)) < sint (rec_hits (snd y)) \<or>
    rec_hits (snd x) = rec_hits (snd y) \<and> sint (candidate_CreationTime x) < sint (candidate_CreationTime y)"
proof -
  have h: "sint (candidate_Hits x - candidate_Hits y) = sint (rec_hits (snd x)) - sint (rec_hits (snd y))"
    using sint32_bounds [of "rec_hits (snd x)"] sint32_bounds [of "rec_hits (snd y)"]
    by (subst sint64_diff) (simp_all add: candidate_Hits_def)
  have c: "sint (candidate_CreationTime x - candidate_CreationTime y) =
      sint (candidate_CreationTime x) - sint (candidate_CreationTime y)"
    using assms sint64_bounds [of "candidate_CreationTime x"] sint64_bounds [of "candidate_CreationTime y"]
    by (intro sint64_diff) simp_all
  have z: "candidate_Hits x - candidate_Hits y = 0 \<longleftrightarrow> rec_hits (snd x) = rec_hits (snd y)"
    using h by (metis diff_self right_minus_eq signed_word_eqI sint_0)
  show ?thesis
    unfolding LFUEvictionPolicyComparator_def Let_def z using h c by auto
qed

interpretation lfu: eviction_comparator LFUEvictionPolicyComparator
  "\<lambda>e. 0 \<le> sint (candidate_CreationTime e)"
  by unfold_locales (auto simp: lfu_less)

interpretation random_policy: eviction_comparator RandomEvictionPolicyComparator "\<lambda>_. True"
  by unfold_locales (simp_all add: RandomEvictionPolicyComparator_def)

section \<open>Properties\<close>

text \<open>
  A record whose expiration falls within the range of the clock of the records expires exactly
  from the start of the second its expiration lies in: never later than asked, and less than one
  second early.
\<close>

theorem IsExpiredAt_second:
  assumes "1514764800000 \<le> sint e" and "sint e < 1514764800000 + 1000 * 2147483647"
  shows "IsExpiredAt (NewRecord v c e) now \<longleftrightarrow> sint e - sint e mod 1000 \<le> sint now"
proof -
  have "sint (ExpirationTime (NewRecord v c e)) = sint e - sint e mod 1000"
    using strip_recompute [OF assms] by (simp add: ExpirationTime_def)
  moreover have "0 < sint e - m" if "m < 1000" for m using assms(1) that by linarith
  then have "0 < sint e - sint e mod 1000" by simp
  ultimately show ?thesis by (simp only: IsExpiredAt_def simp_thms)
qed

theorem IsExpiredAt_second_witness:
  "IsExpiredAt (NewRecord (None :: nat iface option) 0 1600000001234) 1600000001000
   \<and> \<not> IsExpiredAt (NewRecord (None :: nat iface option) 0 1600000001234) 1600000000999"
  using IsExpiredAt_second [of 1600000001234 None 0 1600000001000]
    IsExpiredAt_second [of 1600000001234 None 0 1600000000999]
  by simp

text \<open>
  C27: the least recently used candidate is evicted: the victim is a candidate that was created or
  read no later than any other, unless a candidate after the first has expired, and then an expired
  one is taken.
\<close>

theorem lru_victim:
  assumes "candies \<noteq> []"
  shows "\<exists>v\<in>set candies. evaluateForEviction LRUEvictionPolicyComparator now candies = Some v \<and>
    (if \<exists>c\<in>set (tl candies). IsExpiredAt (snd c) now then IsExpiredAt (snd v) now
     else \<forall>y\<in>set candies. used_at v \<le> used_at y)"
proof (cases "\<exists>c\<in>set (tl candies). IsExpiredAt (snd c) now")
  case True
  obtain c cs where cs: "candies = c # cs" using assms by (cases candies) auto
  with True evaluate_loop_mem [of LRUEvictionPolicyComparator now c cs]
    evaluate_loop_expired [of cs now LRUEvictionPolicyComparator c]
  show ?thesis by (metis evaluateForEviction.simps(2) list.sel(3))
next
  case False
  with lru.victim_minimal [of candies now] assms show ?thesis by (auto simp: lru_less not_less)
qed

theorem lru_victim_witness:
  "\<exists>v\<in>set [(Some (IObj (1::nat)), NewRecord None 1600000000000 (-1)), (Some (IObj 2), NewRecord None 1500000000000 (-1))].
    evaluateForEviction LRUEvictionPolicyComparator 1700000000000
      [(Some (IObj 1), NewRecord None 1600000000000 (-1)), (Some (IObj 2), NewRecord None 1500000000000 (-1))] = Some v"
  using lru_victim [of "[(Some (IObj (1::nat)), NewRecord None 1600000000000 (-1)), (Some (IObj 2), NewRecord None 1500000000000 (-1))]"
    1700000000000] by blast

text \<open>
  The least frequently used candidate is evicted: when no candidate after the first has expired
  and creation times are not before 1970, the victim has the fewest hits, and among those with as
  many hits it is the oldest.
\<close>

theorem lfu_victim:
  assumes "candies \<noteq> []" and "\<forall>c\<in>set (tl candies). \<not> IsExpiredAt (snd c) now"
    and "\<forall>c\<in>set candies. 0 \<le> sint (candidate_CreationTime c)"
  shows "\<exists>v\<in>set candies. evaluateForEviction LFUEvictionPolicyComparator now candies = Some v \<and>
    (\<forall>y\<in>set candies. sint (rec_hits (snd v)) < sint (rec_hits (snd y)) \<or>
       rec_hits (snd v) = rec_hits (snd y) \<and> sint (candidate_CreationTime v) \<le> sint (candidate_CreationTime y))"
proof -
  obtain v where v: "v \<in> set candies" "evaluateForEviction LFUEvictionPolicyComparator now candies = Some v"
    and "\<forall>y\<in>set candies. \<not> LFUEvictionPolicyComparator y v < 0"
    using lfu.victim_minimal [of candies now] assms by blast
  then have "\<forall>y\<in>set candies. sint (rec_hits (snd v)) < sint (rec_hits (snd y)) \<or>
       rec_hits (snd v) = rec_hits (snd y) \<and> sint (candidate_CreationTime v) \<le> sint (candidate_CreationTime y)"
    using assms(3) by (simp add: lfu_less) (metis linorder_less_linear not_less signed_word_eqI)
  with v show ?thesis by blast
qed

theorem lfu_victim_witness:
  "\<exists>v\<in>set [(Some (IObj (1::nat)), NewRecord None 1600000000000 (-1)), (Some (IObj 2), NewRecord None 1500000000000 (-1))].
    evaluateForEviction LFUEvictionPolicyComparator 1700000000000
      [(Some (IObj 1), NewRecord None 1600000000000 (-1)), (Some (IObj 2), NewRecord None 1500000000000 (-1))] = Some v"
  using lfu_victim [of "[(Some (IObj (1::nat)), NewRecord None 1600000000000 (-1)), (Some (IObj 2), NewRecord None 1500000000000 (-1))]"
    1700000000000]
  by (auto simp: IsExpiredAt_def ExpirationTime_def candidate_CreationTime_def CreationTime_def)

text \<open>
  C28: a record that was never read counts as idle since the beginning of 2018 rather than since its
  creation, because its last access time is the zero of the clock and not \<open>timeUnset\<close>. Once
  the maximum idle time has passed since that moment, a new record is idle as soon as it is made.
\<close>

theorem unread_record_idle:
  assumes "0 < sint maxIdle" and "sint maxIdle < 2 ^ 62"
  shows "IsIdleAt (NewRecord v c e) maxIdle now \<longleftrightarrow> 1514764800000 + sint maxIdle < sint now"
proof -
  have "LastAccessTime (NewRecord v c e) = EpochTimeMillis"
    by (simp add: LastAccessTime_def RecomputeWithBaseTime_def timeUnset_def)
  moreover have "sint (EpochTimeMillis + maxIdle) = 1514764800000 + sint maxIdle"
    using assms by (subst sint64_add) (simp_all only: sint_EpochTimeMillis, simp_all)
  ultimately show ?thesis using assms(1) by (simp add: IsIdleAt_def sint_EpochTimeMillis)
qed

theorem unread_record_idle_witness:
  "IsIdleAt (NewRecord (None :: nat iface option) 1700000000000 (-1)) 60000 1700000000000"
  using unread_record_idle [of 60000 None 1700000000000 "-1" 1700000000000] by simp
end
