(* ===== verification/RecordStore.thy ===== *)
theory RecordStore
  imports NearCacheRecord
begin

text \<open>
  The record store of a Near Cache: \<^verbatim>\<open>internal/nearcache/record_store.go\<close>, the two storage adapters
  (\<^verbatim>\<open>store_adapter.go\<close>), the invalidation metadata of the partitions (\<^verbatim>\<open>MetaDataContainer\<close> of
  \<^verbatim>\<open>repairing_task.go\<close>) and the detector of stale reads (\<^verbatim>\<open>stale_read_detector.go\<close>).

  Each operation holds \<^verbatim>\<open>recordsMu\<close> while it works on the map, so it is one step on the store. The
  serialization service, the current time and the order in which Go iterates over the map are
  arguments; so is the detector, because the containers it points to belong to the repairing handler
  and change between operations. The fields of the statistics that no operation writes are left out.
\<close>

section \<open>Invalidation metadata and stale reads\<close>

record meta_data =
  md_seq :: i64
  md_staleSeq :: i64
  md_missedSeqs :: i64
  md_uuid :: uuid

definition NewMetaDataContainer :: meta_data where
  "NewMetaDataContainer = \<lparr>md_seq = 0, md_staleSeq = 0, md_missedSeqs = 0, md_uuid = zero_uuid\<rparr>"

record stale_read_detector =
  sr_metadataContainers :: "meta_data list"
  sr_ps :: partition_service

definition hasSameUUID :: "uuid \<Rightarrow> uuid \<Rightarrow> bool" where
  "hasSameUUID u1 u2 \<longleftrightarrow> u1 \<noteq> zero_uuid \<and> u2 \<noteq> zero_uuid \<and> u1 = u2"

definition GetMetaDataContainer :: "stale_read_detector \<Rightarrow> i32 \<Rightarrow> meta_data go" where
  "GetMetaDataContainer sr partitionID = go_index (sr_metadataContainers sr) (sint partitionID)"

definition IsStaleRead :: "stale_read_detector \<Rightarrow> 'o nc_record \<Rightarrow> bool go" where
  "IsStaleRead sr r =
     bind_go (GetMetaDataContainer sr (rec_partitionID r)) (\<lambda>md.
       Inr (\<not> hasSameUUID (rec_uuid r) (md_uuid md)
            \<or> sint (rec_invalidationSequence r) < sint (md_staleSeq md)))"

section \<open>Storage adapters\<close>

record 'o ser_service =
  ss_ToData :: "'o iface option \<Rightarrow> go_error + data"
  ss_ToObject :: "data \<Rightarrow> go_error + 'o iface option"

datatype store_adapter = nearCacheDataStoreAdapter | nearCacheValueStoreAdapter

fun ConvertValue :: "store_adapter \<Rightarrow> 'o ser_service \<Rightarrow> 'o iface option \<Rightarrow> go_error + 'o iface option" where
  "ConvertValue nearCacheDataStoreAdapter ss None = Inr None"
| "ConvertValue nearCacheDataStoreAdapter ss (Some v) =
     bind_go (ss_ToData ss (Some v)) (\<lambda>d. Inr (Some (IData d)))"
| "ConvertValue nearCacheValueStoreAdapter ss (Some (IData d)) = ss_ToObject ss d"
| "ConvertValue nearCacheValueStoreAdapter ss value = Inr value"

text \<open>The fixed costs are those of a 64-bit platform.\<close>

definition recordCostInBytes :: int where
  "recordCostInBytes = 8 + 5 * 8 + 3 * 4 + 1 * 8 + 1 * 16"

fun GetRecordStorageMemoryCost :: "store_adapter \<Rightarrow> 'o nc_record \<Rightarrow> i64 go" where
  "GetRecordStorageMemoryCost nearCacheDataStoreAdapter r = (case rec_value r of
     None \<Rightarrow> Inr (word_of_int recordCostInBytes)
   | Some (IData d) \<Rightarrow> Inr (word_of_int (recordCostInBytes + DataSize d))
   | Some _ \<Rightarrow> Inl TypeAssertionFailed)"
| "GetRecordStorageMemoryCost nearCacheValueStoreAdapter r = Inr 0"

section \<open>The store and its statistics\<close>

definition RecordNotReserved :: i64 where "RecordNotReserved = - 1"
definition RecordReadPermitted :: i64 where "RecordReadPermitted = - 2"
definition RecordStoreTimeNotSet :: i64 where "RecordStoreTimeNotSet = - 1"
definition RecordStoreSampleCount :: nat where "RecordStoreSampleCount = 15"

record nc_stats =
  InvalidationRequests :: i64
  Misses :: i64
  Hits :: i64
  Expirations :: i64
  Evictions :: i64
  OwnedEntryCount :: i64
  OwnedEntryMemoryCost :: i64
  Invalidations :: i64

definition zero_stats :: nc_stats where
  "zero_stats = \<lparr>InvalidationRequests = 0, Misses = 0, Hits = 0, Expirations = 0, Evictions = 0,
     OwnedEntryCount = 0, OwnedEntryMemoryCost = 0, Invalidations = 0\<rparr>"

record 'o record_store =
  rs_stats :: nc_stats
  rs_maxIdleMillis :: i64
  rs_reservationID :: i64
  rs_timeToLiveMillis :: i64
  rs_records :: "('o iface option, 'o nc_record) gomap"
  rs_adapter :: store_adapter
  rs_evictionDisabled :: bool
  rs_maxSize :: int
  rs_cmp :: "'o comparator option"

datatype eviction_policy =
  EvictionPolicyLRU | EvictionPolicyLFU | EvictionPolicyNone | EvictionPolicyRandom

datatype in_memory_format = InMemoryFormatBinary | InMemoryFormatObject

record 'o nc_config =
  cfg_TimeToLiveSeconds :: int
  cfg_MaxIdleSeconds :: int
  cfg_SerializeKeys :: bool
  cfg_InMemoryFormat :: in_memory_format
  cfg_policy :: "eviction_policy option"
  cfg_size :: "i32 option"
  cfg_comparator :: "'o comparator option"

definition eviction_Policy :: "'o nc_config \<Rightarrow> eviction_policy" where
  "eviction_Policy cfg = (case cfg_policy cfg of None \<Rightarrow> EvictionPolicyLRU | Some p \<Rightarrow> p)"

definition eviction_Size :: "'o nc_config \<Rightarrow> int" where
  "eviction_Size cfg = (case cfg_size cfg of None \<Rightarrow> 10000 | Some n \<Rightarrow> sint n)"

definition getEvictionPolicyComparator :: "'o nc_config \<Rightarrow> 'o comparator option" where
  "getEvictionPolicyComparator cfg = (case cfg_comparator cfg of
     Some cmp \<Rightarrow> Some cmp
   | None \<Rightarrow> (case eviction_Policy cfg of
       EvictionPolicyLRU \<Rightarrow> Some LRUEvictionPolicyComparator
     | EvictionPolicyLFU \<Rightarrow> Some LFUEvictionPolicyComparator
     | EvictionPolicyRandom \<Rightarrow> Some RandomEvictionPolicyComparator
     | EvictionPolicyNone \<Rightarrow> None))"

definition NewRecordStore :: "'o nc_config \<Rightarrow> store_adapter \<Rightarrow> 'o record_store" where
  "NewRecordStore cfg adapter =
     \<lparr>rs_stats = zero_stats, rs_maxIdleMillis = word_of_int (cfg_MaxIdleSeconds cfg * 1000),
      rs_reservationID = 0, rs_timeToLiveMillis = word_of_int (cfg_TimeToLiveSeconds cfg * 1000),
      rs_records = [], rs_adapter = adapter,
      rs_evictionDisabled = (eviction_Policy cfg = EvictionPolicyNone),
      rs_maxSize = eviction_Size cfg, rs_cmp = getEvictionPolicyComparator cfg\<rparr>"

text \<open>The counters, changed atomically.\<close>

definition incrementHits :: "'o record_store \<Rightarrow> 'o record_store" where
  "incrementHits s = s\<lparr>rs_stats := (rs_stats s)\<lparr>Hits := Hits (rs_stats s) + 1\<rparr>\<rparr>"

definition incrementMisses :: "'o record_store \<Rightarrow> 'o record_store" where
  "incrementMisses s = s\<lparr>rs_stats := (rs_stats s)\<lparr>Misses := Misses (rs_stats s) + 1\<rparr>\<rparr>"

definition incrementExpirations :: "'o record_store \<Rightarrow> 'o record_store" where
  "incrementExpirations s = s\<lparr>rs_stats := (rs_stats s)\<lparr>Expirations := Expirations (rs_stats s) + 1\<rparr>\<rparr>"

definition incrementEvictions :: "'o record_store \<Rightarrow> 'o record_store" where
  "incrementEvictions s = s\<lparr>rs_stats := (rs_stats s)\<lparr>Evictions := Evictions (rs_stats s) + 1\<rparr>\<rparr>"

definition incrementInvalidations :: "'o record_store \<Rightarrow> 'o record_store" where
  "incrementInvalidations s = s\<lparr>rs_stats := (rs_stats s)\<lparr>Invalidations := Invalidations (rs_stats s) + 1\<rparr>\<rparr>"

definition incrementInvalidationRequests :: "'o record_store \<Rightarrow> 'o record_store" where
  "incrementInvalidationRequests s =
     s\<lparr>rs_stats := (rs_stats s)\<lparr>InvalidationRequests := InvalidationRequests (rs_stats s) + 1\<rparr>\<rparr>"

definition addOwnedEntryCount :: "i64 \<Rightarrow> 'o record_store \<Rightarrow> 'o record_store" where
  "addOwnedEntryCount n s = s\<lparr>rs_stats := (rs_stats s)\<lparr>OwnedEntryCount := OwnedEntryCount (rs_stats s) + n\<rparr>\<rparr>"

definition addOwnedEntryMemoryCost :: "i64 \<Rightarrow> 'o record_store \<Rightarrow> 'o record_store" where
  "addOwnedEntryMemoryCost n s =
     s\<lparr>rs_stats := (rs_stats s)\<lparr>OwnedEntryMemoryCost := OwnedEntryMemoryCost (rs_stats s) + n\<rparr>\<rparr>"

section \<open>Keys\<close>

fun makeMapKey :: "'o iface option \<Rightarrow> 'o iface option" where
  "makeMapKey (Some (IData d)) = Some (IDataString (data_bytes d))"
| "makeMapKey key = key"

fun unMakeMapKey :: "'o iface option \<Rightarrow> 'o iface option" where
  "unMakeMapKey (Some (IDataString ds)) = Some (IData (Some ds))"
| "unMakeMapKey key = key"

text \<open>Looking a key up in the map hashes it, and a byte slice cannot be hashed.\<close>

fun records_index :: "('o iface option, 'r) gomap \<Rightarrow> 'o iface option \<Rightarrow> 'r option go" where
  "records_index m (Some (IData d)) = Inl UnhashableType"
| "records_index m key = Inr (map_of m key)"

fun getKeyStorageMemoryCost :: "'o iface option \<Rightarrow> i64" where
  "getKeyStorageMemoryCost (Some (IData d)) = word_of_int (8 + DataSize d)"
| "getKeyStorageMemoryCost key = 0"

definition getTotalStorageMemoryCost :: "'o record_store \<Rightarrow> 'o iface option \<Rightarrow> 'o nc_record \<Rightarrow> i64 go" where
  "getTotalStorageMemoryCost s key r =
     bind_go (GetRecordStorageMemoryCost (rs_adapter s) r)
       (\<lambda>c. Inr (getKeyStorageMemoryCost (unMakeMapKey key) + c))"

section \<open>Operations\<close>

definition canUpdateStats :: "'o nc_record \<Rightarrow> bool" where
  "canUpdateStats r \<longleftrightarrow> rec_reservationID r = RecordReadPermitted"

definition store_Clear :: "'o record_store \<Rightarrow> 'o record_store" where
  "store_Clear s =
     (let sz = length (rs_records s);
          st = (rs_stats s)\<lparr>OwnedEntryCount := 0, OwnedEntryMemoryCost := 0,
                            Invalidations := Invalidations (rs_stats s) + word_of_nat sz\<rparr>
      in incrementInvalidationRequests (s\<lparr>rs_records := [], rs_stats := st\<rparr>))"

definition store_Invalidate :: "'o iface option \<Rightarrow> 'o record_store \<Rightarrow> 'o record_store go" where
  "store_Invalidate key s =
     (let key = makeMapKey key
      in bind_go (records_index (rs_records s) key) (\<lambda>found. case found of
           None \<Rightarrow> Inr (incrementInvalidationRequests s)
         | Some r \<Rightarrow>
             (let s' = s\<lparr>rs_records := AList.delete key (rs_records s)\<rparr>
              in if canUpdateStats r
                 then bind_go (getTotalStorageMemoryCost s' key r) (\<lambda>cost.
                        Inr (incrementInvalidationRequests (incrementInvalidations
                               (addOwnedEntryMemoryCost (- cost) (addOwnedEntryCount (- 1) s')))))
                 else Inr (incrementInvalidationRequests s'))))"

definition recordExpired :: "'o record_store \<Rightarrow> 'o nc_record \<Rightarrow> i64 \<Rightarrow> bool" where
  "recordExpired s r nowMS \<longleftrightarrow>
     (if \<not> canUpdateStats r then False
      else if IsExpiredAt r nowMS then True
      else IsIdleAt r (rs_maxIdleMillis s) nowMS)"

definition toValue :: "'o ser_service \<Rightarrow> 'o iface option \<Rightarrow> go_error + 'o iface option" where
  "toValue ss v = (case v of Some (IData d) \<Rightarrow> ss_ToObject ss d | _ \<Rightarrow> Inr v)"

definition store_Get ::
  "'o ser_service \<Rightarrow> stale_read_detector option \<Rightarrow> i64 \<Rightarrow> 'o iface option \<Rightarrow> 'o record_store \<Rightarrow>
   ((go_error + ('o iface option \<times> bool)) \<times> 'o record_store) go" where
  "store_Get ss sr nowMS key s =
     (let key = makeMapKey key
      in bind_go (records_index (rs_records s) key) (\<lambda>found. case found of
           None \<Rightarrow> Inr (Inr (None, False), incrementMisses s)
         | Some r \<Rightarrow>
             if rec_reservationID r \<noteq> RecordReadPermitted \<and> \<not> rec_cachedAsNil r \<and> rec_value r = None
             then Inr (Inr (None, False), incrementMisses s)
             else bind_go (case sr of None \<Rightarrow> Inr False | Some d \<Rightarrow> IsStaleRead d r) (\<lambda>stale.
               if stale
               then bind_go (store_Invalidate key s) (\<lambda>s'. Inr (Inr (None, False), incrementMisses s'))
               else if recordExpired s r nowMS
               then bind_go (store_Invalidate key s) (\<lambda>s'. Inr (Inr (None, False), incrementExpirations s'))
               else let r' = IncrementHits (SetLastAccessTime nowMS r);
                        s' = incrementHits (s\<lparr>rs_records := AList.update key r' (rs_records s)\<rparr>)
                    in if rec_value r = None then Inr (Inr (None, True), s')
                       else Inr (case toValue ss (rec_value r) of
                                   Inl e \<Rightarrow> Inl e | Inr v \<Rightarrow> Inr (v, True), s'))))"

text \<open>
  Expiration visits the records in the order \<open>order\<close> of their keys; a record deleted before its turn
  is not visited.
\<close>

definition expire_key :: "i64 \<Rightarrow> 'o iface option \<Rightarrow> 'o record_store \<Rightarrow> 'o record_store go" where
  "expire_key now k s = (case map_of (rs_records s) k of
     None \<Rightarrow> Inr s
   | Some r \<Rightarrow> if recordExpired s r now
               then bind_go (store_Invalidate k s) (\<lambda>s'. Inr (incrementExpirations s'))
               else Inr s)"

definition DoExpiration :: "i64 \<Rightarrow> 'o iface option list \<Rightarrow> 'o record_store \<Rightarrow> 'o record_store go" where
  "DoExpiration now order s = for_each (expire_key now) order s"

definition onEvict :: "'o iface option \<Rightarrow> 'o nc_record \<Rightarrow> bool \<Rightarrow> 'o record_store \<Rightarrow> 'o record_store go" where
  "onEvict key r expired s =
     (let s = addOwnedEntryCount (- 1) (if expired then incrementExpirations s else incrementEvictions s)
      in bind_go (getTotalStorageMemoryCost s key r) (\<lambda>cost. Inr (addOwnedEntryMemoryCost (- cost) s)))"

definition tryEvict :: "'o candidate option \<Rightarrow> 'o record_store \<Rightarrow> (bool \<times> 'o record_store) go" where
  "tryEvict candidate s = (case candidate of
     None \<Rightarrow> Inr (False, s)
   | Some (key, r) \<Rightarrow>
       bind_go (records_index (rs_records s) key) (\<lambda>found.
         if found = None then Inr (False, s)
         else bind_go (onEvict key r False (s\<lparr>rs_records := AList.delete key (rs_records s)\<rparr>))
                (\<lambda>s'. Inr (True, s'))))"

definition sample :: "nat \<Rightarrow> 'o iface option list \<Rightarrow> 'o record_store \<Rightarrow> 'o candidate list" where
  "sample n order s =
     take (min n (length (rs_records s)))
       (List.map_filter (\<lambda>k. map_option (Pair k) (map_of (rs_records s) k)) order)"

text \<open>Without a comparator, the first comparison calls a method of the nil interface.\<close>

definition select_victim :: "'o comparator option \<Rightarrow> i64 \<Rightarrow> 'o candidate list \<Rightarrow> 'o candidate option go" where
  "select_victim cmp now samples = (case cmp of
     Some c \<Rightarrow> Inr (evaluateForEviction c now samples)
   | None \<Rightarrow> (case samples of
       [] \<Rightarrow> Inr None
     | [c] \<Rightarrow> Inr (Some c)
     | c # d # _ \<Rightarrow> if IsExpiredAt (snd d) now then Inr (Some d) else Inl NilDereference))"

definition evict :: "i64 \<Rightarrow> 'o iface option list \<Rightarrow> 'o record_store \<Rightarrow> (bool \<times> 'o record_store) go" where
  "evict now order s =
     (if int (length (rs_records s)) < rs_maxSize s then Inr (False, s)
      else bind_go (select_victim (rs_cmp s) now (sample RecordStoreSampleCount order s))
             (\<lambda>c. tryEvict c s))"

definition doEviction :: "i64 \<Rightarrow> 'o iface option list \<Rightarrow> 'o record_store \<Rightarrow> (bool \<times> 'o record_store) go" where
  "doEviction now order s = (if rs_evictionDisabled s then Inr (False, s) else evict now order s)"

section \<open>Reserving and publishing\<close>

definition publishReservedRecord ::
  "'o ser_service \<Rightarrow> 'o iface option \<Rightarrow> 'o iface option \<Rightarrow> 'o nc_record \<Rightarrow> i64 \<Rightarrow> 'o record_store \<Rightarrow>
   ((go_error + 'o nc_record) \<times> 'o record_store) go" where
  "publishReservedRecord ss key value r reservationID s =
     (if rec_reservationID r \<noteq> reservationID then Inr (Inr r, s)
      else let update = (rec_value r \<noteq> None \<or> rec_cachedAsNil r)
           in bind_go (if update
                       then bind_go (getTotalStorageMemoryCost s key r)
                              (\<lambda>cost. Inr (addOwnedEntryMemoryCost (- cost) s))
                       else Inr s) (\<lambda>s.
             case ConvertValue (rs_adapter s) ss value of
               Inl e \<Rightarrow> Inr (Inl e, s)
             | Inr v \<Rightarrow>
                 (let r' = r\<lparr>rec_value := v, rec_cachedAsNil := (value = None \<or> rec_cachedAsNil r),
                             rec_reservationID := RecordReadPermitted\<rparr>;
                      s = s\<lparr>rs_records := AList.update key r' (rs_records s)\<rparr>
                  in bind_go (getTotalStorageMemoryCost s key r') (\<lambda>cost.
                       Inr (Inr r', (if update then id else addOwnedEntryCount 1)
                                      (addOwnedEntryMemoryCost cost s))))))"

definition store_TryPublishReserved ::
  "'o ser_service \<Rightarrow> 'o iface option \<Rightarrow> 'o iface option \<Rightarrow> i64 \<Rightarrow> bool \<Rightarrow> 'o record_store \<Rightarrow>
   ((go_error + 'o iface option) \<times> 'o record_store) go" where
  "store_TryPublishReserved ss key value reservationID deserialize s =
     (let key = makeMapKey key
      in bind_go (records_index (rs_records s) key) (\<lambda>found. case found of
           None \<Rightarrow> Inr (Inr None, s)
         | Some r \<Rightarrow>
             bind_go (publishReservedRecord ss key value r reservationID s) (\<lambda>(res, s'). case res of
               Inl e \<Rightarrow> Inr (Inl e, s')
             | Inr r' \<Rightarrow> Inr (if deserialize then toValue ss (rec_value r') else Inr None, s'))))"

definition initInvalidationMetadata ::
  "'o ser_service \<Rightarrow> stale_read_detector option \<Rightarrow> 'o nc_record \<Rightarrow> 'o iface option \<Rightarrow> data \<Rightarrow>
   (go_error + 'o nc_record) go" where
  "initInvalidationMetadata ss sr r key keyData = (case sr of
     None \<Rightarrow> Inr (Inr r)
   | Some d \<Rightarrow>
       (case (if keyData = None then ss_ToData ss key else Inr keyData) of
          Inl e \<Rightarrow> Inr (Inl (WrapError
            (gostr ''nearcache.RecordStore.initInvalidationMetadata: converting key: '') e))
        | Inr keyData \<Rightarrow>
            bind_go (GetPartitionID keyData (sr_ps d)) (\<lambda>res. case res of
              Inl e \<Rightarrow> Inr (Inl (WrapError
                (gostr ''nearcache.RecordStore.initInvalidationMetadata: getting partition ID: '') e))
            | Inr pid \<Rightarrow>
                bind_go (GetMetaDataContainer d pid) (\<lambda>md.
                  Inr (Inr (r\<lparr>rec_partitionID := pid, rec_invalidationSequence := md_seq md,
                              rec_uuid := md_uuid md\<rparr>))))))"

definition createRecord :: "'o ser_service \<Rightarrow> i64 \<Rightarrow> 'o iface option \<Rightarrow> 'o record_store \<Rightarrow> go_error + 'o nc_record" where
  "createRecord ss created value s =
     bind_go (ConvertValue (rs_adapter s) ss value) (\<lambda>value.
       let expired = (if 0 < sint (rs_timeToLiveMillis s) then created + rs_timeToLiveMillis s
                      else RecordStoreTimeNotSet)
       in Inr (NewRecord value created expired))"

definition newReservationRecord ::
  "'o ser_service \<Rightarrow> stale_read_detector option \<Rightarrow> i64 \<Rightarrow> 'o iface option \<Rightarrow> data \<Rightarrow> i64 \<Rightarrow> 'o record_store \<Rightarrow>
   (go_error + 'o nc_record) go" where
  "newReservationRecord ss sr now key keyData rid s = (case createRecord ss now None s of
     Inl e \<Rightarrow> Inr (Inl e)
   | Inr r \<Rightarrow> initInvalidationMetadata ss sr (r\<lparr>rec_reservationID := rid\<rparr>) key keyData)"

datatype update_semantic = UpdateSemanticReadUpdate | UpdateSemanticWriteUpdate

definition reserveForReadUpdate ::
  "'o ser_service \<Rightarrow> stale_read_detector option \<Rightarrow> i64 \<Rightarrow> 'o iface option \<Rightarrow> data \<Rightarrow> i64 \<Rightarrow> 'o record_store \<Rightarrow>
   ((go_error + 'o nc_record option) \<times> 'o record_store) go" where
  "reserveForReadUpdate ss sr now key keyData reservationID s =
     (let key = makeMapKey key
      in bind_go (records_index (rs_records s) key) (\<lambda>found. case found of
           Some r \<Rightarrow> Inr (Inr (Some r), s)
         | None \<Rightarrow>
             bind_go (newReservationRecord ss sr now key keyData reservationID s) (\<lambda>res. case res of
               Inl e \<Rightarrow> Inr (Inl e, s)
             | Inr r \<Rightarrow> Inr (Inr (Some r), s\<lparr>rs_records := AList.update key r (rs_records s)\<rparr>))))"

definition reserveForWriteUpdate ::
  "'o ser_service \<Rightarrow> stale_read_detector option \<Rightarrow> i64 \<Rightarrow> 'o iface option \<Rightarrow> data \<Rightarrow> i64 \<Rightarrow> 'o record_store \<Rightarrow>
   ((go_error + 'o nc_record option) \<times> 'o record_store) go" where
  "reserveForWriteUpdate ss sr now key keyData reservationID s =
     bind_go (records_index (rs_records s) key) (\<lambda>found. case found of
       None \<Rightarrow>
         bind_go (newReservationRecord ss sr now key keyData reservationID s) (\<lambda>res. case res of
           Inl e \<Rightarrow> Inr (Inl e, s)
         | Inr r \<Rightarrow> Inr (Inr (Some r), s))
     | Some r \<Rightarrow>
         if rec_reservationID r = RecordReadPermitted
         then let r' = r\<lparr>rec_reservationID := reservationID\<rparr>
              in Inr (Inr (Some r'), s\<lparr>rs_records := AList.update key r' (rs_records s)\<rparr>)
         else Inr (Inr None, s))"

definition store_TryReserveForUpdate ::
  "'o ser_service \<Rightarrow> stale_read_detector option \<Rightarrow> i64 \<Rightarrow> 'o iface option \<Rightarrow> data \<Rightarrow> update_semantic \<Rightarrow>
   'o record_store \<Rightarrow> ((go_error + i64) \<times> 'o record_store) go" where
  "store_TryReserveForUpdate ss sr now key keyData ups s =
     bind_go (if rs_evictionDisabled s
              then bind_go (records_index (rs_records s) key) (\<lambda>found.
                     Inr (rs_maxSize s \<le> int (length (rs_records s)) \<and> found = None))
              else Inr False) (\<lambda>full.
       if full then Inr (Inr RecordNotReserved, s)
       else let rid = rs_reservationID s + 1;
                s = s\<lparr>rs_reservationID := rid\<rparr>
            in bind_go (case ups of
                 UpdateSemanticWriteUpdate \<Rightarrow> reserveForWriteUpdate ss sr now key keyData rid s
               | UpdateSemanticReadUpdate \<Rightarrow> reserveForReadUpdate ss sr now key keyData rid s) (\<lambda>(res, s').
                 Inr (case res of
                        Inl e \<Rightarrow> (Inl e, s')
                      | Inr None \<Rightarrow> (Inr RecordNotReserved, s')
                      | Inr (Some r) \<Rightarrow>
                          (if rec_reservationID r \<noteq> rid then (Inr RecordNotReserved, s') else (Inr rid, s')))))"

section \<open>Steps of the store\<close>

text \<open>The calls a Near Cache makes on its store, with what each reads from its surroundings.\<close>

datatype 'o store_op =
    OpClear
  | OpGet "stale_read_detector option" i64 "'o iface option"
  | OpInvalidate "'o iface option"
  | OpExpire i64 "'o iface option list"
  | OpEvict i64 "'o iface option list"
  | OpReserve "stale_read_detector option" i64 "'o iface option" data update_semantic
  | OpPublish "'o iface option" "'o iface option" i64 bool

definition store_step :: "'o ser_service \<Rightarrow> 'o store_op \<Rightarrow> 'o record_store \<Rightarrow> 'o record_store go" where
  "store_step ss oper s = (case oper of
     OpClear \<Rightarrow> Inr (store_Clear s)
   | OpGet sr now key \<Rightarrow> bind_go (store_Get ss sr now key s) (\<lambda>(_, s'). Inr s')
   | OpInvalidate key \<Rightarrow> store_Invalidate key s
   | OpExpire now order \<Rightarrow> DoExpiration now order s
   | OpEvict now order \<Rightarrow> bind_go (doEviction now order s) (\<lambda>(_, s'). Inr s')
   | OpReserve sr now key keyData ups \<Rightarrow>
       bind_go (store_TryReserveForUpdate ss sr now key keyData ups s) (\<lambda>(_, s'). Inr s')
   | OpPublish key value rid d \<Rightarrow>
       bind_go (store_TryPublishReserved ss key value rid d s) (\<lambda>(_, s'). Inr s'))"

definition store_run :: "'o ser_service \<Rightarrow> 'o store_op list \<Rightarrow> 'o record_store \<Rightarrow> 'o record_store go" where
  "store_run ss ops s = for_each (store_step ss) ops s"

section \<open>Facts\<close>

named_theorems counter_defs
declare incrementHits_def [counter_defs] incrementMisses_def [counter_defs]
  incrementExpirations_def [counter_defs] incrementEvictions_def [counter_defs]
  incrementInvalidations_def [counter_defs] incrementInvalidationRequests_def [counter_defs]
  addOwnedEntryCount_def [counter_defs] addOwnedEntryMemoryCost_def [counter_defs]

lemma records_counters [simp]:
  "rs_records (incrementHits s) = rs_records s"
  "rs_records (incrementMisses s) = rs_records s"
  "rs_records (incrementExpirations s) = rs_records s"
  "rs_records (incrementEvictions s) = rs_records s"
  "rs_records (incrementInvalidations s) = rs_records s"
  "rs_records (incrementInvalidationRequests s) = rs_records s"
  "rs_records (addOwnedEntryCount n s) = rs_records s"
  "rs_records (addOwnedEntryMemoryCost n s) = rs_records s"
  by (simp_all add: counter_defs)

text \<open>What never changes during the life of a store, and so what a step keeps of it.\<close>

definition same_setup :: "'o record_store \<Rightarrow> 'o record_store \<Rightarrow> bool" where
  "same_setup s s' \<longleftrightarrow> rs_maxIdleMillis s' = rs_maxIdleMillis s
     \<and> rs_timeToLiveMillis s' = rs_timeToLiveMillis s \<and> rs_adapter s' = rs_adapter s
     \<and> rs_evictionDisabled s' = rs_evictionDisabled s \<and> rs_maxSize s' = rs_maxSize s \<and> rs_cmp s' = rs_cmp s"

lemma setup_counters [simp]:
  "same_setup s (incrementHits s') = same_setup s s'"
  "same_setup s (incrementMisses s') = same_setup s s'"
  "same_setup s (incrementExpirations s') = same_setup s s'"
  "same_setup s (incrementEvictions s') = same_setup s s'"
  "same_setup s (incrementInvalidations s') = same_setup s s'"
  "same_setup s (incrementInvalidationRequests s') = same_setup s s'"
  "same_setup s (addOwnedEntryCount n s') = same_setup s s'"
  "same_setup s (addOwnedEntryMemoryCost n s') = same_setup s s'"
  "same_setup s (s'\<lparr>rs_records := m\<rparr>) = same_setup s s'"
  "same_setup s (s'\<lparr>rs_stats := st\<rparr>) = same_setup s s'"
  "same_setup s (s'\<lparr>rs_reservationID := i\<rparr>) = same_setup s s'"
  "same_setup s s"
  by (simp_all add: counter_defs same_setup_def)

lemma reservationID_counters [simp]:
  "rs_reservationID (incrementHits s) = rs_reservationID s"
  "rs_reservationID (incrementMisses s) = rs_reservationID s"
  "rs_reservationID (incrementExpirations s) = rs_reservationID s"
  "rs_reservationID (incrementEvictions s) = rs_reservationID s"
  "rs_reservationID (incrementInvalidations s) = rs_reservationID s"
  "rs_reservationID (incrementInvalidationRequests s) = rs_reservationID s"
  "rs_reservationID (addOwnedEntryCount n s) = rs_reservationID s"
  "rs_reservationID (addOwnedEntryMemoryCost n s) = rs_reservationID s"
  by (simp_all add: counter_defs)

lemma makeMapKey_hashable [simp]:
  "makeMapKey key \<noteq> Some (IData d)" "makeMapKey (makeMapKey key) = makeMapKey key"
  "records_index m (makeMapKey key) = Inr (map_of m (makeMapKey key))"
  by (cases key rule: makeMapKey.cases; simp)+

lemma hashable_key: "(\<forall>d. key \<noteq> Some (IData d)) \<Longrightarrow> makeMapKey key = key"
  by (cases key rule: makeMapKey.cases) auto

lemma records_index_hashable: "makeMapKey key = key \<Longrightarrow> records_index m key = Inr (map_of m key)"
  using makeMapKey_hashable(3) [of m key] by simp

lemma records_index_Inr: "records_index m key = Inr x \<Longrightarrow> x = map_of m key \<and> makeMapKey key = key"
  by (cases key rule: makeMapKey.cases) auto

lemma access_fields [simp]:
  "rec_reservationID (IncrementHits r) = rec_reservationID r"
  "rec_value (IncrementHits r) = rec_value r"
  "rec_cachedAsNil (IncrementHits r) = rec_cachedAsNil r"
  "rec_partitionID (IncrementHits r) = rec_partitionID r"
  "rec_reservationID (SetLastAccessTime t r) = rec_reservationID r"
  "rec_value (SetLastAccessTime t r) = rec_value r"
  "rec_cachedAsNil (SetLastAccessTime t r) = rec_cachedAsNil r"
  "rec_partitionID (SetLastAccessTime t r) = rec_partitionID r"
  by (simp_all add: IncrementHits_def SetLastAccessTime_def)

section \<open>Reservation ids\<close>

text \<open>
  How a step may change the reservation ids: every record left carries the id it had, or is
  published, or carries the id the step has just drawn from the counter.
\<close>

definition ids_step :: "'o record_store \<Rightarrow> 'o record_store \<Rightarrow> bool" where
  "ids_step s s' \<longleftrightarrow>
     (rs_reservationID s' = rs_reservationID s \<or> rs_reservationID s' = rs_reservationID s + 1)
     \<and> (\<forall>k r'. map_of (rs_records s') k = Some r' \<longrightarrow>
          (\<exists>r. map_of (rs_records s) k = Some r \<and> rec_reservationID r' = rec_reservationID r)
          \<or> rec_reservationID r' = RecordReadPermitted
          \<or> rec_reservationID r' = rs_reservationID s' \<and> rs_reservationID s' = rs_reservationID s + 1)"

text \<open>A step that draws no id and creates no record.\<close>

definition ids_kept :: "'o record_store \<Rightarrow> 'o record_store \<Rightarrow> bool" where
  "ids_kept s s' \<longleftrightarrow> rs_reservationID s' = rs_reservationID s
     \<and> (\<forall>k r'. map_of (rs_records s') k = Some r' \<longrightarrow>
          (\<exists>r. map_of (rs_records s) k = Some r \<and> rec_reservationID r' = rec_reservationID r)
          \<or> rec_reservationID r' = RecordReadPermitted)"

lemma ids_kept_refl [simp]: "ids_kept s s"
  by (auto simp: ids_kept_def)

lemma ids_kept_trans: "ids_kept s t \<Longrightarrow> ids_kept t u \<Longrightarrow> ids_kept s u"
  unfolding ids_kept_def by metis

lemma ids_kept_step: "ids_kept s s' \<Longrightarrow> ids_step s s'"
  by (auto simp: ids_kept_def ids_step_def)

lemma ids_kept_counters [simp]:
  "ids_kept s (incrementHits s') = ids_kept s s'"
  "ids_kept s (incrementMisses s') = ids_kept s s'"
  "ids_kept s (incrementExpirations s') = ids_kept s s'"
  "ids_kept s (incrementEvictions s') = ids_kept s s'"
  "ids_kept s (incrementInvalidations s') = ids_kept s s'"
  "ids_kept s (incrementInvalidationRequests s') = ids_kept s s'"
  "ids_kept s (addOwnedEntryCount n s') = ids_kept s s'"
  "ids_kept s (addOwnedEntryMemoryCost n s') = ids_kept s s'"
  "ids_kept s (s\<lparr>rs_records := AList.delete key (rs_records s)\<rparr>)"
  by (simp_all add: ids_kept_def)

lemma ids_kept_update:
  assumes "map_of (rs_records s) key = Some r"
    and "rec_reservationID r' = rec_reservationID r \<or> rec_reservationID r' = RecordReadPermitted"
  shows "ids_kept s (s\<lparr>rs_records := AList.update key r' (rs_records s)\<rparr>)"
  using assms by (simp add: ids_kept_def)

lemma store_Clear_ids: "ids_kept s (store_Clear s)"
  by (simp add: store_Clear_def Let_def ids_kept_def)

lemma store_Invalidate_ids: "store_Invalidate key s = Inr s' \<Longrightarrow> ids_kept s s'"
  by (auto simp: store_Invalidate_def Let_def bind_go_Inr_iff split: option.splits if_splits)

lemma store_Get_ids: "store_Get ss sr now key s = Inr (res, s') \<Longrightarrow> ids_kept s s'"
  by (auto simp: store_Get_def Let_def bind_go_Inr_iff store_Invalidate_ids ids_kept_update
      split: option.splits if_splits)

lemma expire_key_ids: "expire_key now k s = Inr s' \<Longrightarrow> ids_kept s s'"
  by (auto simp: expire_key_def bind_go_Inr_iff store_Invalidate_ids split: option.splits if_splits)

lemma DoExpiration_ids: "DoExpiration now order s = Inr s' \<Longrightarrow> ids_kept s s'"
  unfolding DoExpiration_def
proof (induction order arbitrary: s)
  case (Cons k ks)
  then show ?case by (auto simp: bind_go_Inr_iff dest: expire_key_ids intro: ids_kept_trans)
qed simp

lemma onEvict_ids: "onEvict key r e s = Inr s' \<Longrightarrow> ids_kept t s' = ids_kept t s"
  by (auto simp: onEvict_def Let_def bind_go_Inr_iff split: if_splits)

lemma tryEvict_ids: "tryEvict c s = Inr (b, s') \<Longrightarrow> ids_kept s s'"
  by (auto simp: tryEvict_def bind_go_Inr_iff onEvict_ids split: option.splits if_splits)

lemma doEviction_ids: "doEviction now order s = Inr (b, s') \<Longrightarrow> ids_kept s s'"
  by (auto simp: doEviction_def evict_def bind_go_Inr_iff tryEvict_ids split: if_splits)

lemma publishReservedRecord_ids:
  assumes "publishReservedRecord ss key value r rid s = Inr (res, s')" and "map_of (rs_records s) key = Some r"
  shows "ids_kept s s'"
proof -
  have u: "ids_kept s (t\<lparr>rs_records := AList.update key r' (rs_records s)\<rparr>)"
    if "rs_reservationID t = rs_reservationID s" "rec_reservationID r' = RecordReadPermitted" for t r'
    using that by (simp add: ids_kept_def)
  show ?thesis
    using assms by (auto simp: publishReservedRecord_def Let_def u elim!: bind_goE
        split: if_splits sum.splits)
qed

lemma store_TryPublishReserved_ids: "store_TryPublishReserved ss key value rid d s = Inr (res, s') \<Longrightarrow> ids_kept s s'"
  by (auto simp: store_TryPublishReserved_def Let_def elim!: bind_goE dest: publishReservedRecord_ids
      split: option.splits sum.splits)

lemma newReservationRecord_id:
  "newReservationRecord ss sr now key keyData rid s = Inr (Inr r) \<Longrightarrow> rec_reservationID r = rid"
  by (auto simp: newReservationRecord_def initInvalidationMetadata_def elim!: bind_goE
      split: sum.splits option.splits)

text \<open>A reservation draws the next id of the counter, and only the record of its key may carry it.\<close>

definition ids_drawn :: "'o record_store \<Rightarrow> i64 \<Rightarrow> 'o record_store \<Rightarrow> bool" where
  "ids_drawn s rid s' \<longleftrightarrow> rs_reservationID s' = rs_reservationID s
     \<and> (\<forall>k r'. map_of (rs_records s') k = Some r' \<longrightarrow>
          map_of (rs_records s) k = Some r' \<or> rec_reservationID r' = rid)"

lemma reserveForReadUpdate_ids:
  "reserveForReadUpdate ss sr now key keyData rid s = Inr (res, s') \<Longrightarrow> ids_drawn s rid s'"
  by (auto simp: reserveForReadUpdate_def Let_def ids_drawn_def
      newReservationRecord_id elim!: bind_goE split: option.splits sum.splits if_splits)

lemma reserveForWriteUpdate_ids:
  "reserveForWriteUpdate ss sr now key keyData rid s = Inr (res, s') \<Longrightarrow> ids_drawn s rid s'"
  by (auto simp: reserveForWriteUpdate_def Let_def ids_drawn_def
      elim!: bind_goE split: option.splits sum.splits if_splits)

lemma store_TryReserveForUpdate_ids:
  assumes "store_TryReserveForUpdate ss sr now key keyData ups s = Inr (res, s')"
  shows "ids_step s s'"
proof -
  let ?rid = "rs_reservationID s + 1"
  have "s' = s \<or> ids_drawn (s\<lparr>rs_reservationID := ?rid\<rparr>) ?rid s'"
    using assms
    by (auto simp: store_TryReserveForUpdate_def Let_def
        reserveForReadUpdate_ids reserveForWriteUpdate_ids elim!: bind_goE
        split: if_splits update_semantic.splits sum.splits option.splits)
  then show ?thesis
  proof
    assume "ids_drawn (s\<lparr>rs_reservationID := ?rid\<rparr>) ?rid s'"
    then show ?thesis unfolding ids_drawn_def ids_step_def by simp metis
  qed (auto simp: ids_step_def)
qed

lemma store_step_ids: "store_step ss oper s = Inr s' \<Longrightarrow> ids_step s s'"
  by (cases oper)
    (auto simp: store_step_def bind_go_Inr_iff
      dest: store_Get_ids store_Invalidate_ids DoExpiration_ids doEviction_ids
        store_TryPublishReserved_ids store_TryReserveForUpdate_ids
      intro: ids_kept_step store_Clear_ids)

text \<open>A reservation id that was drawn in the past and that no record of a key carries.\<close>

definition retired :: "'o iface option \<Rightarrow> i64 \<Rightarrow> 'o record_store \<Rightarrow> bool" where
  "retired k rid s \<longleftrightarrow> 0 < sint rid \<and> sint rid \<le> sint (rs_reservationID s)
     \<and> (\<forall>r. map_of (rs_records s) k = Some r \<longrightarrow> rec_reservationID r \<noteq> rid)"

lemma sint_next_id: "sint (i :: i64) < 2 ^ 63 - 1 \<Longrightarrow> sint (i + 1) = sint i + 1"
  using sint64_bounds [of i] by (subst sint64_add) simp_all

lemma sint_ReadPermitted: "sint RecordReadPermitted < 0"
  by (simp add: RecordReadPermitted_def)

lemma sint_NotReserved: "sint RecordNotReserved < 0"
  by (simp add: RecordNotReserved_def)

lemma ids_step_retired:
  assumes "ids_step s s'" "retired k rid s" "sint (rs_reservationID s) < 2 ^ 63 - 1"
  shows "retired k rid s' \<and> sint (rs_reservationID s') \<le> sint (rs_reservationID s) + 1"
proof -
  have "rid \<noteq> RecordReadPermitted" using assms(2) sint_ReadPermitted by (auto simp: retired_def)
  moreover have "rid \<noteq> rs_reservationID s + 1"
    using assms(2) sint_next_id [OF assms(3)] by (auto simp: retired_def)
  ultimately have "rec_reservationID r \<noteq> rid" if "map_of (rs_records s') k = Some r" for r
    using that assms(1,2) unfolding ids_step_def retired_def by metis
  then show ?thesis
    using assms(1,2) sint_next_id [OF assms(3)] by (auto simp: ids_step_def retired_def)
qed

lemma store_run_retired:
  assumes "store_run ss ops s = Inr s'" "retired k rid s"
    and "sint (rs_reservationID s) + int (length ops) < 2 ^ 63"
  shows "retired k rid s'"
  using assms unfolding store_run_def
proof (induction ops arbitrary: s)
  case (Cons oper ops)
  from Cons.prems(1) obtain t where t: "store_step ss oper s = Inr t" "for_each (store_step ss) ops t = Inr s'"
    by (auto simp: bind_go_Inr_iff)
  have "retired k rid t \<and> sint (rs_reservationID t) \<le> sint (rs_reservationID s) + 1"
    using ids_step_retired [OF store_step_ids [OF t(1)] Cons.prems(2)] Cons.prems(3) by simp
  with Cons.IH [OF t(2)] Cons.prems(3) show ?case by simp
qed simp

lemma store_run_ids:
  assumes "store_run ss ops s = Inr s'" "sint (rs_reservationID s) + int (length ops) < 2 ^ 63"
  shows "sint (rs_reservationID s) \<le> sint (rs_reservationID s')
    \<and> sint (rs_reservationID s') \<le> sint (rs_reservationID s) + int (length ops)"
  using assms unfolding store_run_def
proof (induction ops arbitrary: s)
  case (Cons oper ops)
  from Cons.prems(1) obtain t where t: "store_step ss oper s = Inr t" "for_each (store_step ss) ops t = Inr s'"
    by (auto simp: bind_go_Inr_iff)
  have "sint (rs_reservationID s) \<le> sint (rs_reservationID t)
     \<and> sint (rs_reservationID t) \<le> sint (rs_reservationID s) + 1"
    using store_step_ids [OF t(1)] sint_next_id [of "rs_reservationID s"] Cons.prems(2)
    by (auto simp: ids_step_def)
  with Cons.IH [OF t(2)] Cons.prems(2) show ?case by simp
qed simp

lemma store_Invalidate_removes:
  assumes "store_Invalidate key s = Inr s'"
  shows "map_of (rs_records s') (makeMapKey key) = None \<and> rs_reservationID s' = rs_reservationID s"
  using assms
  by (auto simp: store_Invalidate_def Let_def bind_go_Inr_iff split: option.splits if_splits)

lemma publish_unreserved:
  assumes "store_TryPublishReserved ss key value rid d s = Inr (res, s')"
    and "\<forall>r. map_of (rs_records s) (makeMapKey key) = Some r \<longrightarrow> rec_reservationID r \<noteq> rid"
  shows "s' = s"
  using assms
  by (auto simp: store_TryPublishReserved_def publishReservedRecord_def Let_def bind_go_Inr_iff
      split: option.splits)

lemma reserved_id:
  assumes "store_TryReserveForUpdate ss sr now key keyData ups s = Inr (Inr rid, s')"
    and "rid \<noteq> RecordNotReserved"
  shows "rid = rs_reservationID s + 1 \<and> rs_reservationID s' = rid"
  using assms
  by (auto simp: store_TryReserveForUpdate_def Let_def elim!: bind_goE
      dest!: reserveForReadUpdate_ids reserveForWriteUpdate_ids simp: ids_drawn_def
      split: if_splits sum.splits option.splits update_semantic.splits)

section \<open>What the statistics count\<close>

text \<open>The sum of a weight over the published records of a map, modulo the width of the counters.\<close>

definition owned :: "('o iface option \<Rightarrow> 'o nc_record \<Rightarrow> i64) \<Rightarrow> ('o iface option, 'o nc_record) gomap \<Rightarrow> i64" where
  "owned f m = (\<Sum>(k, r)\<leftarrow>m. if canUpdateStats r then f k r else 0)"

definition entry_cost :: "store_adapter \<Rightarrow> 'o iface option \<Rightarrow> 'o nc_record \<Rightarrow> i64" where
  "entry_cost adapter key r = getKeyStorageMemoryCost (unMakeMapKey key)
     + (case GetRecordStorageMemoryCost adapter r of Inr c \<Rightarrow> c | Inl _ \<Rightarrow> 0)"

lemma owned_Nil [simp]: "owned f [] = 0"
  by (simp add: owned_def)

lemma owned_Cons [simp]: "owned f ((k, r) # m) = (if canUpdateStats r then f k r else 0) + owned f m"
  by (simp add: owned_def)

lemma owned_delete_fresh: "map_of m k = None \<Longrightarrow> AList.delete k m = m"
  by (simp add: delete_id map_of_eq_None_iff)

lemma owned_delete:
  "gomap_wf m \<Longrightarrow> map_of m k = Some r \<Longrightarrow>
   owned f (AList.delete k m) = owned f m - (if canUpdateStats r then f k r else 0)"
proof (induction m)
  case (Cons p m)
  obtain k' r' where p: "p = (k', r')" by (cases p)
  show ?case
  proof (cases "k' = k")
    case True
    then have "map_of m k = None" using Cons.prems p by (simp add: map_of_eq_None_iff)
    with True Cons.prems p show ?thesis by (simp add: owned_delete_fresh)
  next
    case False
    with Cons p show ?thesis by (simp add: algebra_simps)
  qed
qed simp

lemma owned_update_fresh:
  "map_of m k = None \<Longrightarrow> owned f (AList.update k r m) = owned f m + (if canUpdateStats r then f k r else 0)"
  by (induction m) (auto split: if_splits)

lemma owned_update:
  "gomap_wf m \<Longrightarrow> map_of m k = Some r \<Longrightarrow>
   owned f (AList.update k r' m) = owned f m - (if canUpdateStats r then f k r else 0)
     + (if canUpdateStats r' then f k r' else 0)"
proof (induction m)
  case (Cons p m)
  obtain k' q where p: "p = (k', q)" by (cases p)
  with Cons show ?case by (cases "k' = k") auto
qed simp

lemma owned_count: "owned (\<lambda>_ _. 1) m = word_of_nat (length (filter (\<lambda>(_, r). canUpdateStats r) m))"
  by (induction m) auto

section \<open>Soundness of the store\<close>

text \<open>
  A record as the store keeps it: its key is hashable, its value has the form the adapter stores, it
  belongs to one of \<open>n\<close> partitions, and a record that is only reserved has no value yet.
\<close>

definition value_ok :: "store_adapter \<Rightarrow> 'o iface option \<Rightarrow> bool" where
  "value_ok adapter v \<longleftrightarrow> adapter = nearCacheDataStoreAdapter \<longrightarrow> v = None \<or> (\<exists>d. v = Some (IData d))"

definition record_ok :: "nat \<Rightarrow> store_adapter \<Rightarrow> 'o nc_record \<Rightarrow> bool" where
  "record_ok n adapter r \<longleftrightarrow> value_ok adapter (rec_value r)
     \<and> 0 \<le> sint (rec_partitionID r) \<and> sint (rec_partitionID r) < int n
     \<and> (canUpdateStats r \<or> rec_value r = None \<and> \<not> rec_cachedAsNil r)"

definition counts_ok :: "'o record_store \<Rightarrow> bool" where
  "counts_ok s \<longleftrightarrow> OwnedEntryCount (rs_stats s) = owned (\<lambda>_ _. 1) (rs_records s)
     \<and> OwnedEntryMemoryCost (rs_stats s) = owned (entry_cost (rs_adapter s)) (rs_records s)"

definition sound :: "nat \<Rightarrow> 'o record_store \<Rightarrow> bool" where
  "sound n s \<longleftrightarrow> gomap_wf (rs_records s)
     \<and> (\<forall>k r. map_of (rs_records s) k = Some r \<longrightarrow> makeMapKey k = k \<and> record_ok n (rs_adapter s) r)
     \<and> 0 \<le> sint (rs_reservationID s)
     \<and> (rs_evictionDisabled s \<or> rs_cmp s \<noteq> None) \<and> counts_ok s"

definition detector_ok :: "nat \<Rightarrow> stale_read_detector option \<Rightarrow> bool" where
  "detector_ok n sr \<longleftrightarrow> 0 < n \<and> (case sr of None \<Rightarrow> True | Some d \<Rightarrow>
     length (sr_metadataContainers d) = n \<and> sint (ps_partitionCount (sr_ps d)) = int n)"

lemma total_cost:
  "value_ok (rs_adapter s) (rec_value r) \<Longrightarrow>
   getTotalStorageMemoryCost s key r = Inr (entry_cost (rs_adapter s) key r)"
  by (cases "rs_adapter s") (auto simp: getTotalStorageMemoryCost_def entry_cost_def value_ok_def)

lemma rest_counters [simp]:
  "rs_adapter (incrementHits s) = rs_adapter s"
  "rs_adapter (incrementMisses s) = rs_adapter s"
  "rs_adapter (incrementExpirations s) = rs_adapter s"
  "rs_adapter (incrementEvictions s) = rs_adapter s"
  "rs_adapter (incrementInvalidations s) = rs_adapter s"
  "rs_adapter (incrementInvalidationRequests s) = rs_adapter s"
  "rs_adapter (addOwnedEntryCount c s) = rs_adapter s"
  "rs_adapter (addOwnedEntryMemoryCost c s) = rs_adapter s"
  by (simp_all add: counter_defs)

text \<open>The counters other than those of the owned entries do not matter for soundness.\<close>

lemma sound_counters [simp]:
  "sound n (incrementHits s) = sound n s"
  "sound n (incrementMisses s) = sound n s"
  "sound n (incrementExpirations s) = sound n s"
  "sound n (incrementEvictions s) = sound n s"
  "sound n (incrementInvalidations s) = sound n s"
  "sound n (incrementInvalidationRequests s) = sound n s"
  by (simp_all add: counter_defs sound_def counts_ok_def)

lemma sound_record: "sound n s \<Longrightarrow> map_of (rs_records s) k = Some r \<Longrightarrow> record_ok n (rs_adapter s) r"
  by (simp add: sound_def)

lemma sound_value: "sound n s \<Longrightarrow> map_of (rs_records s) k = Some r \<Longrightarrow> value_ok (rs_adapter s) (rec_value r)"
  by (simp add: sound_def record_ok_def)

text \<open>Taking a record out, putting a reservation in, and replacing a record.\<close>

lemma sound_take_published:
  assumes "sound n s" "map_of (rs_records s) k = Some r" "canUpdateStats r"
  shows "sound n (addOwnedEntryMemoryCost (- entry_cost (rs_adapter s) k r)
    (addOwnedEntryCount (- 1) (s\<lparr>rs_records := AList.delete k (rs_records s)\<rparr>)))"
  using assms by (simp add: sound_def counts_ok_def owned_delete counter_defs)

lemma sound_take_reserved:
  assumes "sound n s" "map_of (rs_records s) k = Some r" "\<not> canUpdateStats r"
  shows "sound n (s\<lparr>rs_records := AList.delete k (rs_records s)\<rparr>)"
  using assms by (simp add: sound_def counts_ok_def owned_delete)

lemma sound_put_reserved:
  assumes "sound n s" "map_of (rs_records s) k = None" "makeMapKey k = k" "\<not> canUpdateStats r"
    "record_ok n (rs_adapter s) r"
  shows "sound n (s\<lparr>rs_records := AList.update k r (rs_records s)\<rparr>)"
  using assms by (simp add: sound_def counts_ok_def owned_update_fresh)

lemma sound_touch:
  assumes "sound n s" "map_of (rs_records s) k = Some r" "canUpdateStats r' = canUpdateStats r"
    "rec_value r' = rec_value r" "rec_partitionID r' = rec_partitionID r" "rec_cachedAsNil r' = rec_cachedAsNil r"
  shows "sound n (s\<lparr>rs_records := AList.update k r' (rs_records s)\<rparr>)"
proof -
  have "entry_cost a k r' = entry_cost a k r" for a
    using assms(4) by (cases a) (simp_all add: entry_cost_def)
  with assms show ?thesis by (simp add: sound_def counts_ok_def owned_update record_ok_def)
qed

lemma store_Clear_sound: "sound n s \<Longrightarrow> sound n (store_Clear s)"
  by (simp add: store_Clear_def Let_def counter_defs sound_def counts_ok_def)

lemma store_Invalidate_sound:
  assumes "sound n s"
  shows "\<exists>s'. store_Invalidate key s = Inr s' \<and> sound n s'"
proof (cases "map_of (rs_records s) (makeMapKey key)")
  case (Some r)
  let ?s = "s\<lparr>rs_records := AList.delete (makeMapKey key) (rs_records s)\<rparr>"
  have c: "getTotalStorageMemoryCost ?s (makeMapKey key) r = Inr (entry_cost (rs_adapter s) (makeMapKey key) r)"
    using total_cost [of ?s] sound_value [OF assms Some] by simp
  show ?thesis
    using Some sound_take_published [OF assms Some] sound_take_reserved [OF assms Some]
    by (simp add: store_Invalidate_def Let_def c)
qed (simp add: store_Invalidate_def assms Let_def)

lemma IsStaleRead_total: "detector_ok n (Some d) \<Longrightarrow> record_ok n a r \<Longrightarrow> \<exists>b. IsStaleRead d r = Inr b"
  by (simp add: IsStaleRead_def GetMetaDataContainer_def go_index_def detector_ok_def record_ok_def)

lemma store_Get_sound:
  assumes "sound n s" "detector_ok n sr"
  shows "\<exists>res s'. store_Get ss sr now key s = Inr (res, s') \<and> sound n s'"
proof (cases "map_of (rs_records s) (makeMapKey key)")
  case (Some r)
  obtain b where b: "(case sr of None \<Rightarrow> Inr False | Some d \<Rightarrow> IsStaleRead d r) = Inr b"
    using IsStaleRead_total [OF _ sound_record [OF assms(1) Some]] assms(2) by (cases sr) auto
  obtain t where t: "store_Invalidate (makeMapKey key) s = Inr t" "sound n t"
    using store_Invalidate_sound [OF assms(1)] by blast
  have "sound n (s\<lparr>rs_records := AList.update (makeMapKey key) (IncrementHits (SetLastAccessTime now r)) (rs_records s)\<rparr>)"
    using assms(1) Some by (rule sound_touch) (simp_all add: canUpdateStats_def)
  with Some b t assms(1) show ?thesis by (simp add: store_Get_def Let_def)
qed (simp add: store_Get_def assms(1) Let_def)

lemma expire_key_sound: "sound n s \<Longrightarrow> \<exists>s'. expire_key now k s = Inr s' \<and> sound n s'"
  using store_Invalidate_sound [of n s k] by (auto simp: expire_key_def split: option.splits)

lemma DoExpiration_sound: "sound n s \<Longrightarrow> \<exists>s'. DoExpiration now order s = Inr s' \<and> sound n s'"
  unfolding DoExpiration_def
proof (induction order arbitrary: s)
  case (Cons k ks)
  then show ?case using expire_key_sound [OF Cons.prems, of now k] by auto
qed simp

lemma sample_mem: "c \<in> set (sample m order s) \<Longrightarrow> map_of (rs_records s) (fst c) = Some (snd c)"
  by (auto simp: sample_def List.map_filter_def dest!: in_set_takeD)

lemma select_victim_mem: "select_victim cmp now samples = Inr (Some c) \<Longrightarrow> c \<in> set samples"
  by (auto simp: select_victim_def dest: evaluateForEviction_mem split: option.splits list.splits if_splits)

lemma select_victim_total: "cmp \<noteq> None \<Longrightarrow> \<exists>c. select_victim cmp now samples = Inr c"
  by (auto simp: select_victim_def)

lemma tryEvict_removes:
  assumes "sound n s" "map_of (rs_records s) k = Some r"
  shows "tryEvict (Some (k, r)) s =
    Inr (True, addOwnedEntryMemoryCost (- entry_cost (rs_adapter s) k r)
      (addOwnedEntryCount (- 1) (incrementEvictions (s\<lparr>rs_records := AList.delete k (rs_records s)\<rparr>))))"
proof -
  have "makeMapKey k = k" using assms by (simp add: sound_def)
  then have i: "records_index (rs_records s) k = Inr (Some r)"
    using assms(2) by (simp add: records_index_hashable)
  then show ?thesis
    using total_cost [of "addOwnedEntryCount (- 1) (incrementEvictions (s\<lparr>rs_records := AList.delete k (rs_records s)\<rparr>))" r k]
      sound_value [OF assms]
    by (simp add: tryEvict_def onEvict_def Let_def)
qed

text \<open>An eviction removes at most one record, a sampled one, and counts it as an owned entry.\<close>

lemma doEviction_cases:
  assumes "sound n s"
  obtains "doEviction now order s = Inr (False, s)"
  | k r where "map_of (rs_records s) k = Some r" "rs_maxSize s \<le> int (length (rs_records s))"
    "\<not> rs_evictionDisabled s"
    "doEviction now order s = Inr (True, addOwnedEntryMemoryCost (- entry_cost (rs_adapter s) k r)
      (addOwnedEntryCount (- 1) (incrementEvictions (s\<lparr>rs_records := AList.delete k (rs_records s)\<rparr>))))"
proof (cases "rs_evictionDisabled s \<or> int (length (rs_records s)) < rs_maxSize s")
  case False
  let ?sample = "sample RecordStoreSampleCount order s"
  have "rs_cmp s \<noteq> None" using False assms by (auto simp: sound_def)
  then obtain c where c: "select_victim (rs_cmp s) now ?sample = Inr c" using select_victim_total by blast
  have e: "doEviction now order s = tryEvict c s" using False c by (simp add: doEviction_def evict_def)
  show thesis
  proof (cases c)
    case None
    with e show thesis by (intro that(1)) (simp add: tryEvict_def)
  next
    case (Some p)
    obtain k r where p: "p = (k, r)" by (cases p)
    have "map_of (rs_records s) k = Some r"
      using sample_mem select_victim_mem [OF c [unfolded Some p]] by fastforce
    with False e Some p tryEvict_removes [OF assms] show thesis by (intro that(2)) auto
  qed
next
  case True
  then show thesis by (intro that(1)) (auto simp: doEviction_def evict_def)
qed

text \<open>While no reservation is pending, every record is published.\<close>

definition quiet :: "'o record_store \<Rightarrow> bool" where
  "quiet s \<longleftrightarrow> (\<forall>k r. map_of (rs_records s) k = Some r \<longrightarrow> canUpdateStats r)"

lemma sound_commute_evictions:
  "sound n (addOwnedEntryMemoryCost a (addOwnedEntryCount b (incrementEvictions s))) =
   sound n (addOwnedEntryMemoryCost a (addOwnedEntryCount b s))"
  by (simp add: counter_defs sound_def counts_ok_def)

lemma doEviction_sound:
  assumes "sound n s" "quiet s"
  shows "\<exists>b s'. doEviction now order s = Inr (b, s') \<and> sound n s'"
  using assms(1)
proof (cases rule: doEviction_cases [of n s now order])
  case (2 k r)
  with assms sound_take_published [OF assms(1) 2(1)] show ?thesis
    by (auto simp: quiet_def sound_commute_evictions)
qed (use assms in auto)

lemma ConvertValue_ok: "ConvertValue a ss v = Inr v' \<Longrightarrow> value_ok a v'"
  by (cases "(a, ss, v)" rule: ConvertValue.cases) (auto simp: value_ok_def bind_go_Inr_iff)

text \<open>Publishing a reservation: the record becomes readable and is counted from then on.\<close>

lemma publish_reserved:
  assumes "sound n s" "map_of (rs_records s) k = Some r" "rec_reservationID r = rid" "\<not> canUpdateStats r"
    "ConvertValue (rs_adapter s) ss value = Inr v"
  shows "\<exists>s'. publishReservedRecord ss k value r rid s =
      Inr (Inr (r\<lparr>rec_value := v, rec_cachedAsNil := (value = None), rec_reservationID := RecordReadPermitted\<rparr>), s')
    \<and> sound n s' \<and> rs_records s' = AList.update k
        (r\<lparr>rec_value := v, rec_cachedAsNil := (value = None), rec_reservationID := RecordReadPermitted\<rparr>) (rs_records s)
    \<and> same_setup s s'"
proof -
  let ?r = "r\<lparr>rec_value := v, rec_cachedAsNil := (value = None), rec_reservationID := RecordReadPermitted\<rparr>"
  let ?s = "s\<lparr>rs_records := AList.update k ?r (rs_records s)\<rparr>"
  have r: "rec_value r = None" "\<not> rec_cachedAsNil r" "record_ok n (rs_adapter s) r"
    using sound_record [OF assms(1,2)] assms(4) by (auto simp: record_ok_def)
  have v: "value_ok (rs_adapter s) v" by (rule ConvertValue_ok [OF assms(5)])
  have c: "getTotalStorageMemoryCost ?s k ?r = Inr (entry_cost (rs_adapter s) k ?r)"
    using total_cost [of ?s ?r k] v by simp
  have "canUpdateStats ?r" by (simp add: canUpdateStats_def)
  then have "sound n (addOwnedEntryCount 1 (addOwnedEntryMemoryCost (entry_cost (rs_adapter s) k ?r) ?s))"
    using assms(1,2,4) r v
    by (simp add: sound_def counts_ok_def owned_update counter_defs record_ok_def)
  with assms(3,5) r c show ?thesis by (simp add: publishReservedRecord_def Let_def)
qed

lemma store_TryPublishReserved_sound:
  assumes "sound n s" "rid \<noteq> RecordReadPermitted"
  shows "\<exists>res s'. store_TryPublishReserved ss key value rid d s = Inr (res, s') \<and> sound n s'"
proof (cases "map_of (rs_records s) (makeMapKey key)")
  case (Some r)
  show ?thesis
  proof (cases "rec_reservationID r = rid")
    case True
    then have u: "\<not> canUpdateStats r" using assms(2) by (simp add: canUpdateStats_def)
    then have "rec_value r = None" "\<not> rec_cachedAsNil r"
      using sound_record [OF assms(1) Some] by (simp_all add: record_ok_def)
    then show ?thesis
    proof (cases "ConvertValue (rs_adapter s) ss value")
      case (Inl e)
      with True Some assms(1) \<open>rec_value r = None\<close> \<open>\<not> rec_cachedAsNil r\<close> show ?thesis
        by (simp add: store_TryPublishReserved_def publishReservedRecord_def)
    next
      case (Inr v)
      with publish_reserved [OF assms(1) Some True u] Some show ?thesis
        by (fastforce simp: store_TryPublishReserved_def)
    qed
  qed (use Some assms(1) in \<open>simp add: store_TryPublishReserved_def publishReservedRecord_def\<close>)
qed (use assms(1) in \<open>simp add: store_TryPublishReserved_def\<close>)

lemma createRecord_None: "createRecord ss now None s = Inr (NewRecord None now
    (if 0 < sint (rs_timeToLiveMillis s) then now + rs_timeToLiveMillis s else RecordStoreTimeNotSet))"
  by (cases "rs_adapter s") (simp_all add: createRecord_def Let_def)

lemma NewRecord_partitionID [simp]: "rec_partitionID (NewRecord v c e) = 0"
  by (simp add: NewRecord_def SetCreationTime_def SetExpirationTIme_def)

lemma newReservationRecord_ok:
  assumes "detector_ok n sr" "8 \<le> length bs" "length bs < 2 ^ 31"
  shows "\<exists>r. newReservationRecord ss sr now key (Some bs) rid s = Inr (Inr r)
    \<and> rec_reservationID r = rid \<and> rec_value r = None \<and> \<not> rec_cachedAsNil r
    \<and> 0 \<le> sint (rec_partitionID r) \<and> sint (rec_partitionID r) < int n
    \<and> rec_creationTime r = StripBaseTime now \<and> rec_lastAccessTime r = 0
    \<and> rec_expirationTime r = StripBaseTime
        (if 0 < sint (rs_timeToLiveMillis s) then now + rs_timeToLiveMillis s else RecordStoreTimeNotSet)
    \<and> (case sr of None \<Rightarrow> True | Some d \<Rightarrow> \<exists>md. GetMetaDataContainer d (rec_partitionID r) = Inr md
         \<and> rec_uuid r = md_uuid md \<and> rec_invalidationSequence r = md_seq md)"
proof (cases sr)
  case None
  then show ?thesis
    using assms(1) by (simp add: newReservationRecord_def createRecord_None initInvalidationMetadata_def detector_ok_def)
next
  case (Some d)
  then have d: "length (sr_metadataContainers d) = n" "sint (ps_partitionCount (sr_ps d)) = int n" "0 < n"
    using assms(1) by (simp_all add: detector_ok_def)
  then obtain i where "GetPartitionID (Some bs) (sr_ps d) = Inr (Inr i)" "0 \<le> sint i" "sint i < int n"
    using GetPartitionID_bounds [OF _ assms(2,3), of "sr_ps d"] by auto
  with Some d show ?thesis
    by (simp add: newReservationRecord_def createRecord_None initInvalidationMetadata_def
        GetMetaDataContainer_def go_index_def)
qed

lemma store_TryReserveForUpdate_sound:
  assumes "sound n s" "detector_ok n sr" "8 \<le> length bs" "length bs < 2 ^ 31"
    and "rs_evictionDisabled s \<longrightarrow> makeMapKey key = key" "sint (rs_reservationID s) < 2 ^ 63 - 1"
  shows "\<exists>res s'. store_TryReserveForUpdate ss sr now key (Some bs) UpdateSemanticReadUpdate s = Inr (res, s')
    \<and> sound n s'"
proof -
  let ?k = "makeMapKey key" and ?rid = "rs_reservationID s + 1"
  let ?s = "s\<lparr>rs_reservationID := ?rid\<rparr>"
  have i: "\<exists>full. (if rs_evictionDisabled s
      then bind_go (records_index (rs_records s) key) (\<lambda>found.
             Inr (rs_maxSize s \<le> int (length (rs_records s)) \<and> found = None))
      else Inr False) = (Inr full :: bool go)"
    using assms(5) by (auto simp: records_index_hashable)
  have s: "sound n ?s"
    using assms(1,6) by (simp add: sound_def counts_ok_def sint_next_id)
  have rid: "?rid \<noteq> RecordReadPermitted"
    using assms(1,6) sint_next_id [of "rs_reservationID s"] sint_ReadPermitted unfolding sound_def by force
  obtain r where r: "newReservationRecord ss sr now ?k (Some bs) ?rid ?s = Inr (Inr r)"
    "rec_reservationID r = ?rid" "rec_value r = None" "\<not> rec_cachedAsNil r"
    "0 \<le> sint (rec_partitionID r)" "sint (rec_partitionID r) < int n"
    using newReservationRecord_ok [OF assms(2-4), of ss now ?k ?rid ?s] by blast
  have "sound n (?s\<lparr>rs_records := AList.update ?k r (rs_records ?s)\<rparr>)" if "map_of (rs_records s) ?k = None"
    using s that r rid
    by (intro sound_put_reserved) (simp_all add: canUpdateStats_def record_ok_def value_ok_def)
  then have "\<exists>res s'. reserveForReadUpdate ss sr now key (Some bs) ?rid ?s = Inr (res, s') \<and> sound n s'"
    using s r by (cases "map_of (rs_records s) ?k") (auto simp: reserveForReadUpdate_def Let_def)
  with i assms(1) show ?thesis
    by (fastforce simp: store_TryReserveForUpdate_def Let_def split: sum.splits option.splits)
qed

section \<open>Reachable stores\<close>

text \<open>
  The calls that the callers of a store make: reservations for reading only, with serialized key data
  that has a header and hashable keys where eviction is off, publications under a reservation id, and
  evictions while no reservation is pending.
\<close>

definition call_ok :: "nat \<Rightarrow> 'o record_store \<Rightarrow> 'o store_op \<Rightarrow> bool" where
  "call_ok n s oper = (case oper of
     OpGet sr now key \<Rightarrow> detector_ok n sr
   | OpEvict now order \<Rightarrow> quiet s
   | OpReserve sr now key keyData ups \<Rightarrow> detector_ok n sr \<and> ups = UpdateSemanticReadUpdate
       \<and> 8 \<le> length (data_bytes keyData) \<and> length (data_bytes keyData) < 2 ^ 31
       \<and> (rs_evictionDisabled s \<longrightarrow> makeMapKey key = key) \<and> sint (rs_reservationID s) < 2 ^ 63 - 1
   | OpPublish key value rid d \<Rightarrow> rid \<noteq> RecordReadPermitted
   | _ \<Rightarrow> True)"

inductive reachable :: "'o ser_service \<Rightarrow> nat \<Rightarrow> 'o nc_config \<Rightarrow> store_adapter \<Rightarrow> 'o record_store \<Rightarrow> bool"
  for ss n cfg adapter where
  new: "reachable ss n cfg adapter (NewRecordStore cfg adapter)"
| step: "reachable ss n cfg adapter s \<Longrightarrow> call_ok n s oper \<Longrightarrow> store_step ss oper s = Inr s' \<Longrightarrow>
    reachable ss n cfg adapter s'"

lemma NewRecordStore_sound: "sound n (NewRecordStore cfg adapter)"
  by (auto simp: NewRecordStore_def sound_def counts_ok_def zero_stats_def getEvictionPolicyComparator_def
      split: option.splits eviction_policy.splits)

lemma store_step_sound:
  assumes "sound n s" "call_ok n s oper"
  shows "\<exists>s'. store_step ss oper s = Inr s' \<and> sound n s'"
proof (cases oper)
  case (OpReserve sr now key keyData ups)
  with assms(2) obtain bs where bs: "keyData = Some bs" "8 \<le> length bs" "length bs < 2 ^ 31"
    by (cases keyData) (auto simp: call_ok_def data_bytes_def)
  with OpReserve assms store_TryReserveForUpdate_sound [OF assms(1), of sr bs key ss now] show ?thesis
    by (auto simp: call_ok_def store_step_def)
next
  case OpClear
  with assms show ?thesis by (simp add: store_step_def store_Clear_sound)
next
  case (OpGet sr now key)
  with assms store_Get_sound [OF assms(1), of sr ss now key] show ?thesis
    by (auto simp: call_ok_def store_step_def)
next
  case (OpInvalidate key)
  with assms store_Invalidate_sound show ?thesis by (simp add: store_step_def)
next
  case (OpExpire now order)
  with assms DoExpiration_sound show ?thesis by (simp add: store_step_def)
next
  case (OpEvict now order)
  with assms doEviction_sound [OF assms(1), of now order] show ?thesis
    by (auto simp: call_ok_def store_step_def)
next
  case (OpPublish key v rid d)
  with assms store_TryPublishReserved_sound [OF assms(1), of rid ss key v d] show ?thesis
    by (auto simp: call_ok_def store_step_def)
qed

lemma reachable_sound: "reachable ss n cfg adapter s \<Longrightarrow> sound n s"
proof (induction rule: reachable.induct)
  case (step s oper s')
  then show ?case using store_step_sound [of n s oper ss] by auto
qed (rule NewRecordStore_sound)

section \<open>Expiration and lookup\<close>

lemma recordExpired_cong: "rs_maxIdleMillis s' = rs_maxIdleMillis s \<Longrightarrow> recordExpired s' r now = recordExpired s r now"
  by (simp add: recordExpired_def)

lemma store_Invalidate_effect:
  assumes "store_Invalidate k s = Inr s'"
  shows "map_of (rs_records s') = (map_of (rs_records s))(makeMapKey k := None) \<and> same_setup s s'"
  using assms
  by (auto simp: store_Invalidate_def Let_def elim!: bind_goE split: option.splits if_splits)

lemma expire_key_effect:
  assumes "expire_key now k s = Inr s'" "sound n s"
  shows "map_of (rs_records s') = (\<lambda>j. case map_of (rs_records s) j of
      Some r \<Rightarrow> if j = k \<and> recordExpired s r now then None else Some r | None \<Rightarrow> None) \<and> same_setup s s'"
proof (cases "map_of (rs_records s) k")
  case (Some r)
  then have "makeMapKey k = k" using assms(2) by (simp add: sound_def)
  with Some assms(1) show ?thesis
    by (auto simp: expire_key_def fun_eq_iff elim!: bind_goE dest!: store_Invalidate_effect split: option.splits if_splits)
qed (use assms in \<open>auto simp: expire_key_def fun_eq_iff split: option.splits\<close>)

lemma same_setup_trans: "same_setup s t \<Longrightarrow> same_setup t u \<Longrightarrow> same_setup s u"
  by (simp add: same_setup_def)

lemma DoExpiration_effect:
  assumes "DoExpiration now order s = Inr s'" "sound n s"
  shows "map_of (rs_records s') = (\<lambda>j. case map_of (rs_records s) j of
      Some r \<Rightarrow> if j \<in> set order \<and> recordExpired s r now then None else Some r | None \<Rightarrow> None) \<and> same_setup s s'"
  using assms unfolding DoExpiration_def
proof (induction order arbitrary: s)
  case Nil
  then show ?case by (auto simp: fun_eq_iff split: option.splits)
next
  case (Cons k ks)
  obtain t where t: "expire_key now k s = Inr t" "for_each (expire_key now) ks t = Inr s'"
    using Cons.prems(1) by (auto simp: bind_go_Inr_iff)
  have "sound n t" using expire_key_sound [OF Cons.prems(2), of now k] t(1) by auto
  note ih = Cons.IH [OF t(2) this]
  note e = expire_key_effect [OF t(1) Cons.prems(2)]
  have x: "recordExpired t r now = recordExpired s r now" for r
    using e by (intro recordExpired_cong) (simp add: same_setup_def)
  show ?case
    using ih e same_setup_trans [of s t s'] by (auto simp: x fun_eq_iff split: option.splits if_splits)
qed

text \<open>No metadata calls a record stale that was made while it held.\<close>

definition fresh :: "stale_read_detector option \<Rightarrow> bool" where
  "fresh sr \<longleftrightarrow> (case sr of None \<Rightarrow> True | Some d \<Rightarrow>
     \<forall>md\<in>set (sr_metadataContainers d). md_uuid md \<noteq> zero_uuid \<and> sint (md_staleSeq md) \<le> sint (md_seq md))"

lemma go_index_mem: "go_index xs i = Inr x \<Longrightarrow> x \<in> set xs"
  by (auto simp: go_index_def split: if_splits)

lemma reserve_new:
  assumes "sound n s" "map_of (rs_records s) (makeMapKey key) = None" "detector_ok n sr" "fresh sr"
    and "8 \<le> length bs" "length bs < 2 ^ 31" "\<not> rs_evictionDisabled s" "sint (rs_reservationID s) < 2 ^ 63 - 1"
  shows "\<exists>r s1. store_TryReserveForUpdate ss sr now key (Some bs) UpdateSemanticReadUpdate s
        = Inr (Inr (rs_reservationID s + 1), s1)
      \<and> sound n s1 \<and> same_setup s s1 \<and> map_of (rs_records s1) (makeMapKey key) = Some r
      \<and> rec_reservationID r = rs_reservationID s + 1
      \<and> (case sr of None \<Rightarrow> Inr False | Some d \<Rightarrow> IsStaleRead d r) = Inr False
      \<and> rec_creationTime r = StripBaseTime now \<and> rec_lastAccessTime r = 0
      \<and> rec_expirationTime r = StripBaseTime
          (if 0 < sint (rs_timeToLiveMillis s) then now + rs_timeToLiveMillis s else RecordStoreTimeNotSet)"
proof -
  let ?k = "makeMapKey key" and ?rid = "rs_reservationID s + 1"
  let ?s = "s\<lparr>rs_reservationID := ?rid\<rparr>"
  obtain r where r: "newReservationRecord ss sr now ?k (Some bs) ?rid ?s = Inr (Inr r)"
    "rec_reservationID r = ?rid" "rec_creationTime r = StripBaseTime now" "rec_lastAccessTime r = 0"
    "rec_expirationTime r = StripBaseTime
        (if 0 < sint (rs_timeToLiveMillis s) then now + rs_timeToLiveMillis s else RecordStoreTimeNotSet)"
    and md: "case sr of None \<Rightarrow> True | Some d \<Rightarrow> \<exists>md. GetMetaDataContainer d (rec_partitionID r) = Inr md
         \<and> rec_uuid r = md_uuid md \<and> rec_invalidationSequence r = md_seq md"
    using newReservationRecord_ok [OF assms(3,5,6), of ss now ?k ?rid ?s] by auto
  have stale: "(case sr of None \<Rightarrow> Inr False | Some d \<Rightarrow> IsStaleRead d r) = Inr False"
    using md assms(4)
    by (auto simp: IsStaleRead_def fresh_def hasSameUUID_def GetMetaDataContainer_def not_less
        dest: go_index_mem split: option.splits)
  have res: "store_TryReserveForUpdate ss sr now key (Some bs) UpdateSemanticReadUpdate s
      = Inr (Inr ?rid, ?s\<lparr>rs_records := AList.update ?k r (rs_records s)\<rparr>)"
    using assms(2,7) r(1,2) by (simp add: store_TryReserveForUpdate_def reserveForReadUpdate_def Let_def)
  have "sound n (?s\<lparr>rs_records := AList.update ?k r (rs_records s)\<rparr>)"
    using store_TryReserveForUpdate_sound [OF assms(1,3,5,6), of key ss now] assms(7,8) res by auto
  with res r stale show ?thesis by simp
qed

lemma times_cong:
  assumes "rec_expirationTime r = rec_expirationTime q" "rec_lastAccessTime r = rec_lastAccessTime q"
    "rec_creationTime r = rec_creationTime q"
  shows "IsExpiredAt r now = IsExpiredAt q now" "IsIdleAt r m now = IsIdleAt q m now"
  using assms by (simp_all add: IsExpiredAt_def IsIdleAt_def ExpirationTime_def LastAccessTime_def CreationTime_def Let_def)

lemma publish_effect:
  assumes "sound n s" "map_of (rs_records s) (makeMapKey key) = Some r" "rec_reservationID r = rid"
    "rid \<noteq> RecordReadPermitted" "ConvertValue (rs_adapter s) ss value = Inr v"
  shows "\<exists>s'. store_TryPublishReserved ss key value rid True s = Inr (toValue ss v, s') \<and> sound n s'
    \<and> map_of (rs_records s') (makeMapKey key) = Some
        (r\<lparr>rec_value := v, rec_cachedAsNil := (value = None), rec_reservationID := RecordReadPermitted\<rparr>)
    \<and> same_setup s s'"
proof -
  have "\<not> canUpdateStats r" using assms(3,4) by (simp add: canUpdateStats_def)
  from publish_reserved [OF assms(1-3) this assms(5)] assms(2) show ?thesis
    by (fastforce simp: store_TryPublishReserved_def Let_def)
qed

lemma get_published:
  assumes "sound n s" "map_of (rs_records s) (makeMapKey key) = Some r" "canUpdateStats r" "rec_value r = Some v"
    "(case sr of None \<Rightarrow> Inr False | Some d \<Rightarrow> IsStaleRead d r) = Inr False"
    "\<not> IsExpiredAt r now" "\<not> IsIdleAt r (rs_maxIdleMillis s) now" "toValue ss (Some v) = Inr w"
  shows "\<exists>s'. store_Get ss sr now key s = Inr (Inr (w, True), s') \<and> Hits (rs_stats s') = Hits (rs_stats s) + 1"
  using assms
  by (simp add: store_Get_def Let_def canUpdateStats_def recordExpired_def incrementHits_def)

lemma invalidated_reservation:
  assumes "store_TryReserveForUpdate ss sr now key keyData ups s0 = Inr (Inr rid, s1)"
    and "rid \<noteq> RecordNotReserved"
    and "store_run ss ops1 s1 = Inr s2" and "store_Invalidate key s2 = Inr s3"
    and "store_run ss ops2 s3 = Inr s4"
    and "0 \<le> sint (rs_reservationID s0)"
    and "sint (rs_reservationID s0) + int (length ops1) + int (length ops2) + 1 < 2 ^ 63"
    and "store_TryPublishReserved ss key value rid d s4 = Inr (res, s5)"
  shows "s5 = s4"
proof -
  have rid: "rid = rs_reservationID s0 + 1" "rs_reservationID s1 = rid" using reserved_id [OF assms(1,2)] by simp_all
  have sr: "sint rid = sint (rs_reservationID s0) + 1" using assms(7) by (simp add: rid sint_next_id)
  have s2: "sint rid \<le> sint (rs_reservationID s2) \<and> sint (rs_reservationID s2) \<le> sint rid + int (length ops1)"
    using store_run_ids [OF assms(3)] assms(7) by (simp add: rid(2) sr)
  have "retired (makeMapKey key) rid s3"
    using store_Invalidate_removes [OF assms(4)] assms(6) s2 sr by (simp add: retired_def)
  then have "retired (makeMapKey key) rid s4"
    using store_run_retired [OF assms(5)] store_Invalidate_removes [OF assms(4)] assms(7) s2 sr by simp
  then show ?thesis using publish_unreserved [OF assms(8)] by (simp add: retired_def)
qed

section \<open>A concrete service and configuration\<close>

text \<open>Bytes as objects, serialized behind an empty header; they instantiate the parameters below.\<close>

definition byte_service :: "byte ser_service" where
  "byte_service = \<lparr>
     ss_ToData = (\<lambda>v. case v of
         Some (IObj b) \<Rightarrow> Inr (Some (replicate 8 0 @ [b]))
       | Some (IData d) \<Rightarrow> Inr d
       | _ \<Rightarrow> Inl (NewSerializationError [] None)),
     ss_ToObject = (\<lambda>d. case d of
         Some bs \<Rightarrow> if length bs = 9 then Inr (Some (IObj (bs ! 8))) else Inl (NewSerializationError [] None)
       | None \<Rightarrow> Inr None)\<rparr>"

definition byte_config :: "byte nc_config" where
  "byte_config = \<lparr>cfg_TimeToLiveSeconds = 60, cfg_MaxIdleSeconds = 2147483647, cfg_SerializeKeys = False,
     cfg_InMemoryFormat = InMemoryFormatBinary, cfg_policy = None, cfg_size = Some 1, cfg_comparator = None\<rparr>"

definition byte_store :: "byte record_store" where
  "byte_store = NewRecordStore byte_config nearCacheDataStoreAdapter"

lemma byte_store_simps [simp]:
  "rs_records byte_store = []" "rs_reservationID byte_store = 0"
  "\<not> rs_evictionDisabled byte_store" "rs_adapter byte_store = nearCacheDataStoreAdapter"
  "rs_timeToLiveMillis byte_store = 60000" "rs_maxIdleMillis byte_store = 2147483647000"
  "rs_maxSize byte_store = 1" "rs_cmp byte_store = Some LRUEvictionPolicyComparator" "rs_stats byte_store = zero_stats"
  by (simp_all add: byte_store_def NewRecordStore_def byte_config_def eviction_Policy_def eviction_Size_def
      getEvictionPolicyComparator_def)

lemma byte_store_sound [simp]: "sound n byte_store"
  by (simp add: byte_store_def NewRecordStore_sound)

section \<open>Properties\<close>

text \<open>
  C13: a value read before an invalidation is never cached after it. When a key is invalidated after a
  reservation of it was handed out, publishing under that reservation changes nothing, whatever else
  happens to the store in between and as long as the counter of reservation ids does not wrap.
\<close>

theorem invalidated_reservation_dead:
  assumes "store_TryReserveForUpdate ss sr now key keyData ups s0 = Inr (Inr rid, s1)"
    and "rid \<noteq> RecordNotReserved"
    and "store_run ss ops1 s1 = Inr s2" and "store_Invalidate key s2 = Inr s3"
    and "store_run ss ops2 s3 = Inr s4"
    and "0 \<le> sint (rs_reservationID s0)"
    and "sint (rs_reservationID s0) + int (length ops1) + int (length ops2) + 1 < 2 ^ 63"
    and "store_TryPublishReserved ss key value rid d s4 = Inr (res, s5)"
  shows "s5 = s4"
  using assms by (rule invalidated_reservation)

theorem invalidated_reservation_dead_witness:
  "\<exists>s1 s3 res. store_TryReserveForUpdate byte_service None 1700000000000 (Some (IObj 7)) (Some (replicate 9 0))
        UpdateSemanticReadUpdate byte_store = Inr (Inr 1, s1)
      \<and> store_Invalidate (Some (IObj 7)) s1 = Inr s3
      \<and> store_TryPublishReserved byte_service (Some (IObj 7)) (Some (IObj 3)) 1 True s3 = Inr (res, s3)"
proof -
  obtain s1 where s1: "store_TryReserveForUpdate byte_service None 1700000000000 (Some (IObj 7)) (Some (replicate 9 0))
        UpdateSemanticReadUpdate byte_store = Inr (Inr 1, s1)" "sound 1 s1"
    using reserve_new [of 1 byte_store "Some (IObj 7)" None "replicate 9 0" byte_service 1700000000000]
    by (auto simp: detector_ok_def fresh_def)
  obtain s3 where s3: "store_Invalidate (Some (IObj 7)) s1 = Inr s3" "sound 1 s3"
    using store_Invalidate_sound [OF s1(2)] by blast
  obtain res s5 where s5: "store_TryPublishReserved byte_service (Some (IObj 7)) (Some (IObj 3)) 1 True s3 = Inr (res, s5)"
    using store_TryPublishReserved_sound [OF s3(2), of 1 byte_service "Some (IObj 7)" "Some (IObj 3)" True]
    by (auto simp: RecordReadPermitted_def)
  have "s5 = s3"
    by (rule invalidated_reservation_dead [OF s1(1) _ _ s3(1) _ _ _ s5, of "[]" "[]"])
      (simp_all add: store_run_def RecordNotReserved_def)
  with s1(1) s3(1) s5 show ?thesis by blast
qed



text \<open>
  Evicting a record that is only reserved is counted as if an entry had left: the count of owned
  entries is then one below the number of readable records.
\<close>

theorem evict_reservation_miscounts:
  assumes "sound n s" and "doEviction now order s = Inr (True, s')" and "\<not> (\<exists>k r. map_of (rs_records s) k = Some r \<and> canUpdateStats r)"
  shows "OwnedEntryCount (rs_stats s') = - 1 \<and> length (filter (\<lambda>(_, r). canUpdateStats r) (rs_records s')) = 0"
  using assms(1)
proof (cases rule: doEviction_cases [of n s now order])
  case 1
  with assms(2) show ?thesis by simp
next
  case (2 k r)
  have none: "\<forall>(j, q)\<in>set m. \<not> canUpdateStats q" if "set m \<subseteq> set (rs_records s)" for m
    using that assms(1,3) by (auto simp: sound_def)
  then have f: "filter (\<lambda>(_, r). canUpdateStats r) m = []" if "set m \<subseteq> set (rs_records s)" for m
    using that by (fastforce simp: filter_empty_conv)
  have "set (AList.delete k (rs_records s)) \<subseteq> set (rs_records s)"
    by (auto simp: AList.delete_eq)
  moreover have "OwnedEntryCount (rs_stats s) = 0"
    using assms(1) f [of "rs_records s"] by (simp add: sound_def counts_ok_def owned_count)
  ultimately show ?thesis using 2(4) assms(2) f by (auto simp: counter_defs)
qed

theorem evict_reservation_miscounts_witness:
  "\<exists>s'. doEviction 1700000000000 [Some (IObj 7)]
      (byte_store\<lparr>rs_records := [(Some (IObj 7), NewRecord None 1700000000000 (-1))]\<rparr>) = Inr (True, s')
    \<and> OwnedEntryCount (rs_stats s') = - 1"
proof -
  let ?s = "byte_store\<lparr>rs_records := [(Some (IObj 7), NewRecord None 1700000000000 (-1))]\<rparr>"
  have s: "sound 1 ?s"
    by (simp add: sound_def counts_ok_def record_ok_def value_ok_def canUpdateStats_def RecordReadPermitted_def
        zero_stats_def)
  have "\<exists>s'. doEviction 1700000000000 [Some (IObj 7)] ?s = Inr (True, s')"
    by (simp add: doEviction_def evict_def sample_def List.map_filter_def select_victim_def
        RecordStoreSampleCount_def tryEvict_removes [OF s])
  then obtain s' where s': "doEviction 1700000000000 [Some (IObj 7)] ?s = Inr (True, s')" by blast
  then show ?thesis
    using evict_reservation_miscounts [OF s s']
    by (auto simp: canUpdateStats_def RecordReadPermitted_def)
qed





text \<open>
  With eviction switched off, reserving a key in serialized form panics, because the map is
  indexed with the byte slice itself before it is turned into a hashable key.
\<close>

theorem reserve_serialized_key_panics:
  "store_TryReserveForUpdate ss sr now (Some (IData key)) keyData ups
     (NewRecordStore (cfg\<lparr>cfg_policy := Some EvictionPolicyNone\<rparr>) adapter) = Inl UnhashableType"
  by (simp add: store_TryReserveForUpdate_def NewRecordStore_def eviction_Policy_def)

end
