(* ===== verification/NearCache.thy ===== *)
theory NearCache
  imports RecordStore
begin

text \<open>
  The Near Cache in front of its record store (\<^verbatim>\<open>internal/nearcache/nearcache.go\<close>) and the manager
  that keeps one Near Cache per map (\<^verbatim>\<open>manager.go\<close>). The expiration task runs \<^verbatim>\<open>DoExpiration\<close> of the
  store on a timer; here it is one more call. The clock that the eviction reads is the argument
  \<open>nowE\<close>, the clock of the new record \<open>now\<close>.
\<close>

section \<open>The Near Cache\<close>

record 'o near_cache =
  nc_store :: "'o record_store"
  nc_cfg :: "'o nc_config"
  nc_destroyed :: bool

definition NewNearCache :: "'o nc_config \<Rightarrow> 'o near_cache" where
  "NewNearCache cfg =
     \<lparr>nc_store = NewRecordStore cfg
        (if cfg_InMemoryFormat cfg = InMemoryFormatBinary then nearCacheDataStoreAdapter
         else nearCacheValueStoreAdapter),
      nc_cfg = cfg, nc_destroyed = False\<rparr>"

definition is_Data :: "'o iface option \<Rightarrow> bool" where
  "is_Data key = (case key of Some (IData _) \<Rightarrow> True | _ \<Rightarrow> False)"

definition checkKeyFormat :: "'o near_cache \<Rightarrow> 'o iface option \<Rightarrow> unit go" where
  "checkKeyFormat nc key =
     (if cfg_SerializeKeys (nc_cfg nc)
      then if \<not> is_Data key then Inl (PanicMessage ''key must be of type serialization.Data!'') else Inr ()
      else if is_Data key then Inl (PanicMessage ''key cannot be of type serialization.Data!'') else Inr ())"

definition nc_Clear :: "'o near_cache \<Rightarrow> 'o near_cache" where
  "nc_Clear nc = nc\<lparr>nc_store := store_Clear (nc_store nc)\<rparr>"

definition nc_Destroy :: "'o near_cache \<Rightarrow> 'o near_cache" where
  "nc_Destroy nc =
     (if nc_destroyed nc then nc
      else nc\<lparr>nc_destroyed := True, nc_store := store_Clear (nc_store nc)\<rparr>)"

definition nc_Get ::
  "'o ser_service \<Rightarrow> stale_read_detector option \<Rightarrow> i64 \<Rightarrow> 'o iface option \<Rightarrow> 'o near_cache \<Rightarrow>
   ((go_error + ('o iface option \<times> bool)) \<times> 'o near_cache) go" where
  "nc_Get ss sr now key nc =
     bind_go (checkKeyFormat nc key) (\<lambda>_.
     bind_go (store_Get ss sr now key (nc_store nc)) (\<lambda>(res, s). Inr (res, nc\<lparr>nc_store := s\<rparr>)))"

definition nc_Invalidate :: "'o iface option \<Rightarrow> 'o near_cache \<Rightarrow> 'o near_cache go" where
  "nc_Invalidate key nc =
     bind_go (checkKeyFormat nc key) (\<lambda>_.
     bind_go (store_Invalidate key (nc_store nc)) (\<lambda>s. Inr (nc\<lparr>nc_store := s\<rparr>)))"

definition nc_TryReserveForUpdate ::
  "'o ser_service \<Rightarrow> stale_read_detector option \<Rightarrow> i64 \<Rightarrow> 'o iface option list \<Rightarrow> i64 \<Rightarrow> 'o iface option \<Rightarrow>
   data \<Rightarrow> update_semantic \<Rightarrow> 'o near_cache \<Rightarrow> ((go_error + i64) \<times> 'o near_cache) go" where
  "nc_TryReserveForUpdate ss sr nowE order now key keyData ups nc =
     bind_go (doEviction nowE order (nc_store nc)) (\<lambda>(_, s).
     bind_go (store_TryReserveForUpdate ss sr now key keyData ups s) (\<lambda>(res, s).
       Inr (res, nc\<lparr>nc_store := s\<rparr>)))"

definition nc_TryPublishReserved ::
  "'o ser_service \<Rightarrow> 'o iface option \<Rightarrow> 'o iface option \<Rightarrow> i64 \<Rightarrow> 'o near_cache \<Rightarrow>
   ((go_error + 'o iface option) \<times> 'o near_cache) go" where
  "nc_TryPublishReserved ss key value reservationID nc =
     bind_go (store_TryPublishReserved ss key value reservationID True (nc_store nc)) (\<lambda>(res, s).
       Inr (case res of
              Inl e \<Rightarrow> Inl e
            | Inr cached \<Rightarrow> Inr (if cached \<noteq> None then cached else value), nc\<lparr>nc_store := s\<rparr>))"

section \<open>The manager\<close>

record 'o nc_manager =
  mgr_nearCaches :: "(gostring, 'o near_cache) gomap"
  mgr_stopped :: bool

definition GetOrCreateNearCache :: "gostring \<Rightarrow> 'o nc_config \<Rightarrow> 'o nc_manager \<Rightarrow> 'o near_cache \<times> 'o nc_manager" where
  "GetOrCreateNearCache name cfg m = (case map_of (mgr_nearCaches m) name of
     Some nc \<Rightarrow> (nc, m)
   | None \<Rightarrow> let nc = NewNearCache cfg
             in (nc, m\<lparr>mgr_nearCaches := AList.update name nc (mgr_nearCaches m)\<rparr>))"

definition DestroyNearCache :: "gostring \<Rightarrow> 'o nc_manager \<Rightarrow> 'o nc_manager" where
  "DestroyNearCache name m = m\<lparr>mgr_nearCaches := AList.delete name (mgr_nearCaches m)\<rparr>"

definition manager_Stop :: "'o nc_manager \<Rightarrow> 'o nc_manager" where
  "manager_Stop m = (if mgr_stopped m then m else m\<lparr>mgr_stopped := True, mgr_nearCaches := []\<rparr>)"

section \<open>The size of the store\<close>

text \<open>The most records a store holds: its configured size, but at least one.\<close>

definition capacity :: "'o record_store \<Rightarrow> int" where
  "capacity s = max 1 (rs_maxSize s)"

lemma length_update: "length (AList.update k v m) = (if k \<in> fst ` set m then length m else Suc (length m))"
  by (induction m) auto

lemma length_delete: "k \<in> fst ` set m \<Longrightarrow> length (AList.delete k m) < length m"
proof (induction m)
  case (Cons p m)
  have "length (AList.delete k m) \<le> length m" by (simp add: AList.delete_eq)
  with Cons show ?case by (cases "fst p = k") auto
qed simp

lemma sample_nonempty:
  assumes "rs_records s \<noteq> []" "fst ` set (rs_records s) \<subseteq> set order" "0 < m"
  shows "sample m order s \<noteq> []"
proof -
  obtain p where p: "p \<in> set (rs_records s)" using assms(1) by (cases "rs_records s") auto
  then have "fst p \<in> set order" using assms(2) by auto
  moreover have "\<exists>r. map_of (rs_records s) (fst p) = Some r"
    using p by (metis weak_map_of_SomeI prod.collapse)
  ultimately have "List.map_filter (\<lambda>k. map_option (Pair k) (map_of (rs_records s) k)) order \<noteq> []"
    by (auto simp: List.map_filter_def filter_empty_conv)
  then show ?thesis using assms by (simp add: sample_def)
qed

lemma evaluateForEviction_some: "candies \<noteq> [] \<Longrightarrow> \<exists>c. evaluateForEviction cmp now candies = Some c"
  by (cases candies) auto

text \<open>After the eviction that precedes a reservation there is room for one more record.\<close>

lemma doEviction_makes_room:
  assumes "sound n s" "fst ` set (rs_records s) \<subseteq> set order" "int (length (rs_records s)) \<le> capacity s"
    "\<not> rs_evictionDisabled s"
  shows "\<exists>b s'. doEviction now order s = Inr (b, s') \<and> int (length (rs_records s')) < capacity s
    \<and> same_setup s s' \<and> rs_reservationID s' = rs_reservationID s"
proof (cases "rs_records s = [] \<or> int (length (rs_records s)) < rs_maxSize s")
  case True
  have "doEviction now order s = Inr (False, s) \<or> rs_records s = []"
    using True assms(4) by (auto simp: doEviction_def evict_def)
  moreover have "doEviction now order s = Inr (False, s)" if "rs_records s = []"
    using that assms(1,4)
    by (auto simp: doEviction_def evict_def sample_def select_victim_def tryEvict_def sound_def split: option.splits)
  ultimately show ?thesis using True by (auto simp: capacity_def)
next
  case False
  let ?sample = "sample RecordStoreSampleCount order s"
  obtain cmp where cmp: "rs_cmp s = Some cmp" using assms(1,4) by (auto simp: sound_def)
  have "?sample \<noteq> []"
    using False assms(2) by (intro sample_nonempty) (simp_all add: RecordStoreSampleCount_def)
  then obtain k r where c: "evaluateForEviction cmp now ?sample = Some (k, r)"
    using evaluateForEviction_some by (metis surj_pair)
  then have kr: "map_of (rs_records s) k = Some r"
    using evaluateForEviction_mem sample_mem by fastforce
  then have "length (AList.delete k (rs_records s)) < length (rs_records s)"
    by (intro length_delete) (force dest: map_of_SomeD)
  with False assms(3,4) cmp c tryEvict_removes [OF assms(1) kr] show ?thesis
    by (auto simp: doEviction_def evict_def select_victim_def)
qed

lemma reserve_grows_by_one:
  assumes "store_TryReserveForUpdate ss sr now key keyData ups s = Inr (res, s')"
  shows "length (rs_records s') \<le> Suc (length (rs_records s)) \<and> same_setup s s'
    \<and> (rs_evictionDisabled s \<and> rs_maxSize s \<le> int (length (rs_records s)) \<longrightarrow>
         length (rs_records s') = length (rs_records s))"
proof -
  have upd: "map_of (rs_records s) k = Some r \<Longrightarrow> length (AList.update k r' (rs_records s)) = length (rs_records s)" for k r r'
    by (force simp: length_update dest: map_of_SomeD)
  have r: "length (rs_records t') \<le> Suc (length (rs_records t)) \<and> same_setup t t'
      \<and> (map_of (rs_records t) (makeMapKey key) \<noteq> None \<longrightarrow> t' = t)"
    if "reserveForReadUpdate ss sr now key keyData rid t = Inr (x, t')" for rid t x t'
    using that by (auto simp: reserveForReadUpdate_def Let_def length_update elim!: bind_goE split: option.splits sum.splits)
  have w: "length (rs_records t') = length (rs_records t) \<and> same_setup t t'"
    if "reserveForWriteUpdate ss sr now key keyData rid t = Inr (x, t')" "rs_records t = rs_records s" for rid t x t'
    using that upd by (auto simp: reserveForWriteUpdate_def Let_def elim!: bind_goE
        dest!: records_index_Inr split: option.splits sum.splits if_splits)
  have su: "same_setup (s\<lparr>rs_reservationID := i\<rparr>) t = same_setup s t" for i t
    by (simp add: same_setup_def)
  show ?thesis
    using assms
    by (cases ups; auto simp: su store_TryReserveForUpdate_def Let_def elim!: bind_goE dest!: r w records_index_Inr
        split: if_splits sum.splits option.splits)
qed

section \<open>The store as a cache\<close>

text \<open>
  What a store promises, without records, reservations and statistics: a cache is a partial map from
  keys to values. A call may drop entries, and only a publication adds one: the converted value of the
  key it publishes. A lookup may find that its entry is stale or expired and drop it.
\<close>

type_synonym 'o cache = "'o iface option \<rightharpoonup> 'o iface option"

definition readable :: "'o record_store \<Rightarrow> 'o cache" where
  "readable s k = (case map_of (rs_records s) k of
     Some r \<Rightarrow> if canUpdateStats r then Some (rec_value r) else None
   | None \<Rightarrow> None)"

fun cache_step :: "'o ser_service \<Rightarrow> store_adapter \<Rightarrow> 'o store_op \<Rightarrow> 'o cache \<Rightarrow> 'o cache \<Rightarrow> bool" where
  "cache_step ss adapter OpClear m m' \<longleftrightarrow> m' = (\<lambda>_. None)"
| "cache_step ss adapter (OpGet sr now key) m m' \<longleftrightarrow> m' = m \<or> m' = m(makeMapKey key := None)"
| "cache_step ss adapter (OpInvalidate key) m m' \<longleftrightarrow> m' = m(makeMapKey key := None)"
| "cache_step ss adapter (OpExpire now order) m m' \<longleftrightarrow> m' \<subseteq>\<^sub>m m"
| "cache_step ss adapter (OpEvict now order) m m' \<longleftrightarrow> m' = m \<or> (\<exists>k. m' = m(k := None))"
| "cache_step ss adapter (OpReserve sr now key keyData ups) m m' \<longleftrightarrow> m' = m"
| "cache_step ss adapter (OpPublish key v rid d) m m' \<longleftrightarrow>
     m' = m \<or> (\<exists>w. ConvertValue adapter ss v = Inr w \<and> m' = m(makeMapKey key \<mapsto> w))"

lemma readable_cong: "map_of (rs_records s') = map_of (rs_records s) \<Longrightarrow> readable s' = readable s"
  by (simp add: readable_def fun_eq_iff)

lemma readable_None: "map_of (rs_records s) k = None \<Longrightarrow> readable s k = None"
  by (simp add: readable_def)

lemma readable_counters [simp]:
  "readable (incrementHits s) = readable s" "readable (incrementMisses s) = readable s"
  "readable (incrementExpirations s) = readable s" "readable (incrementEvictions s) = readable s"
  "readable (addOwnedEntryCount c s) = readable s" "readable (addOwnedEntryMemoryCost c s) = readable s"
  by (simp_all add: readable_def fun_eq_iff)

lemma readable_delete [simp]:
  "readable (s\<lparr>rs_records := AList.delete k (rs_records s)\<rparr>) = (readable s)(k := None)"
  by (simp add: readable_def fun_eq_iff)

lemma readable_update:
  "readable (s\<lparr>rs_records := AList.update k r (rs_records s)\<rparr>) =
   (readable s)(k := if canUpdateStats r then Some (rec_value r) else None)"
  by (simp add: readable_def fun_eq_iff)

lemma readable_Invalidate: "store_Invalidate k s = Inr s' \<Longrightarrow> readable s' = (readable s)(makeMapKey k := None)"
  using store_Invalidate_effect [of k s s'] by (simp add: readable_def fun_eq_iff)

lemma readable_Get:
  assumes "store_Get ss sr now key s = Inr (res, s')"
  shows "readable s' = readable s \<or> readable s' = (readable s)(makeMapKey key := None)"
proof -
  have touch: "readable (s\<lparr>rs_records := AList.update (makeMapKey key) (IncrementHits (SetLastAccessTime now r)) (rs_records s)\<rparr>)
      = readable s" if "map_of (rs_records s) (makeMapKey key) = Some r" for r
    using that by (auto simp: readable_update canUpdateStats_def readable_def fun_eq_iff)
  show ?thesis
    using assms
    by (auto simp: store_Get_def Let_def touch elim!: bind_goE dest!: readable_Invalidate
        split: option.splits if_splits)
qed

lemma readable_Expiration:
  assumes "DoExpiration now order s = Inr s'" "sound n s"
  shows "readable s' \<subseteq>\<^sub>m readable s"
  using DoExpiration_effect [OF assms]
  by (auto simp: readable_def map_le_def dom_def split: option.splits if_splits)

lemma readable_Eviction:
  assumes "doEviction now order s = Inr (b, s')" "sound n s"
  shows "readable s' = readable s \<or> (\<exists>k. readable s' = (readable s)(k := None))"
  using assms(2) by (cases rule: doEviction_cases [of n s now order]) (use assms(1) in auto)

lemma readable_Reserve:
  assumes "store_TryReserveForUpdate ss sr now key keyData UpdateSemanticReadUpdate s = Inr (res, s')"
    and "sound n s" "sint (rs_reservationID s) < 2 ^ 63 - 1"
  shows "readable s' = readable s"
proof -
  let ?rid = "rs_reservationID s + 1"
  have rid: "?rid \<noteq> RecordReadPermitted"
    using assms(2,3) sint_next_id [of "rs_reservationID s"] sint_ReadPermitted unfolding sound_def by force
  have "readable t' = readable t" if "reserveForReadUpdate ss sr now key keyData ?rid t = Inr (x, t')" for t x t'
    using that rid
    by (auto simp: reserveForReadUpdate_def Let_def readable_update canUpdateStats_def newReservationRecord_id
        fun_upd_idem readable_None elim!: bind_goE split: option.splits sum.splits)
  moreover have "readable (s\<lparr>rs_reservationID := i\<rparr>) = readable s" for i by (rule readable_cong) simp
  ultimately show ?thesis
    using assms(1)
    by (auto simp: store_TryReserveForUpdate_def Let_def elim!: bind_goE split: if_splits sum.splits option.splits)
qed

lemma readable_Publish:
  assumes "store_TryPublishReserved ss key v rid d s = Inr (res, s')" "sound n s" "rid \<noteq> RecordReadPermitted"
  shows "readable s' = readable s \<or>
    (\<exists>w. ConvertValue (rs_adapter s) ss v = Inr w \<and> readable s' = (readable s)(makeMapKey key \<mapsto> w))"
proof (cases "\<exists>r. map_of (rs_records s) (makeMapKey key) = Some r \<and> rec_reservationID r = rid")
  case True
  then obtain r where r: "map_of (rs_records s) (makeMapKey key) = Some r" "rec_reservationID r = rid" by blast
  then have u: "\<not> canUpdateStats r" using assms(3) by (simp add: canUpdateStats_def)
  then have e: "rec_value r = None" "\<not> rec_cachedAsNil r"
    using sound_record [OF assms(2) r(1)] by (simp_all add: record_ok_def)
  show ?thesis
  proof (cases "ConvertValue (rs_adapter s) ss v")
    case (Inl e')
    with assms(1) r e show ?thesis by (auto simp: store_TryPublishReserved_def publishReservedRecord_def)
  next
    case (Inr w)
    let ?r = "r\<lparr>rec_value := w, rec_cachedAsNil := (v = None), rec_reservationID := RecordReadPermitted\<rparr>"
    obtain t where "publishReservedRecord ss (makeMapKey key) v r rid s = Inr (Inr ?r, t)"
      "rs_records t = AList.update (makeMapKey key) ?r (rs_records s)"
      using publish_reserved [OF assms(2) r u Inr] by blast
    with assms(1) r(1) have "rs_records s' = AList.update (makeMapKey key) ?r (rs_records s)"
      by (auto simp: store_TryPublishReserved_def)
    then have "readable s' = (readable s)(makeMapKey key \<mapsto> w)"
      by (simp add: readable_def fun_eq_iff canUpdateStats_def)
    with Inr show ?thesis by blast
  qed
next
  case False
  with publish_unreserved [OF assms(1)] show ?thesis by blast
qed

section \<open>Properties\<close>





end
