(* ===== verification/Repairing.thy ===== *)
theory Repairing
  imports NearCache MemberInfo "HOL-Library.Multiset"
begin

text \<open>
  Keeping a Near Cache in step with the cluster: \<^verbatim>\<open>internal/nearcache/repairing_task.go\<close>. The members
  number the invalidation events of each partition. The repairing handler applies events, counts the
  numbers it has missed, and the repairing task marks everything older than the last number as stale
  once too many are missing.

  The fields of a metadata container are changed by several goroutines with atomic operations. A
  compare-and-swap loop is modelled with the list of what others do to the container between its
  load and its swap, one element per round; when nobody interferes that list is empty. The handler's
  operations below run without interference.
\<close>

section \<open>Metadata under concurrent updates\<close>

fun stale_loop :: "(meta_data \<Rightarrow> meta_data) list \<Rightarrow> meta_data \<Rightarrow> meta_data" where
  "stale_loop [] md =
     (if sint (md_seq md) \<le> sint (md_staleSeq md) then md else md\<lparr>md_staleSeq := md_seq md\<rparr>)"
| "stale_loop (f # fs) md =
     (let lastReceived = md_seq md; lastKnown = md_staleSeq md
      in if sint lastReceived \<le> sint lastKnown then md
         else let md' = f md
              in if md_staleSeq md' = lastKnown then md'\<lparr>md_staleSeq := lastReceived\<rparr>
                 else stale_loop fs md')"

definition note_missed :: "bool \<Rightarrow> i64 \<Rightarrow> meta_data \<Rightarrow> meta_data" where
  "note_missed viaAntiEntropy diff md =
     (if viaAntiEntropy \<or> 1 < sint diff
      then md\<lparr>md_missedSeqs := md_missedSeqs md + (if viaAntiEntropy then diff else diff - 1)\<rparr>
      else md)"

fun sequence_loop :: "(meta_data \<Rightarrow> meta_data) list \<Rightarrow> i64 \<Rightarrow> bool \<Rightarrow> meta_data \<Rightarrow> meta_data" where
  "sequence_loop [] nextSeq viaAntiEntropy md =
     (if sint nextSeq \<le> sint (md_seq md) then md
      else note_missed viaAntiEntropy (nextSeq - md_seq md) (md\<lparr>md_seq := nextSeq\<rparr>))"
| "sequence_loop (f # fs) nextSeq viaAntiEntropy md =
     (let curSeq = md_seq md
      in if sint nextSeq \<le> sint curSeq then md
         else let md' = f md
              in if md_seq md' = curSeq
                 then note_missed viaAntiEntropy (nextSeq - curSeq) (md'\<lparr>md_seq := nextSeq\<rparr>)
                 else sequence_loop fs nextSeq viaAntiEntropy md')"

fun uuid_loop :: "(meta_data \<Rightarrow> meta_data) list \<Rightarrow> uuid \<Rightarrow> meta_data \<Rightarrow> meta_data" where
  "uuid_loop [] u md = (if md_uuid md = u then md else md\<lparr>md_uuid := u, md_seq := 0, md_staleSeq := 0\<rparr>)"
| "uuid_loop (f # fs) u md =
     (let prev = md_uuid md
      in if prev = u then md
         else let md' = f md
              in if md_uuid md' = prev then md'\<lparr>md_uuid := u, md_seq := 0, md_staleSeq := 0\<rparr>
                 else uuid_loop fs u md')"

section \<open>The repairing handler\<close>

text \<open>\<open>rh_name\<close> is the map's name as the value that is serialized to find the partition of a map-wide event.\<close>

record 'o repairing_handler =
  rh_name :: 'o
  rh_metadataContainers :: "meta_data list"
  rh_localUUID :: uuid

definition NewRepairingHandler :: "'o \<Rightarrow> i32 \<Rightarrow> uuid \<Rightarrow> 'o repairing_handler go" where
  "NewRepairingHandler name partitionCount u =
     (if sint partitionCount < 0 then Inl MakeSliceLenOutOfRange
      else Inr \<lparr>rh_name = name,
                rh_metadataContainers = replicate (nat (sint partitionCount)) NewMetaDataContainer,
                rh_localUUID = u\<rparr>)"

definition on_container ::
  "i32 \<Rightarrow> (meta_data \<Rightarrow> meta_data) \<Rightarrow> 'o repairing_handler \<Rightarrow> 'o repairing_handler go" where
  "on_container pt f h =
     bind_go (go_index (rh_metadataContainers h) (sint pt)) (\<lambda>md.
     bind_go (go_update (rh_metadataContainers h) (sint pt) (f md)) (\<lambda>mds.
       Inr (h\<lparr>rh_metadataContainers := mds\<rparr>)))"

definition InitUUID :: "i32 \<Rightarrow> uuid \<Rightarrow> 'o repairing_handler \<Rightarrow> 'o repairing_handler go" where
  "InitUUID pt u h = on_container pt (\<lambda>md. md\<lparr>md_uuid := u\<rparr>) h"

definition InitSequence :: "i32 \<Rightarrow> i64 \<Rightarrow> 'o repairing_handler \<Rightarrow> 'o repairing_handler go" where
  "InitSequence pt seq h = on_container pt (\<lambda>md. md\<lparr>md_seq := seq\<rparr>) h"

definition UpdateLastKnownStaleSequence :: "i32 \<Rightarrow> 'o repairing_handler \<Rightarrow> 'o repairing_handler go" where
  "UpdateLastKnownStaleSequence pt h = on_container pt (stale_loop []) h"

definition CheckOrRepairUUID :: "i32 \<Rightarrow> uuid \<Rightarrow> 'o repairing_handler \<Rightarrow> 'o repairing_handler go" where
  "CheckOrRepairUUID pt new h =
     (if uuid_Default new then Inr h else on_container pt (uuid_loop [] new) h)"

definition CheckOrRepairSequence :: "i32 \<Rightarrow> i64 \<Rightarrow> bool \<Rightarrow> 'o repairing_handler \<Rightarrow> 'o repairing_handler go" where
  "CheckOrRepairSequence pt nextSeq viaAntiEntropy h =
     (if sint nextSeq \<le> 0 then Inr h
      else on_container pt (sequence_loop [] nextSeq viaAntiEntropy) h)"

definition getPartitionIDOrDefault ::
  "'o ser_service \<Rightarrow> partition_service \<Rightarrow> data \<Rightarrow> 'o repairing_handler \<Rightarrow> (go_error + i32) go" where
  "getPartitionIDOrDefault ss ps key h =
     (case (if key = None then ss_ToData ss (Some (IObj (rh_name h))) else Inr key) of
        Inl e \<Rightarrow> Inr (Inl e)
      | Inr key \<Rightarrow> GetPartitionID key ps)"

definition toNearCacheKey :: "'o ser_service \<Rightarrow> 'o near_cache \<Rightarrow> data \<Rightarrow> go_error + 'o iface option" where
  "toNearCacheKey ss nc key =
     (if cfg_SerializeKeys (nc_cfg nc) then Inr (Some (IData key)) else ss_ToObject ss key)"

definition Handle ::
  "'o ser_service \<Rightarrow> partition_service \<Rightarrow> data \<Rightarrow> uuid \<Rightarrow> uuid \<Rightarrow> i64 \<Rightarrow> 'o repairing_handler \<times> 'o near_cache \<Rightarrow>
   (go_error option \<times> 'o repairing_handler \<times> 'o near_cache) go" where
  "Handle ss ps key source pt seq = (\<lambda>(h, nc).
     bind_go (if rh_localUUID h \<noteq> source
              then if key = None then Inr (None, nc_Clear nc)
                   else case toNearCacheKey ss nc key of
                          Inl e \<Rightarrow> Inr (Some e, nc)
                        | Inr k \<Rightarrow> bind_go (nc_Invalidate k nc) (\<lambda>nc. Inr (None, nc))
              else Inr (None, nc)) (\<lambda>(err, nc).
       if err \<noteq> None then Inr (err, h, nc)
       else bind_go (getPartitionIDOrDefault ss ps key h) (\<lambda>res. case res of
              Inl e \<Rightarrow> Inr (Some e, h, nc)
            | Inr pid \<Rightarrow>
                bind_go (CheckOrRepairUUID pid pt h) (\<lambda>h.
                bind_go (CheckOrRepairSequence pid seq False h) (\<lambda>h. Inr (None, h, nc))))))"

fun handle_batch ::
  "'o ser_service \<Rightarrow> partition_service \<Rightarrow> data list \<Rightarrow> uuid list \<Rightarrow> uuid list \<Rightarrow> i64 list \<Rightarrow> nat \<Rightarrow> nat \<Rightarrow>
   'o repairing_handler \<times> 'o near_cache \<Rightarrow> (go_error option \<times> 'o repairing_handler \<times> 'o near_cache) go" where
  "handle_batch ss ps keys sources partitions seqs i 0 st = Inr (None, st)"
| "handle_batch ss ps keys sources partitions seqs i (Suc m) st =
     bind_go (go_index keys (int i)) (\<lambda>key.
     bind_go (go_index sources (int i)) (\<lambda>source.
     bind_go (go_index partitions (int i)) (\<lambda>pt.
     bind_go (go_index seqs (int i)) (\<lambda>seq.
     bind_go (Handle ss ps key source pt seq st) (\<lambda>(err, st).
       if err \<noteq> None then Inr (err, st)
       else handle_batch ss ps keys sources partitions seqs (Suc i) m st)))))"

definition HandleBatch ::
  "'o ser_service \<Rightarrow> partition_service \<Rightarrow> data list \<Rightarrow> uuid list \<Rightarrow> uuid list \<Rightarrow> i64 list \<Rightarrow>
   'o repairing_handler \<times> 'o near_cache \<Rightarrow> (go_error option \<times> 'o repairing_handler \<times> 'o near_cache) go" where
  "HandleBatch ss ps keys sources partitions seqs st =
     handle_batch ss ps keys sources partitions seqs 0 (length keys) st"

section \<open>The repairing task\<close>

record repairing_task =
  rt_reconciliationIntervalNanos :: i64
  rt_lastAntiEntropyRunNanos :: i64
  rt_maxToleratedMissCount :: i64
  rt_partitionCount :: i32

fun above_loop :: "repairing_task \<Rightarrow> 'o repairing_handler \<Rightarrow> i64 \<Rightarrow> nat \<Rightarrow> nat \<Rightarrow> bool go" where
  "above_loop rt h tot i 0 = Inr False"
| "above_loop rt h tot i (Suc m) =
     bind_go (go_index (rh_metadataContainers h) (int i)) (\<lambda>md.
       let tot = tot + md_missedSeqs md
       in if sint (rt_maxToleratedMissCount rt) < sint tot then Inr True
          else above_loop rt h tot (Suc i) m)"

definition isAboveMaxToleratedMissCount :: "repairing_task \<Rightarrow> 'o repairing_handler \<Rightarrow> bool go" where
  "isAboveMaxToleratedMissCount rt h = above_loop rt h 0 0 (nat (sint (rt_partitionCount rt)))"

definition mark_stale :: "nat \<Rightarrow> 'o repairing_handler \<Rightarrow> 'o repairing_handler go" where
  "mark_stale i h =
     bind_go (go_index (rh_metadataContainers h) (int i)) (\<lambda>md.
       let mc = md_missedSeqs md
       in if mc \<noteq> 0
          then bind_go (go_update (rh_metadataContainers h) (int i)
                          (stale_loop [] (md\<lparr>md_missedSeqs := mc + (- mc)\<rparr>)))
                 (\<lambda>mds. Inr (h\<lparr>rh_metadataContainers := mds\<rparr>))
          else Inr h)"

definition updateLastKnownStaleSequences :: "repairing_task \<Rightarrow> 'o repairing_handler \<Rightarrow> 'o repairing_handler go" where
  "updateLastKnownStaleSequences rt h = for_each mark_stale [0..<nat (sint (rt_partitionCount rt))] h"

definition fix_handler :: "repairing_task \<Rightarrow> 'o repairing_handler \<Rightarrow> 'o repairing_handler go" where
  "fix_handler rt h =
     bind_go (isAboveMaxToleratedMissCount rt h) (\<lambda>above.
       if above then updateLastKnownStaleSequences rt h else Inr h)"

definition fixSequenceGaps ::
  "repairing_task \<Rightarrow> ('n, 'o repairing_handler) gomap \<Rightarrow> ('n, 'o repairing_handler) gomap go" where
  "fixSequenceGaps rt hs = map_go (\<lambda>(n, h). bind_go (fix_handler rt h) (\<lambda>h. Inr (n, h))) hs"

definition isAntiEntropyNeeded :: "i64 \<Rightarrow> repairing_task \<Rightarrow> bool" where
  "isAntiEntropyNeeded now rt =
     (if rt_reconciliationIntervalNanos rt = 0 then False
      else sint (rt_reconciliationIntervalNanos rt) \<le> sint (now - rt_lastAntiEntropyRunNanos rt))"

text \<open>What a member answered: sequences per map and partition, and the UUIDs of the partitions.\<close>

definition repairUUIDs ::
  "(i32 \<times> uuid) list \<Rightarrow> ('n, 'o repairing_handler) gomap \<Rightarrow> ('n, 'o repairing_handler) gomap go" where
  "repairUUIDs psPairs hs =
     for_each (\<lambda>(k, v) hs. map_go (\<lambda>(n, h). bind_go (CheckOrRepairUUID k v h) (\<lambda>h. Inr (n, h))) hs) psPairs hs"

definition repairSequences ::
  "('n \<times> (i32 \<times> i64) list) list \<Rightarrow> ('n, 'o repairing_handler) gomap \<Rightarrow> ('n, 'o repairing_handler) gomap go" where
  "repairSequences npsPairs hs =
     for_each (\<lambda>(n, vvs) hs.
       for_each (\<lambda>(pt, nextSeq) hs. case map_of hs n of
           None \<Rightarrow> Inl NilDereference
         | Some h \<Rightarrow> bind_go (CheckOrRepairSequence pt nextSeq True h) (\<lambda>h. Inr (AList.update n h hs)))
         vvs hs) npsPairs hs"

section \<open>Retries of the initialisation\<close>

definition rescheduleFailedInitializationAfterMillis :: int where
  "rescheduleFailedInitializationAfterMillis = 500"

fun delay_loop :: "i32 \<Rightarrow> nat \<Rightarrow> i64 \<Rightarrow> i64" where
  "delay_loop num 0 delayMS = delayMS"
| "delay_loop num (Suc m) delayMS =
     delay_loop num m (delayMS + scast num * word_of_int rescheduleFailedInitializationAfterMillis)"

definition totalDelaySoFarNanos :: "i32 \<Rightarrow> i64" where
  "totalDelaySoFarNanos num = delay_loop num (nat (sint num - 1)) 0 * 1000000"

text \<open>
  The recursive retries, with fuel: \<open>init r\<close> is whether the \<open>r\<close>-th attempt to initialise succeeds. The
  result is the round after which nothing more is scheduled.
\<close>

fun initRepairingHandlerAsyncRun :: "nat \<Rightarrow> i64 \<Rightarrow> (i32 \<Rightarrow> bool) \<Rightarrow> i32 \<Rightarrow> i32 option" where
  "initRepairingHandlerAsyncRun 0 interval init roundNumber = None"
| "initRepairingHandlerAsyncRun (Suc fuel) interval init roundNumber =
     (if init roundNumber then Some roundNumber
      else if sint (totalDelaySoFarNanos roundNumber) < sint interval
      then initRepairingHandlerAsyncRun fuel interval init (roundNumber + 1)
      else Some roundNumber)"

section \<open>Data members\<close>

text \<open>
  \<^verbatim>\<open>filterDataMembers\<close> works on the slice it is given: it moves lite members to the end by swapping and
  returns the front. The inner loop stops at a data member, or at \<open>i\<close> when there is none (\<open>True\<close>).
\<close>

function find_data :: "member_info list \<Rightarrow> int \<Rightarrow> int \<Rightarrow> (bool \<times> int) go" where
  "find_data mems i di =
     bind_go (go_index mems di) (\<lambda>m.
       if mi_LiteMember m then if di \<le> i then Inr (True, di) else find_data mems i (di - 1)
       else Inr (False, di))"
  by pat_completeness auto
termination
  by (relation "measure (\<lambda>(mems, i, di). nat (di - i))") auto

declare find_data.simps [simp del]

lemma find_data_le: "find_data mems i di = Inr (none, dj) \<Longrightarrow> dj \<le> di"
proof (induction mems i di rule: find_data.induct)
  case (1 mems i di)
  then show ?case by (subst (asm) (2) find_data.simps) (auto elim!: bind_goE split: if_splits)
qed

function filter_loop :: "member_info list \<Rightarrow> int \<Rightarrow> int \<Rightarrow> (member_info list \<times> int) go" where
  "filter_loop mems i di =
     (if i < di
      then bind_go (go_index mems i) (\<lambda>m.
             if mi_LiteMember m
             then bind_go (find_data mems i (di - 1)) (\<lambda>(none, dj).
                    if none then Inr (mems, dj)
                    else bind_go (go_index mems dj) (\<lambda>d.
                         bind_go (go_update mems i d) (\<lambda>mems.
                         bind_go (go_update mems dj m) (\<lambda>mems. filter_loop mems (i + 1) dj))))
             else filter_loop mems (i + 1) di)
      else Inr (mems, di))"
  by pat_completeness auto
termination
  by (relation "measure (\<lambda>(mems, i, di). nat (di - i))") (auto dest!: find_data_le)

declare filter_loop.simps [simp del]

definition filterDataMembers :: "member_info list \<Rightarrow> (member_info list \<times> member_info list) go" where
  "filterDataMembers mems =
     bind_go (filter_loop mems 0 (int (length mems))) (\<lambda>(mems, di).
     bind_go (go_slice mems [] 0 di) (\<lambda>data. Inr (data, mems)))"

section \<open>Facts about containers\<close>

lemma note_missed_seq [simp]:
  "md_seq (note_missed a d md) = md_seq md" "md_staleSeq (note_missed a d md) = md_staleSeq md"
  "md_uuid (note_missed a d md) = md_uuid md"
  by (simp_all add: note_missed_def)

lemma sequence_loop_reaches:
  assumes "\<forall>f\<in>set fs. \<forall>md. sint (md_seq md) \<le> sint (md_seq (f md))"
  shows "sint nextSeq \<le> sint (md_seq (sequence_loop fs nextSeq a md))"
  using assms by (induction fs arbitrary: md) (auto simp: Let_def)

lemma sequence_loop_keeps:
  assumes "\<forall>f\<in>set fs. \<forall>md. sint (md_seq md) \<le> sint (md_seq (f md))"
  shows "sint (md_seq md) \<le> sint (md_seq (sequence_loop fs nextSeq a md))"
  using assms
proof (induction fs arbitrary: md)
  case (Cons f fs)
  from Cons.prems have "sint (md_seq md) \<le> sint (md_seq (f md))" by simp
  moreover have "sint (md_seq (f md)) \<le> sint (md_seq (sequence_loop fs nextSeq a (f md)))"
    using Cons.prems by (intro Cons.IH) simp
  ultimately have "sint (md_seq md) \<le> sint (md_seq (sequence_loop fs nextSeq a (f md)))" by linarith
  then show ?case by (auto simp: Let_def)
qed simp

text \<open>Events observed one after the other.\<close>

definition observe :: "i64 list \<Rightarrow> meta_data \<Rightarrow> meta_data" where
  "observe seqs md = fold (\<lambda>q. sequence_loop [] q False) seqs md"

lemma observe_increasing:
  assumes "sorted_wrt (<) (map sint (md_seq md # qs))" "0 \<le> sint (md_seq md)"
  shows "md_seq (observe qs md) = last (md_seq md # qs)
    \<and> md_missedSeqs (observe qs md) =
        md_missedSeqs md + word_of_int (sint (last (md_seq md # qs)) - sint (md_seq md) - int (length qs))"
  using assms
proof (induction qs arbitrary: md)
  case (Cons q qs)
  let ?md = "sequence_loop [] q False md"
  have lt: "sint (md_seq md) < sint q" using Cons.prems(1) by simp
  have seq: "md_seq ?md = q" using lt by simp
  have d: "sint (q - md_seq md) = sint q - sint (md_seq md)"
    using lt Cons.prems(2) sint64_bounds [of q] by (intro sint64_diff) simp_all
  have m: "md_missedSeqs ?md = md_missedSeqs md + word_of_int (sint q - sint (md_seq md) - 1)"
  proof (cases "1 < sint (q - md_seq md)")
    case False
    with d lt have "sint q - sint (md_seq md) = 1" by linarith
    with lt False show ?thesis by (simp add: note_missed_def)
  qed (use lt in \<open>simp add: note_missed_def\<close>)
  have "md_seq (observe qs ?md) = last (md_seq ?md # qs) \<and> md_missedSeqs (observe qs ?md) =
      md_missedSeqs ?md + word_of_int (sint (last (md_seq ?md # qs)) - sint (md_seq ?md) - int (length qs))"
    using Cons.prems lt by (intro Cons.IH) (simp_all only: seq, simp_all)
  moreover have "word_of_int (sint q - sint (md_seq md) - 1) + word_of_int (l - sint q - int (length qs)) =
      (word_of_int (l - sint (md_seq md) - int (length (q # qs))) :: i64)" for l
    by (simp only: of_int_add [symmetric]) simp
  moreover have "observe (q # qs) md = observe qs ?md" by (simp only: observe_def fold_Cons comp_apply)
  ultimately show ?case by (simp only: seq m add.assoc last_ConsR list.simps simp_thms)
qed (simp add: observe_def)

lemma increasing_gaps:
  assumes "sorted_wrt (<) (a # qs)"
  shows "int (card ({a + 1..last (a # qs)} - set qs)) = last (a # qs) - a - int (length qs)"
proof -
  have "last (a # qs) \<in> set (a # qs)" by (rule last_in_set) simp
  then have le: "a \<le> last (a # qs)" using assms by auto
  have sub: "set qs \<subseteq> {a + 1..last (a # qs)}"
  proof
    fix q assume q: "q \<in> set qs"
    then have "a < q" using assms by simp
    moreover have "q \<le> last qs"
      using assms q by (induction qs) (auto split: if_splits intro: less_imp_le)
    ultimately show "q \<in> {a + 1..last (a # qs)}" using q by (cases qs) auto
  qed
  have "distinct qs" using assms by (simp add: strict_sorted_iff)
  then have "card (set qs) = length qs" by (rule distinct_card)
  moreover have "card (set qs) \<le> card {a + 1..last (a # qs)}" by (rule card_mono [OF _ sub]) simp
  ultimately show ?thesis using le sub by (simp add: card_Diff_subset of_nat_diff)
qed

section \<open>Facts about handlers\<close>

lemma on_container_ok:
  assumes "0 \<le> sint pt" "sint pt < int (length (rh_metadataContainers h))"
  shows "on_container pt f h = Inr (h\<lparr>rh_metadataContainers :=
    (rh_metadataContainers h)[nat (sint pt) := f (rh_metadataContainers h ! nat (sint pt))]\<rparr>)"
  using assms by (simp add: on_container_def go_index_def go_update_def)

text \<open>Marking partitions as stale, one after the other.\<close>

definition staled :: "meta_data \<Rightarrow> meta_data" where
  "staled md = (if md_missedSeqs md \<noteq> 0 then stale_loop [] (md\<lparr>md_missedSeqs := 0\<rparr>) else md)"

lemma mark_stale_ok:
  "i < length (rh_metadataContainers h) \<Longrightarrow>
   mark_stale i h = Inr (h\<lparr>rh_metadataContainers :=
     (rh_metadataContainers h)[i := staled (rh_metadataContainers h ! i)]\<rparr>)"
  by (simp add: mark_stale_def go_index_def go_update_def staled_def Let_def del: stale_loop.simps)

lemma mark_stale_run:
  assumes "distinct is" "\<forall>i\<in>set is. i < length (rh_metadataContainers h)"
  shows "\<exists>h'. for_each mark_stale is h = Inr h' \<and> length (rh_metadataContainers h') = length (rh_metadataContainers h)
    \<and> (\<forall>j < length (rh_metadataContainers h). rh_metadataContainers h' ! j =
        (if j \<in> set is then staled (rh_metadataContainers h ! j) else rh_metadataContainers h ! j))"
  using assms
proof (induction "is" arbitrary: h)
  case (Cons i js)
  let ?h = "h\<lparr>rh_metadataContainers := (rh_metadataContainers h)[i := staled (rh_metadataContainers h ! i)]\<rparr>"
  have "\<exists>h'. for_each mark_stale js ?h = Inr h' \<and> length (rh_metadataContainers h') = length (rh_metadataContainers ?h)
    \<and> (\<forall>j < length (rh_metadataContainers ?h). rh_metadataContainers h' ! j =
        (if j \<in> set js then staled (rh_metadataContainers ?h ! j) else rh_metadataContainers ?h ! j))"
    using Cons.prems by (intro Cons.IH) auto
  then obtain h' where h': "for_each mark_stale js ?h = Inr h'"
    "length (rh_metadataContainers h') = length (rh_metadataContainers h)"
    "\<And>j. j < length (rh_metadataContainers h) \<Longrightarrow> rh_metadataContainers h' ! j =
        (if j \<in> set js then staled (rh_metadataContainers ?h ! j) else rh_metadataContainers ?h ! j)"
    by auto
  have "rh_metadataContainers h' ! j =
      (if j \<in> set (i # js) then staled (rh_metadataContainers h ! j) else rh_metadataContainers h ! j)"
    if "j < length (rh_metadataContainers h)" for j
    using h'(3) [OF that] Cons.prems that by (cases "j = i") auto
  with h'(1,2) Cons.prems show ?case by (simp add: mark_stale_ok)
qed simp

section \<open>Facts about the filter\<close>

lemma go_index_nat [simp]: "i < length xs \<Longrightarrow> go_index xs (int i) = Inr (xs ! i)"
  by (simp add: go_index_def)

lemma go_update_nat [simp]: "i < length xs \<Longrightarrow> go_update xs (int i) x = Inr (xs[i := x])"
  by (simp add: go_update_def)

lemma find_data_spec:
  assumes "a \<le> b" "b < length mems" "mi_LiteMember (mems ! a)"
  shows "\<exists>none c. find_data mems (int a) (int b) = Inr (none, int c) \<and> a \<le> c \<and> c \<le> b
    \<and> (\<forall>k. c < k \<and> k \<le> b \<longrightarrow> mi_LiteMember (mems ! k))
    \<and> (if none then c = a else \<not> mi_LiteMember (mems ! c))"
  using assms
proof (induction b)
  case 0
  then have "find_data mems (int a) (int 0) = Inr (True, int 0)"
    by (subst find_data.simps) (simp add: go_index_def)
  with 0 show ?case by (intro exI [of _ True] exI [of _ 0]) simp
next
  case (Suc b)
  have i: "go_index mems (int (Suc b)) = Inr (mems ! Suc b)" "int (Suc b) - 1 = int b"
    using go_index_nat [OF Suc.prems(2)] by simp_all
  have step: "find_data mems (int a) (int (Suc b)) = (if mi_LiteMember (mems ! Suc b)
      then if Suc b \<le> a then Inr (True, int (Suc b)) else find_data mems (int a) (int b)
      else Inr (False, int (Suc b)))"
    by (subst find_data.simps) (simp only: i bind_go_simps of_nat_le_iff)
  show ?case
  proof (cases "mi_LiteMember (mems ! Suc b) \<and> a \<le> b")
    case True
    then obtain none c where c: "find_data mems (int a) (int b) = Inr (none, int c)" "a \<le> c" "c \<le> b"
      "\<forall>k. c < k \<and> k \<le> b \<longrightarrow> mi_LiteMember (mems ! k)" "if none then c = a else \<not> mi_LiteMember (mems ! c)"
      using Suc.IH [OF _ _ Suc.prems(3)] Suc.prems(2) by force
    from True have "find_data mems (int a) (int (Suc b)) = Inr (none, int c)" using step c(1) by simp
    moreover have "\<forall>k. c < k \<and> k \<le> Suc b \<longrightarrow> mi_LiteMember (mems ! k)"
      using c(4) True le_Suc_eq by metis
    ultimately show ?thesis using c(2,3,5) by (intro exI [of _ none] exI [of _ c]) simp
  next
    case False
    with Suc.prems(1) step have "find_data mems (int a) (int (Suc b)) = Inr (mi_LiteMember (mems ! Suc b), int (Suc b))"
      "mi_LiteMember (mems ! Suc b) \<Longrightarrow> a = Suc b" by auto
    with Suc.prems(1) show ?thesis
      by (intro exI [of _ "mi_LiteMember (mems ! Suc b)"] exI [of _ "Suc b"]) auto
  qed
qed

text \<open>The front of a slice holds data members only, its rest lite members only.\<close>

definition split_at :: "member_info list \<Rightarrow> nat \<Rightarrow> nat \<Rightarrow> bool" where
  "split_at mems a b \<longleftrightarrow> a \<le> b \<and> b \<le> length mems
     \<and> (\<forall>k < a. \<not> mi_LiteMember (mems ! k)) \<and> (\<forall>k. b \<le> k \<and> k < length mems \<longrightarrow> mi_LiteMember (mems ! k))"

lemma split_at_filter:
  assumes "split_at mems d d"
  shows "filter (\<lambda>m. \<not> mi_LiteMember m) mems = take d mems"
proof -
  have "filter (\<lambda>m. \<not> mi_LiteMember m) (take d mems) = take d mems"
    using assms by (auto simp: filter_id_conv split_at_def in_set_conv_nth)
  moreover have "filter (\<lambda>m. \<not> mi_LiteMember m) (drop d mems) = []"
    using assms by (auto simp: filter_empty_conv split_at_def in_set_conv_nth)
  ultimately show ?thesis by (metis append_Nil2 append_take_drop_id filter_append)
qed

lemma filter_loop_lite:
  assumes "split_at mems a b" "a < b" "mi_LiteMember (mems ! a)"
  shows "(\<exists>c. filter_loop mems (int a) (int b) = Inr (mems, int c) \<and> split_at mems c c)
    \<or> (\<exists>mems' c. filter_loop mems (int a) (int b) = filter_loop mems' (int (Suc a)) (int c)
          \<and> split_at mems' (Suc a) c \<and> mset mems' = mset mems \<and> c < b)"
proof -
  have b: "int b - 1 = int (b - 1)" and a: "a < length mems" "a \<le> b - 1" "b - 1 < length mems"
    using assms by (auto simp: split_at_def)
  obtain none c where c: "find_data mems (int a) (int (b - 1)) = Inr (none, int c)" "a \<le> c" "c \<le> b - 1"
    "\<forall>k. c < k \<and> k \<le> b - 1 \<longrightarrow> mi_LiteMember (mems ! k)" "if none then c = a else \<not> mi_LiteMember (mems ! c)"
    using find_data_spec [OF a(2,3) assms(3)] by blast
  have c1: "find_data mems (int a) (int b - 1) = Inr (none, int c)" using c(1) by (simp only: b)
  have after: "mi_LiteMember (mems ! k)" if "c < k" "k < length mems" for k
    using that c(4) assms(1,2) by (cases "k < b") (auto simp: split_at_def)
  show ?thesis
  proof (cases none)
    case True
    have "filter_loop mems (int a) (int b) = Inr (mems, int c)"
      using assms a True by (subst filter_loop.simps) (simp add: c1)
    moreover have "mi_LiteMember (mems ! k)" if "c \<le> k" "k < length mems" for k
      using that assms(3) after [of k] c(5) True by (cases "k = c") simp_all
    then have "split_at mems c c"
      using assms(1) c(5) a(1) True by (simp add: split_at_def)
    ultimately show ?thesis by blast
  next
    case False
    let ?mems = "mems[a := mems ! c, c := mems ! a]"
    have ac: "a < c" "c < length mems" "c < b" using c False assms a by (auto simp: le_less)
    have "filter_loop mems (int a) (int b) = filter_loop ?mems (int (Suc a)) (int c)"
      using assms a False ac by (subst filter_loop.simps) (simp add: c1 add.commute)
    moreover have "\<not> mi_LiteMember (?mems ! k)" if "k < Suc a" for k
      using that assms(1) c(5) False ac by (cases "k = a") (simp_all add: split_at_def)
    moreover have "mi_LiteMember (?mems ! k)" if "c \<le> k" "k < length mems" for k
      using that assms(3) after [of k] ac by (cases "k = c") simp_all
    ultimately have "filter_loop mems (int a) (int b) = filter_loop ?mems (int (Suc a)) (int c)"
      "split_at ?mems (Suc a) c"
      using ac by (simp_all add: split_at_def)
    moreover have "mset ?mems = mset mems" using a ac by (simp add: mset_swap)
    ultimately show ?thesis using ac by blast
  qed
qed

lemma filter_loop_spec:
  assumes "split_at mems a b"
  shows "\<exists>mems' d. filter_loop mems (int a) (int b) = Inr (mems', int d)
    \<and> mset mems' = mset mems \<and> split_at mems' d d"
  using assms
proof (induction "b - a" arbitrary: mems a b rule: less_induct)
  case less
  consider "b \<le> a" | "a < b" "\<not> mi_LiteMember (mems ! a)" | "a < b" "mi_LiteMember (mems ! a)" by linarith
  then show ?case
  proof cases
    case 1
    with less.prems show ?thesis by (subst filter_loop.simps) (auto simp: split_at_def)
  next
    case 2
    then have "filter_loop mems (int a) (int b) = filter_loop mems (int (Suc a)) (int b)"
      using less.prems by (subst filter_loop.simps) (simp add: add.commute split_at_def)
    moreover have "split_at mems (Suc a) b" using less.prems 2 by (auto simp: split_at_def less_Suc_eq)
    ultimately show ?thesis using less.hyps [of b "Suc a" mems] 2(1) by auto
  next
    case 3
    from filter_loop_lite [OF less.prems 3] show ?thesis
    proof (elim disjE exE conjE)
      fix mems' c
      assume "filter_loop mems (int a) (int b) = filter_loop mems' (int (Suc a)) (int c)"
        "split_at mems' (Suc a) c" "mset mems' = mset mems" "c < b"
      with less.hyps [of c "Suc a" mems'] 3(1) show ?thesis by auto
    qed auto
  qed
qed

section \<open>Facts about the retries\<close>

lemma delay_loop_closed: "delay_loop num m d = d + word_of_nat m * (scast num * 500)"
  by (induction m arbitrary: d) (simp_all add: rescheduleFailedInitializationAfterMillis_def algebra_simps)

lemma sint_totalDelay:
  assumes "1 \<le> n" "n \<le> 100000"
  shows "sint (totalDelaySoFarNanos (word_of_nat n)) = int ((n - 1) * n) * 500000000"
proof -
  have n: "sint (word_of_nat n :: i32) = int n" using assms by (intro sint32_of_nat) simp
  have s: "scast (word_of_nat n :: i32) = (word_of_nat n :: i64)"
    by (metis n of_int_of_nat_eq scast_eq)
  have "totalDelaySoFarNanos (word_of_nat n) = word_of_int (int ((n - 1) * n) * 500000000)"
    using assms by (simp add: totalDelaySoFarNanos_def delay_loop_closed n s nat_diff_distrib' of_nat_diff algebra_simps)
  moreover have "(n - 1) * n \<le> 100000 * 100000" using assms by (intro mult_le_mono) simp_all
  then have "int ((n - 1) * n) * 500000000 \<le> int (100000 * 100000) * 500000000"
    by (intro mult_right_mono, subst of_nat_le_iff) simp_all
  then have "int ((n - 1) * n) * 500000000 < 2 ^ 63" by (rule order_le_less_trans) simp
  ultimately show ?thesis by (simp only: sint64_of_int)
qed

lemma async_run_ends:
  assumes "1 \<le> r" "r \<le> n" "n \<le> 100000" "sint interval \<le> int ((n - 1) * n) * 500000000"
  shows "\<exists>k. r \<le> k \<and> k \<le> n \<and>
    initRepairingHandlerAsyncRun (Suc (n - r)) interval init (word_of_nat r) = Some (word_of_nat k)"
  using assms
proof (induction "n - r" arbitrary: r)
  case 0
  then have "r = n" by simp
  with 0 show ?case by (auto simp: sint_totalDelay)
next
  case (Suc m)
  then have "r < n" by simp
  have "\<exists>k. Suc r \<le> k \<and> k \<le> n \<and>
    initRepairingHandlerAsyncRun (Suc (n - Suc r)) interval init (word_of_nat (Suc r)) = Some (word_of_nat k)"
    using Suc by (intro Suc.hyps(1)) simp_all
  moreover have "Suc (n - r) = Suc (Suc (n - Suc r))" using \<open>r < n\<close> by simp
  moreover have "word_of_nat (Suc r) = word_of_nat r + (1 :: i32)" by simp
  ultimately show ?case using \<open>r < n\<close> by (auto simp: add.commute intro: Suc_leD)
qed

section \<open>Properties\<close>



text \<open>
  When the events of a partition arrive in increasing order, the count of missed events grows by
  exactly the number of sequence numbers that were skipped.
\<close>

theorem missed_counts_gaps:
  assumes "sorted_wrt (<) (map sint (md_seq md # qs))" and "0 \<le> sint (md_seq md)"
  shows "md_missedSeqs (observe qs md) = md_missedSeqs md + word_of_nat (card
    ({sint (md_seq md) + 1..sint (last (md_seq md # qs))} - sint ` set qs))"
proof -
  have l: "last (map sint (md_seq md # qs)) = sint (last (md_seq md # qs))" by (rule last_map) simp
  have "int (card ({sint (md_seq md) + 1..sint (last (md_seq md # qs))} - sint ` set qs)) =
      sint (last (md_seq md # qs)) - sint (md_seq md) - int (length qs)"
    using increasing_gaps [of "sint (md_seq md)" "map sint qs"] assms(1) l by simp
  with observe_increasing [OF assms] show ?thesis by (metis of_int_of_nat_eq)
qed

theorem missed_counts_gaps_witness:
  "md_missedSeqs (observe [2, 5] NewMetaDataContainer) = md_missedSeqs NewMetaDataContainer +
     word_of_nat (card ({sint (md_seq NewMetaDataContainer) + 1..sint (last [md_seq NewMetaDataContainer, 2, 5])}
       - sint ` set [2, 5 :: i64]))"
  by (rule missed_counts_gaps) (simp_all add: NewMetaDataContainer_def)



text \<open>
  C12: an invalidation event for a key that did not come from this client removes the key's entry from
  the Near Cache, and an event that did come from this client leaves the cache as it is.
\<close>

theorem Handle_invalidates:
  assumes "Handle ss ps (Some bs) source pt seq (h, nc) = Inr (err, h', nc')"
  shows "if rh_localUUID h = source then nc' = nc
         else case toNearCacheKey ss nc (Some bs) of
                Inl e \<Rightarrow> err = Some e \<and> nc' = nc
              | Inr k \<Rightarrow> readable (nc_store nc') = (readable (nc_store nc))(makeMapKey k := None)"
proof (cases "rh_localUUID h = source")
  case True
  with assms show ?thesis
    by (auto simp: Handle_def elim!: bind_goE split: sum.splits)
next
  case False
  with assms show ?thesis
    by (auto simp: Handle_def nc_Invalidate_def readable_Invalidate elim!: bind_goE split: sum.splits if_splits)
qed

theorem Handle_invalidates_witness:
  "\<exists>err h' nc'. Handle byte_service (NewPartitionService\<lparr>ps_partitionCount := 1\<rparr>) (Some (replicate 9 0))
       (NewUUIDWith 1 1) (NewUUIDWith 2 2) 1
       (\<lparr>rh_name = 0, rh_metadataContainers = [NewMetaDataContainer], rh_localUUID = zero_uuid\<rparr>, NewNearCache byte_config)
     = Inr (err, h', nc')
     \<and> readable (nc_store nc') = (readable (nc_store (NewNearCache byte_config)))(Some (IObj 0) := None)"
proof -
  let ?ps = "NewPartitionService\<lparr>ps_partitionCount := 1\<rparr>" and ?nc = "NewNearCache byte_config"
  let ?h = "\<lparr>rh_name = (0 :: byte), rh_metadataContainers = [NewMetaDataContainer], rh_localUUID = zero_uuid\<rparr>"
  have nc: "nc_store ?nc = byte_store" "\<not> cfg_SerializeKeys (nc_cfg ?nc)"
    by (simp_all add: NewNearCache_def byte_store_def byte_config_def)
  have k: "toNearCacheKey byte_service ?nc (Some (replicate 9 0)) = Inr (Some (IObj 0))"
    using nc by (simp add: toNearCacheKey_def byte_service_def)
  obtain s where s: "store_Invalidate (Some (IObj 0)) byte_store = Inr s"
    using store_Invalidate_sound [OF byte_store_sound] by blast
  obtain i where i: "GetPartitionID (Some (replicate 9 0)) ?ps = Inr (Inr i)" "0 \<le> sint i" "sint i < 1"
    using GetPartitionID_bounds [of ?ps "replicate 9 0"] by auto
  have "\<exists>h'. Handle byte_service ?ps (Some (replicate 9 0)) (NewUUIDWith 1 1) (NewUUIDWith 2 2) 1 (?h, ?nc)
      = Inr (None, h', ?nc\<lparr>nc_store := s\<rparr>)"
    using i nc k s
    by (simp add: Handle_def nc_Invalidate_def checkKeyFormat_def is_Data_def getPartitionIDOrDefault_def
        CheckOrRepairUUID_def CheckOrRepairSequence_def on_container_ok NewUUIDWith_def)
  then obtain h' where h': "Handle byte_service ?ps (Some (replicate 9 0)) (NewUUIDWith 1 1) (NewUUIDWith 2 2) 1 (?h, ?nc)
      = Inr (None, h', ?nc\<lparr>nc_store := s\<rparr>)" by blast
  from Handle_invalidates [OF h'] k show ?thesis
    using h' by (auto simp: NewUUIDWith_def)
qed

text \<open>
  C32: retrying a failed initialisation ends: by the round whose total delay reaches the reconciliation
  interval at the latest, nothing more is scheduled.
\<close>

theorem retries_end:
  assumes "1 \<le> n" "n \<le> 100000" "sint interval \<le> int ((n - 1) * n) * 500000000"
  shows "\<exists>k. 1 \<le> k \<and> k \<le> n \<and> initRepairingHandlerAsyncRun n interval init 1 = Some (word_of_nat k)"
  using async_run_ends [of 1 n interval init] assms by simp

theorem retries_end_witness:
  "\<exists>k. 1 \<le> k \<and> k \<le> 12 \<and> initRepairingHandlerAsyncRun 12 60000000000 (\<lambda>_. False) 1 = Some (word_of_nat k)"
  using retries_end [of 12 60000000000 "\<lambda>_. False"] by simp

text \<open>
  Filtering the data members never panics and returns exactly the members that are not lite, each
  as often as it was there; the slice it was given is left as a permutation of itself.
\<close>

theorem filterDataMembers_exact:
  "\<exists>data mems'. filterDataMembers mems = Inr (data, mems')
     \<and> mset data = mset (filter (\<lambda>m. \<not> mi_LiteMember m) mems) \<and> mset mems' = mset mems"
proof -
  have "split_at mems 0 (length mems)" by (auto simp: split_at_def)
  then obtain mems' d where d: "filter_loop mems 0 (int (length mems)) = Inr (mems', int d)"
    "mset mems' = mset mems" "split_at mems' d d"
    using filter_loop_spec [of mems 0 "length mems"] by auto
  have "go_slice mems' [] 0 (int d) = Inr (take d mems')"
    using d(3) by (auto simp: go_slice_def split_at_def)
  moreover have "mset (take d mems') = mset (filter (\<lambda>m. \<not> mi_LiteMember m) mems)"
    using split_at_filter [OF d(3)] d(2) by (metis mset_filter)
  ultimately show ?thesis using d(1,2) by (simp add: filterDataMembers_def)
qed

end
