(* ===== verification/NearCacheMap.thy ===== *)
theory NearCacheMap
  imports Repairing
begin

text \<open>
  A map with a Near Cache: \<^verbatim>\<open>nearcache_map.go\<close>. Calls to the cluster are arguments: \<open>remote\<close> is the answer
  to a remote read, and \<open>during\<close> what other goroutines do to the Near Cache while the call is under
  way. All operations that change an entry have the same form, a remote call followed by an
  invalidation of the key, and are one definition.
\<close>

section \<open>Keys and cached values\<close>

definition ncm_toNearCacheKey :: "'o ser_service \<Rightarrow> 'o near_cache \<Rightarrow> 'o iface option \<Rightarrow> go_error + 'o iface option" where
  "ncm_toNearCacheKey ss nc key =
     (if cfg_SerializeKeys (nc_cfg nc) then bind_go (ss_ToData ss key) (\<lambda>d. Inr (Some (IData d))) else Inr key)"

definition validateAndSerialize :: "'o ser_service \<Rightarrow> 'o iface option \<Rightarrow> go_error + data" where
  "validateAndSerialize ss arg1 =
     (if arg1 = None
      then Inl (ClientError (gostr ''nil arg is not allowed'') None (Some (Sentinel ErrIllegalArgument)))
      else ss_ToData ss arg1)"

definition getCachedValue ::
  "'o ser_service \<Rightarrow> stale_read_detector option \<Rightarrow> i64 \<Rightarrow> 'o iface option \<Rightarrow> bool \<Rightarrow> 'o near_cache \<Rightarrow>
   ((go_error + ('o iface option \<times> bool)) \<times> 'o near_cache) go" where
  "getCachedValue ss sr now key deserialize nc =
     bind_go (nc_Get ss sr now key nc) (\<lambda>(res, nc).
       Inr (case res of
              Inl e \<Rightarrow> Inl e
            | Inr (v, found) \<Rightarrow>
                if \<not> found then Inr (None, False)
                else if v = None then Inr (None, True)
                else if deserialize
                then (case toValue ss v of Inl e \<Rightarrow> Inl e | Inr v \<Rightarrow> Inr (v, True))
                else Inr (v, True), nc))"

section \<open>Reading an entry\<close>

definition ncm_getFromRemote ::
  "'o ser_service \<Rightarrow> stale_read_detector option \<Rightarrow> i64 \<Rightarrow> 'o iface option list \<Rightarrow> i64 \<Rightarrow>
   (data \<Rightarrow> go_error + 'o iface option) \<Rightarrow> ('o near_cache \<Rightarrow> 'o near_cache go) \<Rightarrow> 'o iface option \<Rightarrow> 'o near_cache \<Rightarrow>
   ((go_error + 'o iface option) \<times> 'o near_cache) go" where
  "ncm_getFromRemote ss sr nowE order now remote during key nc =
     (case validateAndSerialize ss key of
        Inl e \<Rightarrow> Inr (Inl e, nc)
      | Inr keyData \<Rightarrow>
          bind_go (nc_TryReserveForUpdate ss sr nowE order now key keyData UpdateSemanticReadUpdate nc) (\<lambda>(res, nc).
            case res of
              Inl e \<Rightarrow> Inr (Inl e, nc)
            | Inr rid \<Rightarrow>
                bind_go (during nc) (\<lambda>nc. case remote keyData of
                  Inl e \<Rightarrow> Inr (Inl e, nc)
                | Inr v \<Rightarrow> if rid \<noteq> RecordNotReserved then nc_TryPublishReserved ss key v rid nc
                           else Inr (Inr v, nc))))"

definition ncm_Get ::
  "'o ser_service \<Rightarrow> stale_read_detector option \<Rightarrow> i64 \<Rightarrow> i64 \<Rightarrow> 'o iface option list \<Rightarrow> i64 \<Rightarrow>
   (data \<Rightarrow> go_error + 'o iface option) \<Rightarrow> ('o near_cache \<Rightarrow> 'o near_cache go) \<Rightarrow> 'o iface option \<Rightarrow> 'o near_cache \<Rightarrow>
   ((go_error + 'o iface option) \<times> 'o near_cache) go" where
  "ncm_Get ss sr nowR nowE order now remote during key nc =
     (case ncm_toNearCacheKey ss nc key of
        Inl e \<Rightarrow> Inr (Inl e, nc)
      | Inr key \<Rightarrow>
          bind_go (getCachedValue ss sr nowR key True nc) (\<lambda>(res, nc). case res of
            Inl e \<Rightarrow> Inr (Inl e, nc)
          | Inr (cached, found) \<Rightarrow>
              if found then Inr (Inr cached, nc)
              else bind_go (ncm_getFromRemote ss sr nowE order now remote during key nc) (\<lambda>(res, nc).
                     case res of
                       Inl e \<Rightarrow> bind_go (nc_Invalidate key nc) (\<lambda>nc. Inr (Inl e, nc))
                     | Inr v \<Rightarrow> Inr (Inr v, nc))))"

definition ncm_ContainsKey ::
  "'o ser_service \<Rightarrow> stale_read_detector option \<Rightarrow> i64 \<Rightarrow> ('o iface option \<Rightarrow> go_error + bool) \<Rightarrow> 'o iface option \<Rightarrow>
   'o near_cache \<Rightarrow> ((go_error + bool) \<times> 'o near_cache) go" where
  "ncm_ContainsKey ss sr now remote key nc =
     (case ncm_toNearCacheKey ss nc key of
        Inl e \<Rightarrow> Inr (Inl e, nc)
      | Inr key \<Rightarrow>
          bind_go (getCachedValue ss sr now key False nc) (\<lambda>(res, nc). Inr (case res of
            Inl e \<Rightarrow> Inl e
          | Inr (cached, found) \<Rightarrow> if found then Inr (cached \<noteq> None) else remote key, nc)))"

section \<open>Changing an entry\<close>

text \<open>
  \<^verbatim>\<open>Delete\<close>, \<^verbatim>\<open>Evict\<close>, \<^verbatim>\<open>ExecuteOnKey\<close>, \<^verbatim>\<open>Put\<close>, \<^verbatim>\<open>Set\<close>, \<^verbatim>\<open>Remove\<close>, \<^verbatim>\<open>Replace\<close> and their variants: the
  deferred invalidation runs after the remote call, also when that fails.
\<close>

definition ncm_update ::
  "'o ser_service \<Rightarrow> ('o iface option \<Rightarrow> go_error + 'r) \<Rightarrow> ('o near_cache \<Rightarrow> 'o near_cache go) \<Rightarrow> 'o iface option \<Rightarrow>
   'o near_cache \<Rightarrow> ((go_error + 'r) \<times> 'o near_cache) go" where
  "ncm_update ss remote during key nc =
     (case ncm_toNearCacheKey ss nc key of
        Inl e \<Rightarrow> Inr (Inl e, nc)
      | Inr key \<Rightarrow>
          bind_go (during nc) (\<lambda>nc.
          bind_go (nc_Invalidate key nc) (\<lambda>nc. Inr (remote key, nc))))"

text \<open>
  \<^verbatim>\<open>PutAll\<close>, \<^verbatim>\<open>LoadAll\<close> and \<^verbatim>\<open>ExecuteOnKeys\<close>: the keys are converted first and invalidated in the end.
  The remote call of the first two takes the keys as given, that of the last the converted ones.
\<close>

definition ncm_update_all ::
  "'o ser_service \<Rightarrow> ('o iface option list \<Rightarrow> 'o iface option list \<Rightarrow> go_error + 'r) \<Rightarrow> ('o near_cache \<Rightarrow> 'o near_cache go) \<Rightarrow>
   'o iface option list \<Rightarrow> 'o near_cache \<Rightarrow> ((go_error + 'r) \<times> 'o near_cache) go" where
  "ncm_update_all ss remote during keys nc =
     (case map_go (ncm_toNearCacheKey ss nc) keys of
        Inl e \<Rightarrow> Inr (Inl e, nc)
      | Inr ncKeys \<Rightarrow>
          bind_go (during nc) (\<lambda>nc.
          bind_go (for_each nc_Invalidate ncKeys nc) (\<lambda>nc. Inr (remote keys ncKeys, nc))))"

definition ncm_Clear :: "(go_error + 'r) \<Rightarrow> ('o near_cache \<Rightarrow> 'o near_cache go) \<Rightarrow> 'o near_cache \<Rightarrow> ((go_error + 'r) \<times> 'o near_cache) go" where
  "ncm_Clear remote during nc = bind_go (during (nc_Clear nc)) (\<lambda>nc. Inr (remote, nc))"

definition ncm_RemoveAll :: "(go_error + 'r) \<Rightarrow> ('o near_cache \<Rightarrow> 'o near_cache go) \<Rightarrow> 'o near_cache \<Rightarrow> ((go_error + 'r) \<times> 'o near_cache) go" where
  "ncm_RemoveAll remote during nc = bind_go (during nc) (\<lambda>nc. Inr (remote, nc_Clear nc))"

section \<open>Reading several entries\<close>

type_synonym 'o entry = "'o iface option \<times> 'o iface option"
type_synonym 'o reservations = "(byte list, 'o iface option \<times> i64) gomap"

text \<open>The result slice starts with zero entries; \<open>i\<close> counts those filled from the Near Cache.\<close>

fun populate_cached ::
  "'o ser_service \<Rightarrow> stale_read_detector option \<Rightarrow> i64 \<Rightarrow> 'o iface option list \<Rightarrow> nat \<Rightarrow> 'o entry list \<Rightarrow> 'o near_cache \<Rightarrow>
   ((go_error + 'o iface option list) \<times> 'o entry list \<times> 'o near_cache) go" where
  "populate_cached ss sr now [] i entries nc = Inr (Inr [], entries, nc)"
| "populate_cached ss sr now (k # ks) i entries nc =
     (case ncm_toNearCacheKey ss nc k of
        Inl e \<Rightarrow> Inr (Inl e, entries, nc)
      | Inr nk \<Rightarrow>
          bind_go (getCachedValue ss sr now nk True nc) (\<lambda>(res, nc). case res of
            Inl e \<Rightarrow> Inr (Inl e, entries, nc)
          | Inr (cached, ok) \<Rightarrow>
              if ok \<and> cached \<noteq> None
              then bind_go (go_update entries (int i) (k, cached)) (\<lambda>entries.
                     populate_cached ss sr now ks (Suc i) entries nc)
              else bind_go (populate_cached ss sr now ks i entries nc) (\<lambda>(res, entries, nc).
                     Inr (case res of Inl e \<Rightarrow> Inl e | Inr miss \<Rightarrow> Inr (k # miss), entries, nc))))"

fun reserve_all ::
  "'o ser_service \<Rightarrow> stale_read_detector option \<Rightarrow> i64 \<Rightarrow> 'o iface option list \<Rightarrow> i64 \<Rightarrow> 'o iface option list \<Rightarrow> data list \<Rightarrow>
   'o reservations \<Rightarrow> 'o near_cache \<Rightarrow> ((go_error + 'o reservations) \<times> 'o near_cache) go" where
  "reserve_all ss sr nowE order now [] kds res nc = Inr (Inr res, nc)"
| "reserve_all ss sr nowE order now (k # ks) [] res nc = Inl IndexOutOfRange"
| "reserve_all ss sr nowE order now (k # ks) (kd # kds) res nc =
     bind_go (nc_TryReserveForUpdate ss sr nowE order now k kd UpdateSemanticReadUpdate nc) (\<lambda>(r, nc). case r of
       Inl e \<Rightarrow> Inr (Inl e, nc)
     | Inr rid \<Rightarrow>
         reserve_all ss sr nowE order now ks kds
           (if rid \<noteq> RecordNotReserved then AList.update (data_bytes kd) (k, rid) res else res) nc)"

definition releaseRemainingReservedKeys :: "'o reservations \<Rightarrow> 'o near_cache \<Rightarrow> 'o near_cache go" where
  "releaseRemainingReservedKeys rks nc =
     for_each (\<lambda>(kds, (k, _)) nc.
       nc_Invalidate (if cfg_SerializeKeys (nc_cfg nc) then Some (IDataString kds) else k) nc) rks nc"

fun populate_remote ::
  "'o ser_service \<Rightarrow> (data \<times> data) list \<Rightarrow> int \<Rightarrow> 'o entry list \<Rightarrow> 'o reservations \<Rightarrow> 'o near_cache \<Rightarrow>
   ((go_error + int) \<times> 'o entry list \<times> 'o reservations \<times> 'o near_cache) go" where
  "populate_remote ss [] i entries rs nc = Inr (Inr i, entries, rs, nc)"
| "populate_remote ss ((kd, vd) # pairs) i entries rs nc =
     (case ss_ToObject ss kd of
        Inl e \<Rightarrow> Inr (Inl e, entries, rs, nc)
      | Inr k \<Rightarrow> (case map_of rs (data_bytes kd) of
            None \<Rightarrow> populate_remote ss pairs i entries rs nc
          | Some (_, rid) \<Rightarrow>
              bind_go (nc_TryPublishReserved ss (if cfg_SerializeKeys (nc_cfg nc) then Some (IData kd) else k)
                         (Some (IData vd)) rid nc) (\<lambda>(res, nc). case res of
                Inl e \<Rightarrow> Inr (Inl e, entries, rs, nc)
              | Inr v \<Rightarrow>
                  bind_go (go_update entries i (k, v)) (\<lambda>entries.
                    populate_remote ss pairs (i + 1) entries (AList.delete (data_bytes kd) rs) nc))))"

text \<open>The keys of a request, serialized and grouped by partition (\<^verbatim>\<open>proxy_map.go\<close>).\<close>

fun partitionToKeys ::
  "'o ser_service \<Rightarrow> partition_service \<Rightarrow> 'o iface option list \<Rightarrow> (i32, data list) gomap \<Rightarrow>
   (go_error + (i32, data list) gomap) go" where
  "partitionToKeys ss ps [] res = Inr (Inr res)"
| "partitionToKeys ss ps (key # keys) res =
     (case validateAndSerialize ss key of
        Inl e \<Rightarrow> Inr (Inl e)
      | Inr keyData \<Rightarrow>
          bind_go (GetPartitionID keyData ps) (\<lambda>pid. case pid of
            Inl e \<Rightarrow> Inr (Inl e)
          | Inr pk \<Rightarrow>
              (let arr = (case map_of res pk of None \<Rightarrow> [] | Some ks \<Rightarrow> ks)
               in partitionToKeys ss ps keys (AList.update pk (arr @ [keyData]) res))))"

text \<open>
  \<open>fetch\<close> is what the members answer for the grouped keys, all keys and not only the missing ones, as
  the code asks for them. The deferred release runs on every return that follows it.
\<close>

definition ncm_GetAll ::
  "'o ser_service \<Rightarrow> partition_service \<Rightarrow> stale_read_detector option \<Rightarrow> i64 \<Rightarrow> i64 \<Rightarrow> 'o iface option list \<Rightarrow> i64 \<Rightarrow>
   ((i32, data list) gomap \<Rightarrow> go_error + (data \<times> data) list) \<Rightarrow> 'o iface option list \<Rightarrow> 'o near_cache \<Rightarrow>
   ((go_error + 'o entry list) \<times> 'o near_cache) go" where
  "ncm_GetAll ss ps sr nowR nowE order now fetch keys nc =
     bind_go (populate_cached ss sr nowR keys 0 (replicate (length keys) (None, None)) nc) (\<lambda>(res, entries, nc).
       case res of
         Inl e \<Rightarrow> Inr (Inl (WrapError (gostr ''nearCacheMap.GetAll: populating result from near cache: '') e), nc)
       | Inr missKeys \<Rightarrow>
           if missKeys = [] then Inr (Inr entries, nc)
           else case map_go (ss_ToData ss) missKeys of
                  Inl e \<Rightarrow> Inr (Inl e, nc)
                | Inr kds \<Rightarrow>
                    (let keyDatas = kds @ replicate (length keys - length kds) None
                     in bind_go (reserve_all ss sr nowE order now keys keyDatas [] nc) (\<lambda>(res, nc). case res of
                          Inl e \<Rightarrow> Inr (Inl e, nc)
                        | Inr rs \<Rightarrow>
                            bind_go (partitionToKeys ss ps keys []) (\<lambda>groups. case groups of
                              Inl e \<Rightarrow> Inr (Inl e, nc)
                            | Inr groups \<Rightarrow>
                                (case fetch groups of
                                   Inl e \<Rightarrow> bind_go (releaseRemainingReservedKeys rs nc) (\<lambda>nc.
                                     Inr (Inl (WrapError (gostr ''nearCacheMap.GetAll: getting keys from remote: '') e), nc))
                                 | Inr pairs \<Rightarrow>
                                     bind_go (populate_remote ss pairs (int (length entries) - int (length pairs)) entries rs nc)
                                       (\<lambda>(res, entries, rs, nc).
                                       bind_go (releaseRemainingReservedKeys rs nc) (\<lambda>nc. case res of
                                         Inl e \<Rightarrow> Inr (Inl e, nc)
                                       | Inr keyCount \<Rightarrow>
                                           bind_go (go_slice entries [] 0 keyCount) (\<lambda>es. Inr (Inr es, nc)))))))))"

section \<open>Facts\<close>

lemma store_run_append: "store_run ss (ops @ ops') s = bind_go (store_run ss ops s) (store_run ss ops')"
  by (simp add: store_run_def for_each_append) (simp add: store_run_def [abs_def])

text \<open>What other goroutines do through the store, lifted to the Near Cache.\<close>

definition others :: "'o ser_service \<Rightarrow> 'o store_op list \<Rightarrow> 'o near_cache \<Rightarrow> 'o near_cache go" where
  "others ss ops nc = bind_go (store_run ss ops (nc_store nc)) (\<lambda>s. Inr (nc\<lparr>nc_store := s\<rparr>))"

lemma doEviction_id: "doEviction now order s = Inr (b, s') \<Longrightarrow> rs_reservationID s' = rs_reservationID s"
  using doEviction_ids [of now order s b s'] by (simp add: ids_kept_def)

lemma eviction_not_needed:
  "int (length (rs_records s)) < rs_maxSize s \<Longrightarrow> doEviction now order s = Inr (False, s)"
  by (simp add: doEviction_def evict_def)

lemma getFromRemote_steps:
  assumes "ncm_getFromRemote ss sr nowE order now remote (others ss ops) key nc = Inr (Inr v, nc')"
  shows "\<exists>keyData b s rid s1 s2 w. doEviction nowE order (nc_store nc) = Inr (b, s)
    \<and> store_TryReserveForUpdate ss sr now key keyData UpdateSemanticReadUpdate s = Inr (Inr rid, s1)
    \<and> store_run ss ops s1 = Inr s2
    \<and> (if rid = RecordNotReserved then nc_store nc' = s2
       else \<exists>res. store_TryPublishReserved ss key w rid True s2 = Inr (res, nc_store nc'))"
  using assms
  by (auto simp: ncm_getFromRemote_def nc_TryReserveForUpdate_def nc_TryPublishReserved_def others_def
      elim!: bind_goE split: sum.splits if_splits option.splits) (metis near_cache.simps)+

lemma invalidate_keys:
  assumes "for_each nc_Invalidate ks nc = Inr nc'"
  shows "readable (nc_store nc') j = (if j \<in> makeMapKey ` set ks then None else readable (nc_store nc) j)"
  using assms
proof (induction ks arbitrary: nc)
  case (Cons k ks)
  then obtain nc1 where nc1: "nc_Invalidate k nc = Inr nc1" "for_each nc_Invalidate ks nc1 = Inr nc'"
    by (auto elim: bind_goE)
  then have "readable (nc_store nc1) = (readable (nc_store nc))(makeMapKey k := None)"
    by (auto simp: nc_Invalidate_def readable_Invalidate elim!: bind_goE)
  with Cons.IH [OF nc1(2)] show ?case by auto
qed simp

text \<open>
  A read that misses returns the value of the cluster and leaves it readable in the Near Cache for
  the next reader, when nothing else happens to the key meanwhile.
\<close>

lemma get_miss:
  assumes "sound n (nc_store nc)" "detector_ok n sr" "fresh sr" "\<not> cfg_SerializeKeys (nc_cfg nc)"
    and "int (length (rs_records (nc_store nc))) < rs_maxSize (nc_store nc)" "\<not> rs_evictionDisabled (nc_store nc)"
    and "map_of (rs_records (nc_store nc)) (Some (IObj k)) = None"
    and "0 \<le> sint (rs_reservationID (nc_store nc))" "sint (rs_reservationID (nc_store nc)) < 2 ^ 63 - 1"
    and "ss_ToData ss (Some (IObj k)) = Inr (Some bs)" "8 \<le> length bs" "length bs < 2 ^ 31"
    and "remote (Some bs) = Inr (Some (IObj v))"
    and "ss_ToData ss (Some (IObj v)) = Inr d" "ss_ToObject ss d = Inr (Some (IObj v))"
  shows "\<exists>nc' w. ncm_Get ss sr nowR nowE order now remote Inr (Some (IObj k)) nc = Inr (Inr (Some (IObj v)), nc')
    \<and> readable (nc_store nc') (Some (IObj k)) = Some (Some w) \<and> toValue ss (Some w) = Inr (Some (IObj v))"
proof -
  let ?s = "incrementMisses (nc_store nc)" and ?rid = "rs_reservationID (nc_store nc) + 1"
  have s: "sound n ?s" using assms(1) by simp
  obtain r s1 where s1: "store_TryReserveForUpdate ss sr now (Some (IObj k)) (Some bs) UpdateSemanticReadUpdate ?s
      = Inr (Inr ?rid, s1)" "sound n s1" "map_of (rs_records s1) (Some (IObj k)) = Some r" "rec_reservationID r = ?rid"
    using reserve_new [OF s, of "Some (IObj k)" sr bs ss now] assms by (auto simp: counter_defs)
  have rid: "?rid \<noteq> RecordReadPermitted" "?rid \<noteq> RecordNotReserved"
    using assms(8,9) sint_next_id [of "rs_reservationID (nc_store nc)"] sint_ReadPermitted sint_NotReserved by force+
  obtain c where c: "ConvertValue (rs_adapter s1) ss (Some (IObj v)) = Inr (Some c)" "toValue ss (Some c) = Inr (Some (IObj v))"
    using assms(14,15) by (cases "rs_adapter s1") (auto simp: toValue_def)
  obtain s2 where s2: "store_TryPublishReserved ss (Some (IObj k)) (Some (IObj v)) ?rid True s1 = Inr (Inr (Some (IObj v)), s2)"
    "readable s2 (Some (IObj k)) = Some (Some c)"
    using publish_effect [OF s1(2), of "Some (IObj k)" r ?rid ss "Some (IObj v)" "Some c"] s1(3,4) rid(1) c
    by (auto simp: readable_def canUpdateStats_def)
  have e: "doEviction nowE order ?s = Inr (False, ?s)"
    using assms(5) by (intro eviction_not_needed) (simp add: counter_defs)
  have "ncm_Get ss sr nowR nowE order now remote Inr (Some (IObj k)) nc
      = Inr (Inr (Some (IObj v)), nc\<lparr>nc_store := s2\<rparr>)"
    using assms(4,7,10,13) e s1(1) s2(1) rid(2)
    by (simp add: ncm_Get_def ncm_toNearCacheKey_def getCachedValue_def nc_Get_def checkKeyFormat_def is_Data_def
        store_Get_def ncm_getFromRemote_def validateAndSerialize_def nc_TryReserveForUpdate_def nc_TryPublishReserved_def)
  with s2(2) c(2) show ?thesis by auto
qed

section \<open>A concrete map\<close>

text \<open>A Near Cache with room for ten entries, and a map that holds values for the keys 1 and 2.\<close>

definition warm_config :: "byte nc_config" where
  "warm_config = byte_config\<lparr>cfg_size := Some 10\<rparr>"

definition stored_pairs :: "(data \<times> data) list" where
  "stored_pairs = [(Some (replicate 8 0 @ [1]), Some (replicate 8 0 @ [11])), (Some (replicate 8 0 @ [2]), Some (replicate 8 0 @ [12]))]"

definition stored_value :: "data \<Rightarrow> go_error + byte iface option" where
  "stored_value kd = (case map_of stored_pairs kd of None \<Rightarrow> Inr None | Some v \<Rightarrow> ss_ToObject byte_service v)"

lemma warm_cache_sound [simp]: "sound n (nc_store (NewNearCache warm_config))"
  by (simp add: NewNearCache_def NewRecordStore_sound)

lemma warm_cache [simp]:
  "rs_records (nc_store (NewNearCache warm_config)) = []"
  "rs_maxSize (nc_store (NewNearCache warm_config)) = 10" "\<not> rs_evictionDisabled (nc_store (NewNearCache warm_config))"
  "rs_reservationID (nc_store (NewNearCache warm_config)) = 0" "nc_cfg (NewNearCache warm_config) = warm_config"
  "\<not> cfg_SerializeKeys warm_config"
  by (simp_all add: NewNearCache_def NewRecordStore_def warm_config_def byte_config_def
      eviction_Policy_def eviction_Size_def)

section \<open>Properties\<close>

text \<open>
  C5: a value read from the cluster is not cached when its key is invalidated while the read is under
  way: the Near Cache is left exactly as the other goroutines left it.
\<close>

theorem get_invalidated_not_cached:
  assumes "ncm_getFromRemote ss sr nowE order now remote (others ss (ops1 @ OpInvalidate key # ops2)) key nc
      = Inr (Inr v, nc')"
    and "0 \<le> sint (rs_reservationID (nc_store nc))"
    and "sint (rs_reservationID (nc_store nc)) + int (length ops1) + int (length ops2) + 1 < 2 ^ 63"
  shows "\<exists>keyData b s rid s1. doEviction nowE order (nc_store nc) = Inr (b, s)
    \<and> store_TryReserveForUpdate ss sr now key keyData UpdateSemanticReadUpdate s = Inr (Inr rid, s1)
    \<and> store_run ss (ops1 @ OpInvalidate key # ops2) s1 = Inr (nc_store nc')"
proof -
  obtain keyData b s rid s1 s2 w where
    e: "doEviction nowE order (nc_store nc) = Inr (b, s)"
    and r: "store_TryReserveForUpdate ss sr now key keyData UpdateSemanticReadUpdate s = Inr (Inr rid, s1)"
    and d: "store_run ss (ops1 @ OpInvalidate key # ops2) s1 = Inr s2"
    and p: "if rid = RecordNotReserved then nc_store nc' = s2
            else \<exists>res. store_TryPublishReserved ss key w rid True s2 = Inr (res, nc_store nc')"
    using getFromRemote_steps [OF assms(1)] by blast
  have "nc_store nc' = s2"
  proof (cases "rid = RecordNotReserved")
    case False
    with p obtain res where pub: "store_TryPublishReserved ss key w rid True s2 = Inr (res, nc_store nc')" by auto
    obtain t u where t: "store_run ss ops1 s1 = Inr t" "store_Invalidate key t = Inr u" "store_run ss ops2 u = Inr s2"
      using d unfolding store_run_append by (auto simp: store_run_def store_step_def elim!: bind_goE)
    show ?thesis
      by (rule invalidated_reservation [OF r False t _ _ pub]) (use assms(2,3) doEviction_id [OF e] in simp_all)
  qed (use p in simp)
  with e r d show ?thesis by blast
qed

theorem get_invalidated_not_cached_witness:
  "\<exists>v nc'. ncm_getFromRemote byte_service None 0 [] 1700000000000 stored_value
       (others byte_service ([] @ OpInvalidate (Some (IObj 1)) # [])) (Some (IObj 1)) (NewNearCache warm_config) = Inr (Inr v, nc')
     \<and> (\<exists>keyData b s rid s1. doEviction 0 [] (nc_store (NewNearCache warm_config)) = Inr (b, s)
       \<and> store_TryReserveForUpdate byte_service None 1700000000000 (Some (IObj 1)) keyData UpdateSemanticReadUpdate s
           = Inr (Inr rid, s1)
       \<and> store_run byte_service ([] @ OpInvalidate (Some (IObj 1)) # []) s1 = Inr (nc_store nc'))"
proof -
  have "case ncm_getFromRemote byte_service None 0 [] 1700000000000 stored_value
       (others byte_service ([] @ OpInvalidate (Some (IObj 1)) # [])) (Some (IObj 1)) (NewNearCache warm_config) of
     Inr (Inr v, nc') \<Rightarrow> True | _ \<Rightarrow> False"
    by code_simp
  then obtain v nc' where "ncm_getFromRemote byte_service None 0 [] 1700000000000 stored_value
       (others byte_service ([] @ OpInvalidate (Some (IObj 1)) # [])) (Some (IObj 1)) (NewNearCache warm_config) = Inr (Inr v, nc')"
    by (auto split: sum.splits prod.splits)
  from this get_invalidated_not_cached [OF this] show ?thesis by simp
qed

text \<open>
  C33: an operation on several keys leaves none of them readable in the Near Cache, also when the
  call to the cluster fails and whatever other goroutines do meanwhile.
\<close>

theorem update_all_invalidates:
  assumes "ncm_update_all ss remote during keys nc = Inr (res, nc')" "map_go (ncm_toNearCacheKey ss nc) keys = Inr ncKeys"
    and "k \<in> set ncKeys"
  shows "res = remote keys ncKeys \<and> readable (nc_store nc') (makeMapKey k) = None"
  using assms
  by (auto simp: ncm_update_all_def elim!: bind_goE dest: invalidate_keys [where j = "makeMapKey k"])

theorem update_all_invalidates_witness:
  "\<exists>nc'. ncm_update_all byte_service (\<lambda>_ _. Inl (Sentinel ErrIllegalArgument) :: go_error + bool) Inr [Some (IObj 1), Some (IObj 2)]
       (NewNearCache warm_config) = Inr (Inl (Sentinel ErrIllegalArgument), nc')
     \<and> readable (nc_store nc') (makeMapKey (Some (IObj 2))) = None"
proof -
  let ?r = "\<lambda>_ _. Inl (Sentinel ErrIllegalArgument) :: go_error + bool"
  have "case ncm_update_all byte_service ?r Inr [Some (IObj 1), Some (IObj 2)] (NewNearCache warm_config) of
      Inr _ \<Rightarrow> True | _ \<Rightarrow> False" by code_simp
  then obtain res nc' where nc': "ncm_update_all byte_service ?r Inr [Some (IObj 1), Some (IObj 2)] (NewNearCache warm_config)
      = Inr (res, nc')" by (auto split: sum.splits)
  from nc' update_all_invalidates [OF nc', of "[Some (IObj 1), Some (IObj 2)]" "Some (IObj 2)"] show ?thesis
    by (simp add: ncm_toNearCacheKey_def)
qed


end
