(* ===== verification/SerializationService.thy ===== *)
theory SerializationService
  imports Serialization NearCacheMap
begin

text \<open>
  The serialization service as a whole: what its data look like, that values come back from them, and
  a map with a Near Cache over this service.
\<close>

section \<open>Data\<close>

text \<open>The data of a value: a partition hash of zero, the type id, both big endian, and the encoded value.\<close>

definition data_order :: "bool \<Rightarrow> byte_order" where
  "data_order littleEndian = (if \<not> littleEndian then BigEndian else LittleEndian)"

definition data_of :: "bool \<Rightarrow> 'x goval option \<Rightarrow> byte list" where
  "data_of littleEndian v = bo_bytes BigEndian 4 (0 :: i32) @ bo_bytes BigEndian 4 (builtin_id v) @ enc_goval (data_order littleEndian) v"

lemma ToData_bytes:
  assumes "val_ok v" "v \<noteq> None" "length (data_of le v) < 2 ^ 31"
  shows "ToData le os v = Inr (Some (data_of le v))"
proof -
  let ?new = "NewObjectDataOutput 16 (\<not> le)"
  let ?w = "\<lambda>out. bind_go (WriteInt32BigEndian 0 out) (\<lambda>out. bind_go (WriteInt32BigEndian (FindSerializerFor os v) out) (serializer_Write os v))"
  have "appends ?w (\<lambda>bo. bo_bytes BigEndian 4 (0 :: i32) @ bo_bytes BigEndian 4 (FindSerializerFor os v) @ enc_goval bo v)"
    by (intro appends_bind WriteInt32BigEndian_appends Write_appends assms(1))
  then obtain out where out: "?w ?new = Inr out" "appended ?new (data_of le v) out"
    using assms(3) by (fastforce simp: appends_def data_of_def data_order_def FindSerializerFor_ok [OF assms(1)] dest: spec [of _ ?new])
  then have "out_wf out" "out_data out = data_of le v" by (simp_all add: appended_def)
  then have "go_slice (o_buffer out) [] 0 (sint (o_position out)) = Inr (data_of le v)"
    by (simp add: go_slice_def out_wf_def out_data_def)
  with out(1) assms(2) show ?thesis
    by (auto simp: ToData_def recovered_def elim!: bind_goE)
qed

lemma data_Type_of: "data_Type (Some (data_of le v)) = Inr (builtin_id v)"
  by (simp add: data_Type_def data_of_def typeOffset_def get_uint_def bo_word_bytes)

lemma enc_depth: "depth v \<le> length (enc_goval bo v) + 1"
proof (induction v rule: depth.induct)
  case (1 vs)
  then have "sum_list (map depth vs) \<le> length (concat (map (\<lambda>v. bo_bytes bo 4 (builtin_id v) @ enc_goval bo v) vs))"
  proof (induction vs)
    case (Cons v vs)
    then have "depth v \<le> length (enc_goval bo v) + 1"
      "sum_list (map depth vs) \<le> length (concat (map (\<lambda>v. bo_bytes bo 4 (builtin_id v) @ enc_goval bo v) vs))" by auto
    then show ?case by simp
  qed simp
  then show ?case by simp
qed simp_all

lemma ToObject_data:
  assumes "val_ok v" "v \<noteq> None" "length (data_of le v) < 2 ^ 31"
  shows "ToObject le os (Some (data_of le v)) = Inr (canon v)"
proof -
  let ?inp = "NewObjectDataInput (Some (data_of le v)) [] DataOffset (\<not> le)"
  obtain t where t: "lookupBuiltinSerializer v = Some t" using val_ok_lookup [OF assms(1)] by blast
  have "in_wf ?inp" "in_rest ?inp = enc_goval (i_bo ?inp) v @ []"
    using assms(3) by (simp_all add: NewObjectDataInput_def in_wf_def in_rest_def DataOffset_def data_of_def data_order_def)
  moreover have "depth v \<le> length (data_of le v)" using enc_depth [of v "data_order le"] by (simp add: data_of_def)
  ultimately have "\<exists>inp. read_typed os (length (data_of le v)) t ?inp = Inr (canon v, inp)"
    using read_typed_reads [OF assms(1) _ t, of "length (data_of le v)" os] by (auto simp: reads_def)
  with t builtin_lookup [OF t] data_Type_of [of le v] show ?thesis
    by (auto simp: ToObject_def recovered_def builtin_id_def Let_def)
qed

section \<open>The service of a Near Cache\<close>

text \<open>
  \<^verbatim>\<open>ToData\<close> returns data as they are. A \<^verbatim>\<open>DataString\<close> is no string for the type switch and goes to the
  serializers of the other types; \<open>ds\<close> is what they make of it.
\<close>

definition service_of ::
  "bool \<Rightarrow> 'x other_serializers \<Rightarrow> (byte list \<Rightarrow> go_error + data) \<Rightarrow> 'x goval ser_service" where
  "service_of littleEndian os ds = \<lparr>
     ss_ToData = (\<lambda>v. case v of
         None \<Rightarrow> Inr None
       | Some (IData d) \<Rightarrow> Inr d
       | Some (IDataString s) \<Rightarrow> ds s
       | Some (IObj g) \<Rightarrow> ToData littleEndian os (Some g)),
     ss_ToObject = (\<lambda>d. case ToObject littleEndian os d of
         Inl e \<Rightarrow> Inl e
       | Inr v \<Rightarrow> Inr (map_option IObj v))\<rparr>"

definition no_others :: "unit other_serializers" where
  "no_others = \<lparr>os_ID = (\<lambda>_. 0), os_Write = (\<lambda>_. Inr), os_Read = (\<lambda>_. None)\<rparr>"

definition go_config :: "unit goval nc_config" where
  "go_config = \<lparr>cfg_TimeToLiveSeconds = 60, cfg_MaxIdleSeconds = 2147483647, cfg_SerializeKeys = False,
     cfg_InMemoryFormat = InMemoryFormatBinary, cfg_policy = None, cfg_size = Some 10, cfg_comparator = None\<rparr>"

lemma go_cache [simp]:
  "sound n (nc_store (NewNearCache go_config))" "rs_records (nc_store (NewNearCache go_config)) = []"
  by (simp_all add: NewNearCache_def NewRecordStore_sound) (simp add: NewRecordStore_def)

section \<open>Properties\<close>







end
