(* ===== verification/CircuitBreaker.thy ===== *)
theory CircuitBreaker
  imports Hzerrors
begin

text \<open>
  The circuit breaker (\<^verbatim>\<open>internal/cb\<close>): the loop that retries a call, the count of failures and the
  opening and closing of the circuit. What a round of the loop sees, the state of the context, the
  clock and the outcome of the handler, is an argument. The fields are changed atomically by calls
  that run concurrently, so the circuit is also a step relation with one step per atomic access.
\<close>

section \<open>Options\<close>

record cb_options =
  opt_MaxRetries :: int
  opt_ResetTimeout :: i64
  opt_Timeout :: i64
  opt_MaxFailureCount :: i32

datatype cb_option = OptMaxRetries int | OptMaxFailureCount int | OptResetTimeout i64 | OptTimeout i64

definition DefaultCircuitBreakerOptions :: cb_options where
  "DefaultCircuitBreakerOptions =
     \<lparr>opt_MaxRetries = 0, opt_ResetTimeout = 0, opt_Timeout = 2 ^ 63 - 1, opt_MaxFailureCount = 0\<rparr>"

fun apply_option :: "cb_option \<Rightarrow> cb_options \<Rightarrow> go_error + cb_options" where
  "apply_option (OptMaxRetries retries) opts =
     (if retries < 0 then Inl (OtherError (gostr ''MaxRetries must be non-negative''))
      else Inr (opts\<lparr>opt_MaxRetries := retries\<rparr>))"
| "apply_option (OptMaxFailureCount failureCount) opts =
     (if failureCount < 0 then Inl (OtherError (gostr ''MaxFailureCount must be non-negative''))
      else if 2 ^ 31 - 1 < failureCount then Inl (OtherError (gostr ''MaxFailureCount must fit into int32''))
      else Inr (opts\<lparr>opt_MaxFailureCount := word_of_int failureCount\<rparr>))"
| "apply_option (OptResetTimeout timeout) opts = Inr (opts\<lparr>opt_ResetTimeout := timeout\<rparr>)"
| "apply_option (OptTimeout timeout) opts = Inr (opts\<lparr>opt_Timeout := timeout\<rparr>)"

definition NewCircuitBreakerOptions :: "cb_option list \<Rightarrow> go_error + cb_options" where
  "NewCircuitBreakerOptions fs = for_each apply_option fs DefaultCircuitBreakerOptions"

section \<open>The circuit breaker\<close>

datatype cb_state = StateOpen | StateClosed

record circuit_breaker =
  cb_MaxRetries :: int
  cb_ResetTimeout :: i64
  cb_MaxFailureCount :: i32
  cb_CurrentFailureCount :: i32
  cb_State :: cb_state

definition NewCircuitBreaker :: "cb_option list \<Rightarrow> circuit_breaker go" where
  "NewCircuitBreaker fs =
     (case NewCircuitBreakerOptions fs of
        Inl e \<Rightarrow> Inl (PanicError ''evaluating circuitbreaker options'')
      | Inr opts \<Rightarrow> Inr \<lparr>cb_MaxRetries = opt_MaxRetries opts, cb_ResetTimeout = opt_ResetTimeout opts,
          cb_MaxFailureCount = opt_MaxFailureCount opts, cb_CurrentFailureCount = 0, cb_State = StateClosed\<rparr>)"

text \<open>What the round of an attempt finds; a handler returns a result and an error, either may be nil.\<close>

type_synonym 'a returned = "'a option \<times> go_error option"

datatype 'a observation = CtxDone go_error | DeadlinePassed | HandlerReturns "'a returned"

primrec try_loop :: "nat \<Rightarrow> (nat \<Rightarrow> 'a observation) \<Rightarrow> nat \<Rightarrow> 'a returned \<Rightarrow> 'a returned" where
  "try_loop 0 world attempt ret = ret"
| "try_loop (Suc k) world attempt ret =
     (case world attempt of
        CtxDone e \<Rightarrow> (fst ret, Some e)
      | DeadlinePassed \<Rightarrow> (fst ret, Some CbErrDeadlineExceeded)
      | HandlerReturns (result, None) \<Rightarrow> (result, None)
      | HandlerReturns (result, Some err) \<Rightarrow>
          if contextErr err then (result, Some err)
          else (case errors_As_NonRetryable err of
                  Some (inner, persistent) \<Rightarrow> (result, Some (if persistent then err else inner))
                | None \<Rightarrow> try_loop k world (Suc attempt) (result, Some err)))"

definition openCircuit :: "circuit_breaker \<Rightarrow> circuit_breaker" where
  "openCircuit c = (if cb_State c = StateClosed then c\<lparr>cb_State := StateOpen\<rparr> else c)"

definition cb_reset :: "circuit_breaker \<Rightarrow> circuit_breaker" where
  "cb_reset c = c\<lparr>cb_CurrentFailureCount := 0\<rparr>"

definition closeCircuit :: "circuit_breaker \<Rightarrow> circuit_breaker" where
  "closeCircuit c = (if cb_State c = StateOpen then cb_reset (c\<lparr>cb_State := StateClosed\<rparr>) else c)"

definition notifyFailed :: "circuit_breaker \<Rightarrow> circuit_breaker" where
  "notifyFailed c =
     (let failureCount = cb_CurrentFailureCount c + 1; c = c\<lparr>cb_CurrentFailureCount := failureCount\<rparr>
      in if sint (cb_MaxFailureCount c) < sint failureCount
         then if 0 < sint (cb_ResetTimeout c) then openCircuit c else cb_reset c
         else c)"

definition cb_try :: "(nat \<Rightarrow> 'a observation) \<Rightarrow> circuit_breaker \<Rightarrow> 'a returned \<times> circuit_breaker" where
  "cb_try world c =
     (let ret = try_loop (nat (cb_MaxRetries c + 1)) world 0 (None, None)
      in (ret, case snd ret of Some err \<Rightarrow> if contextErr err then c else notifyFailed c | None \<Rightarrow> c))"

definition TryContext :: "(nat \<Rightarrow> 'a observation) \<Rightarrow> circuit_breaker \<Rightarrow> 'a returned \<times> circuit_breaker" where
  "TryContext world c = (if cb_State c = StateOpen then ((None, Some ErrCircuitOpen), c) else cb_try world c)"

section \<open>Concurrent calls\<close>

text \<open>
  Besides the fields: the calls that have counted a failure beyond the limit and are about to open
  the circuit or to reset the count, the timers that will close the circuit, and the timers that have
  closed it and are about to reset the count.
\<close>

record breaker_conf =
  bc_cb :: circuit_breaker
  bc_opening :: nat
  bc_resetting :: nat
  bc_timers :: nat
  bc_closing :: nat

inductive breaker_step :: "breaker_conf \<Rightarrow> breaker_conf \<Rightarrow> bool" where
  count_ok: "c = (bc_cb b)\<lparr>cb_CurrentFailureCount := cb_CurrentFailureCount (bc_cb b) + 1\<rparr> \<Longrightarrow>
    \<not> sint (cb_MaxFailureCount c) < sint (cb_CurrentFailureCount c) \<Longrightarrow> breaker_step b (b\<lparr>bc_cb := c\<rparr>)"
| count_open: "c = (bc_cb b)\<lparr>cb_CurrentFailureCount := cb_CurrentFailureCount (bc_cb b) + 1\<rparr> \<Longrightarrow>
    sint (cb_MaxFailureCount c) < sint (cb_CurrentFailureCount c) \<Longrightarrow> 0 < sint (cb_ResetTimeout c) \<Longrightarrow>
    breaker_step b (b\<lparr>bc_cb := c, bc_opening := Suc (bc_opening b)\<rparr>)"
| count_reset: "c = (bc_cb b)\<lparr>cb_CurrentFailureCount := cb_CurrentFailureCount (bc_cb b) + 1\<rparr> \<Longrightarrow>
    sint (cb_MaxFailureCount c) < sint (cb_CurrentFailureCount c) \<Longrightarrow> \<not> 0 < sint (cb_ResetTimeout c) \<Longrightarrow>
    breaker_step b (b\<lparr>bc_cb := c, bc_resetting := Suc (bc_resetting b)\<rparr>)"
| reset_count: "bc_resetting b = Suc n \<Longrightarrow> breaker_step b (b\<lparr>bc_cb := cb_reset (bc_cb b), bc_resetting := n\<rparr>)"
| open_cas: "bc_opening b = Suc n \<Longrightarrow>
    breaker_step b (b\<lparr>bc_cb := openCircuit (bc_cb b), bc_opening := n,
      bc_timers := (if cb_State (bc_cb b) = StateClosed then Suc (bc_timers b) else bc_timers b)\<rparr>)"
| close_cas: "bc_timers b = Suc n \<Longrightarrow> cb_State (bc_cb b) = StateOpen \<Longrightarrow>
    breaker_step b (b\<lparr>bc_cb := (bc_cb b)\<lparr>cb_State := StateClosed\<rparr>, bc_timers := n, bc_closing := Suc (bc_closing b)\<rparr>)"
| close_late: "bc_timers b = Suc n \<Longrightarrow> cb_State (bc_cb b) = StateClosed \<Longrightarrow> breaker_step b (b\<lparr>bc_timers := n\<rparr>)"
| close_reset: "bc_closing b = Suc n \<Longrightarrow> breaker_step b (b\<lparr>bc_cb := cb_reset (bc_cb b), bc_closing := n\<rparr>)"

definition new_conf :: "circuit_breaker \<Rightarrow> breaker_conf" where
  "new_conf c = \<lparr>bc_cb = c, bc_opening = 0, bc_resetting = 0, bc_timers = 0, bc_closing = 0\<rparr>"

inductive breaker_reachable :: "circuit_breaker \<Rightarrow> breaker_conf \<Rightarrow> bool" for c where
  start: "breaker_reachable c (new_conf c)"
| step: "breaker_reachable c b \<Longrightarrow> breaker_step b b' \<Longrightarrow> breaker_reachable c b'"

section \<open>Facts\<close>

definition retried :: "'a observation \<Rightarrow> bool" where
  "retried obs = (case obs of
     HandlerReturns (_, Some err) \<Rightarrow> \<not> contextErr err \<and> errors_As_NonRetryable err = None
   | _ \<Rightarrow> False)"

text \<open>What a round makes of what it finds, with the result of the round before.\<close>

definition outcome :: "'a option \<Rightarrow> 'a observation \<Rightarrow> 'a returned" where
  "outcome before obs = (case obs of
     CtxDone e \<Rightarrow> (before, Some e)
   | DeadlinePassed \<Rightarrow> (before, Some CbErrDeadlineExceeded)
   | HandlerReturns (result, None) \<Rightarrow> (result, None)
   | HandlerReturns (result, Some err) \<Rightarrow>
       if contextErr err then (result, Some err)
       else (case errors_As_NonRetryable err of
               Some (inner, persistent) \<Rightarrow> (result, Some (if persistent then err else inner))
             | None \<Rightarrow> (result, Some err)))"

definition result_before :: "(nat \<Rightarrow> 'a observation) \<Rightarrow> nat \<Rightarrow> 'a option" where
  "result_before world i =
     (case i of 0 \<Rightarrow> None | Suc j \<Rightarrow> (case world j of HandlerReturns (r, _) \<Rightarrow> r | _ \<Rightarrow> None))"

lemma try_loop_step:
  "try_loop (Suc k) world attempt ret =
   (if retried (world attempt) then try_loop k world (Suc attempt) (outcome (fst ret) (world attempt))
    else outcome (fst ret) (world attempt))"
  by (auto simp: retried_def outcome_def split: observation.splits option.splits prod.splits)

lemma retried_outcome: "retried (world j) \<Longrightarrow> fst (outcome r (world j)) = result_before world (Suc j)"
  by (auto simp: retried_def outcome_def result_before_def split: observation.splits option.splits prod.splits)

lemma try_loop_outcome:
  assumes "fst ret = result_before world a"
  shows "\<exists>i \<le> k. (\<forall>j. a \<le> j \<and> j < a + i \<longrightarrow> retried (world j)) \<and> (i = k \<or> \<not> retried (world (a + i)))
    \<and> try_loop (Suc k) world a ret = outcome (result_before world (a + i)) (world (a + i))"
  using assms
proof (induction k arbitrary: a ret)
  case 0
  then show ?case by (auto simp: try_loop_step simp del: try_loop.simps(2))
next
  case (Suc k)
  show ?case
  proof (cases "retried (world a)")
    case True
    obtain i where i: "i \<le> k" "\<forall>j. Suc a \<le> j \<and> j < Suc a + i \<longrightarrow> retried (world j)" "i = k \<or> \<not> retried (world (Suc a + i))"
      "try_loop (Suc k) world (Suc a) (outcome (fst ret) (world a)) = outcome (result_before world (Suc a + i)) (world (Suc a + i))"
      using Suc.IH [of "outcome (fst ret) (world a)" "Suc a"] retried_outcome [of world a] True by blast
    have "retried (world j)" if "a \<le> j" "j < a + Suc i" for j
      using that i(2) True by (cases "j = a") auto
    with i True show ?thesis
      by (intro exI [of _ "Suc i"]) (auto simp: try_loop_step [of "Suc k"] simp del: try_loop.simps(2))
  next
    case False
    then show ?thesis
      using Suc.prems by (intro exI [of _ 0]) (auto simp: try_loop_step simp del: try_loop.simps(2))
  qed
qed

lemma notifyFailed_State: "notifyFailed c = d \<Longrightarrow> cb_State c = StateOpen \<Longrightarrow> cb_State d = StateOpen"
  by (auto simp: notifyFailed_def openCircuit_def cb_reset_def Let_def)

text \<open>A breaker that retries twice and opens on the first failure.\<close>

definition strict_breaker :: circuit_breaker where
  "strict_breaker = \<lparr>cb_MaxRetries = 2, cb_ResetTimeout = 1000, cb_MaxFailureCount = 0, cb_CurrentFailureCount = 0,
     cb_State = StateClosed\<rparr>"

section \<open>Properties\<close>

text \<open>
  C35: a call is tried again exactly as long as its error is neither one of the context nor marked as
  not retryable, at most \<^verbatim>\<open>MaxRetries\<close> times, and what the caller gets is the outcome of the last attempt.
\<close>

theorem try_outcome:
  assumes "0 \<le> cb_MaxRetries c" "cb_State c = StateClosed"
  shows "\<exists>i \<le> nat (cb_MaxRetries c). (\<forall>j < i. retried (world j)) \<and> (i = nat (cb_MaxRetries c) \<or> \<not> retried (world i))
    \<and> fst (TryContext world c) = outcome (result_before world i) (world i)"
proof -
  have "nat (cb_MaxRetries c + 1) = Suc (nat (cb_MaxRetries c))" using assms(1) by simp
  with try_loop_outcome [of "(None, None)" world 0 "nat (cb_MaxRetries c)"] assms(2) show ?thesis
    by (auto simp: TryContext_def cb_try_def result_before_def Let_def)
qed

theorem try_outcome_witness:
  "\<exists>i \<le> nat (cb_MaxRetries strict_breaker). (\<forall>j < i. retried (if j = 0 then HandlerReturns (None, Some (Sentinel ErrIO)) else HandlerReturns (Some True, None)))
     \<and> (i = nat (cb_MaxRetries strict_breaker) \<or> \<not> retried (if i = 0 then HandlerReturns (None, Some (Sentinel ErrIO)) else HandlerReturns (Some True, None)))
     \<and> fst (TryContext (\<lambda>i. if i = 0 then HandlerReturns (None, Some (Sentinel ErrIO)) else HandlerReturns (Some True, None)) strict_breaker)
       = outcome (result_before (\<lambda>i. if i = 0 then HandlerReturns (None, Some (Sentinel ErrIO)) else HandlerReturns (Some True, None)) i)
           (if i = 0 then HandlerReturns (None, Some (Sentinel ErrIO)) else HandlerReturns (Some True, None))"
  by (rule try_outcome) (simp_all add: strict_breaker_def)

text \<open>
  C36: an open circuit does not stay open: in every state that concurrent calls can reach, the circuit
  is open exactly when one timer is pending, and the step of that timer closes it.
\<close>

theorem open_circuit_closes:
  assumes "breaker_reachable c b" "cb_State c = StateClosed"
  shows "bc_timers b = (if cb_State (bc_cb b) = StateOpen then 1 else 0)
    \<and> (cb_State (bc_cb b) = StateOpen \<longrightarrow> (\<exists>b'. breaker_step b b' \<and> cb_State (bc_cb b') = StateClosed))"
proof -
  have "bc_timers b = (if cb_State (bc_cb b) = StateOpen then 1 else 0)"
    using assms
  proof (induction rule: breaker_reachable.induct)
    case (step b b')
    from step.hyps(2) step.IH [OF step.prems] show ?case
      by cases (auto simp: openCircuit_def cb_reset_def split: if_splits)
  qed (simp add: new_conf_def)
  moreover from this have "\<exists>b'. breaker_step b b' \<and> cb_State (bc_cb b') = StateClosed" if "cb_State (bc_cb b) = StateOpen"
    using close_cas [of b 0] that by (intro exI [of _ "b\<lparr>bc_cb := (bc_cb b)\<lparr>cb_State := StateClosed\<rparr>, bc_timers := 0,
      bc_closing := Suc (bc_closing b)\<rparr>"]) simp
  ultimately show ?thesis by blast
qed

theorem open_circuit_closes_witness:
  "\<exists>b. breaker_reachable strict_breaker b \<and> cb_State (bc_cb b) = StateOpen \<and> bc_timers b = 1
     \<and> (\<exists>b'. breaker_step b b' \<and> cb_State (bc_cb b') = StateClosed)"
proof -
  let ?b0 = "new_conf strict_breaker"
  let ?c = "strict_breaker\<lparr>cb_CurrentFailureCount := 1\<rparr>"
  let ?b1 = "?b0\<lparr>bc_cb := ?c, bc_opening := 1\<rparr>"
  have "breaker_step ?b0 ?b1"
    using count_open [of ?c ?b0] by (simp add: new_conf_def strict_breaker_def)
  then have "breaker_reachable strict_breaker ?b1" by (rule step [OF start])
  moreover have "breaker_step ?b1 (?b1\<lparr>bc_cb := openCircuit ?c, bc_opening := 0, bc_timers := 1\<rparr>)"
    using open_cas [of ?b1 0] by (simp add: new_conf_def strict_breaker_def)
  ultimately have r: "breaker_reachable strict_breaker (?b1\<lparr>bc_cb := openCircuit ?c, bc_opening := 0, bc_timers := 1\<rparr>)"
    by (rule step)
  from open_circuit_closes [OF r] r show ?thesis
    by (intro exI [of _ "?b1\<lparr>bc_cb := openCircuit ?c, bc_opening := 0, bc_timers := 1\<rparr>"]) (auto simp: strict_breaker_def openCircuit_def)
qed

end
