(* ===== verification/StripeExecutor.thy ===== *)
theory StripeExecutor
  imports Prelude
begin

text \<open>
  The executor of event handlers (\<^verbatim>\<open>internal/invocation/stripe_executor.go\<close>): a row of bounded
  queues, each emptied by one worker. A key chooses the queue, so that tasks of the same key are run
  in the order they were dispatched. The random number for a task without key is an argument.
\<close>

section \<open>The executor\<close>

definition defaultEventQueueCapacity :: int where "defaultEventQueueCapacity = 10000"

record 't stripe_executor =
  se_taskQueues :: "'t list list"
  se_queueSize :: nat
  se_queueCount :: int

definition newStripeExecutorWithConfig :: "int \<Rightarrow> int \<Rightarrow> 't stripe_executor go" where
  "newStripeExecutorWithConfig queueCount queueSize =
     (if queueCount \<le> 0 then Inl (PanicMessage ''queueCount must be greater than 0'')
      else if queueSize \<le> 0 then Inl (PanicMessage ''queueSize must be greater than 0'')
      else Inr \<lparr>se_taskQueues = replicate (nat queueCount) [], se_queueSize = nat queueSize, se_queueCount = queueCount\<rparr>)"

text \<open>The number of processors is an argument.\<close>

definition newStripeExecutor :: "int \<Rightarrow> 't stripe_executor go" where
  "newStripeExecutor numCPU = newStripeExecutorWithConfig numCPU defaultEventQueueCapacity"

definition dispatch :: "int \<Rightarrow> int \<Rightarrow> 't \<Rightarrow> 't stripe_executor \<Rightarrow> (bool \<times> 't stripe_executor) go" where
  "dispatch random key task se =
     (let key = (if key < 0 then random else key)
      in if se_queueCount se = 0 then Inl DivideByZero
         else bind_go (go_index (se_taskQueues se) (go_rem key (se_queueCount se))) (\<lambda>queue.
           if length queue < se_queueSize se
           then bind_go (go_update (se_taskQueues se) (go_rem key (se_queueCount se)) (queue @ [task]))
                  (\<lambda>queues. Inr (True, se\<lparr>se_taskQueues := queues\<rparr>))
           else Inr (False, se)))"

text \<open>A round of the worker of a queue: the task it runs, if one is waiting.\<close>

definition worker_round :: "nat \<Rightarrow> 't stripe_executor \<Rightarrow> 't option \<times> 't stripe_executor" where
  "worker_round i se =
     (if i < length (se_taskQueues se)
      then case se_taskQueues se ! i of
             [] \<Rightarrow> (None, se)
           | task # rest \<Rightarrow> (Some task, se\<lparr>se_taskQueues := (se_taskQueues se)[i := rest]\<rparr>)
      else (None, se))"

section \<open>Runs\<close>

text \<open>
  Dispatches and rounds of the workers in any interleaving, with the tasks accepted and the tasks run
  so far.
\<close>

datatype 't stripe_event = Dispatch int int 't | Round nat

record 't stripe_run =
  sr_executor :: "'t stripe_executor"
  sr_accepted :: "'t list"
  sr_executed :: "'t list"

fun stripe_step :: "'t stripe_event \<Rightarrow> 't stripe_run \<Rightarrow> 't stripe_run go" where
  "stripe_step (Dispatch random key task) r =
     bind_go (dispatch random key task (sr_executor r)) (\<lambda>(ok, se).
       Inr (r\<lparr>sr_executor := se, sr_accepted := (if ok then sr_accepted r @ [task] else sr_accepted r)\<rparr>))"
| "stripe_step (Round i) r =
     (case worker_round i (sr_executor r) of
        (None, se) \<Rightarrow> Inr (r\<lparr>sr_executor := se\<rparr>)
      | (Some task, se) \<Rightarrow> Inr (r\<lparr>sr_executor := se, sr_executed := sr_executed r @ [task]\<rparr>))"

definition stripe_events :: "'t stripe_event list \<Rightarrow> 't stripe_executor \<Rightarrow> 't stripe_run go" where
  "stripe_events evs se = for_each stripe_step evs \<lparr>sr_executor = se, sr_accepted = [], sr_executed = []\<rparr>"

section \<open>Facts\<close>

definition stripe_wf :: "'t stripe_executor \<Rightarrow> bool" where
  "stripe_wf se \<longleftrightarrow> 0 < se_queueCount se \<and> length (se_taskQueues se) = nat (se_queueCount se)
     \<and> 0 < se_queueSize se \<and> list_all (\<lambda>q. length q \<le> se_queueSize se) (se_taskQueues se)"

lemma go_rem_index: "0 \<le> k \<Longrightarrow> 0 < n \<Longrightarrow> go_rem k n = k mod n"
  by (cases "k = 0") (simp_all add: go_rem_def)

lemma all_queues_update:
  assumes "\<forall>i < length qs. \<forall>t \<in> set (qs ! i). P i t" "\<forall>t \<in> set q. P j t"
  shows "\<forall>i < length (qs[j := q]). \<forall>t \<in> set (qs[j := q] ! i). P i t"
  using assms by (metis length_list_update nth_list_update_eq nth_list_update_neq)

lemma dispatch_eq:
  fixes key random :: int and se :: "'t stripe_executor"
  assumes "stripe_wf se" "0 \<le> random"
  defines "i \<equiv> nat ((if key < 0 then random else key) mod se_queueCount se)"
  shows "i < length (se_taskQueues se)"
    and "dispatch random key task se = Inr
      (if length (se_taskQueues se ! i) < se_queueSize se
       then (True, se\<lparr>se_taskQueues := (se_taskQueues se)[i := se_taskQueues se ! i @ [task]]\<rparr>) else (False, se))"
proof -
  let ?k = "if key < 0 then random else key"
  have k: "0 \<le> ?k" "0 < se_queueCount se" using assms(1,2) by (auto simp: stripe_wf_def)
  then have m: "0 \<le> ?k mod se_queueCount se" "?k mod se_queueCount se < se_queueCount se" by simp_all
  with assms(1) show "i < length (se_taskQueues se)" unfolding i_def by (simp add: stripe_wf_def)
  from m assms(1) have "?k mod se_queueCount se < int (length (se_taskQueues se))" by (simp add: stripe_wf_def)
  with k m show "dispatch random key task se = Inr
      (if length (se_taskQueues se ! i) < se_queueSize se
       then (True, se\<lparr>se_taskQueues := (se_taskQueues se)[i := se_taskQueues se ! i @ [task]]\<rparr>) else (False, se))"
    unfolding i_def dispatch_def Let_def go_rem_index [OF k] go_index_def go_update_def by (simp del: if_split)
qed

lemma stripe_wf_dispatch:
  assumes "stripe_wf se" "0 \<le> random" "dispatch random key task se = Inr (ok, se')"
  shows "stripe_wf se'"
  using assms(1,3) dispatch_eq(1) [OF assms(1,2), of key] unfolding dispatch_eq(2) [OF assms(1,2)]
  by (auto simp: stripe_wf_def list_all_iff dest!: subsetD [OF set_update_subset_insert] split: if_splits)

lemma dispatch_total:
  assumes "stripe_wf se" "0 \<le> random"
  obtains ok se' where "dispatch random key task se = Inr (ok, se')" "stripe_wf se'"
proof -
  obtain ok se' where "dispatch random key task se = Inr (ok, se')"
    unfolding dispatch_eq(2) [OF assms] by (cases "length (se_taskQueues se ! nat ((if key < 0 then random else key) mod se_queueCount se)) < se_queueSize se") auto
  then show ?thesis using stripe_wf_dispatch [OF assms] by (intro that)
qed

lemma stripe_wf_round:
  "stripe_wf se \<Longrightarrow> worker_round i se = (t, se') \<Longrightarrow> stripe_wf se'"
  by (auto simp: stripe_wf_def worker_round_def list_all_length nth_list_update split: if_splits list.splits)
     (metis Suc_leD length_Cons)

lemma stripe_wf_new: "newStripeExecutorWithConfig n k = Inr se \<Longrightarrow> stripe_wf se"
  by (auto simp: newStripeExecutorWithConfig_def stripe_wf_def list_all_iff split: if_splits)

text \<open>What is still queued for a key, in order.\<close>

definition waiting :: "('t \<Rightarrow> int) \<Rightarrow> int \<Rightarrow> 't stripe_executor \<Rightarrow> 't list" where
  "waiting key_of k se = filter (\<lambda>t. key_of t = k) (se_taskQueues se ! nat (k mod se_queueCount se))"

definition keyed :: "('t \<Rightarrow> int) \<Rightarrow> 't stripe_event \<Rightarrow> bool" where
  "keyed key_of ev = (case ev of Dispatch random key task \<Rightarrow> 0 \<le> random \<and> key = key_of task | Round i \<Rightarrow> True)"

text \<open>Tasks of other keys may share the queue; they never come between a queue and its order.\<close>

definition at_home :: "('t \<Rightarrow> int) \<Rightarrow> int \<Rightarrow> nat \<Rightarrow> 't \<Rightarrow> bool" where
  "at_home key_of n i t \<longleftrightarrow> 0 \<le> key_of t \<longrightarrow> i = nat (key_of t mod n)"

definition stripe_inv :: "('t \<Rightarrow> int) \<Rightarrow> 't stripe_run \<Rightarrow> bool" where
  "stripe_inv key_of r \<longleftrightarrow> stripe_wf (sr_executor r)
     \<and> (\<forall>i < length (se_taskQueues (sr_executor r)). \<forall>t \<in> set (se_taskQueues (sr_executor r) ! i).
          at_home key_of (se_queueCount (sr_executor r)) i t)
     \<and> (\<forall>k \<ge> 0. filter (\<lambda>t. key_of t = k) (sr_executed r) @ waiting key_of k (sr_executor r)
          = filter (\<lambda>t. key_of t = k) (sr_accepted r))"

lemma stripe_inv_dispatch:
  assumes "stripe_inv key_of r" "0 \<le> random"
  shows "\<exists>r'. stripe_step (Dispatch random (key_of task) task) r = Inr r' \<and> stripe_inv key_of r'"
proof -
  let ?se = "sr_executor r"
  let ?i = "nat ((if key_of task < 0 then random else key_of task) mod se_queueCount ?se)"
  have wf: "stripe_wf ?se" using assms(1) by (simp add: stripe_inv_def)
  note d = dispatch_eq [OF wf assms(2), of "key_of task"]
  have n: "0 < se_queueCount ?se" "length (se_taskQueues ?se) = nat (se_queueCount ?se)" using wf by (auto simp: stripe_wf_def)
  show ?thesis
  proof (cases "length (se_taskQueues ?se ! ?i) < se_queueSize ?se")
    case True
    let ?se' = "?se\<lparr>se_taskQueues := (se_taskQueues ?se)[?i := se_taskQueues ?se ! ?i @ [task]]\<rparr>"
    have e: "dispatch random (key_of task) task ?se = Inr (True, ?se')" using d(2) True by simp
    have "waiting key_of k ?se' = waiting key_of k ?se @ (if key_of task = k then [task] else [])" if "0 \<le> k" for k
      using that d(1) n by (auto simp: waiting_def nth_list_update)
    moreover have "stripe_wf ?se'" using stripe_wf_dispatch [OF wf assms(2) e] .
    moreover have "\<forall>i < length (se_taskQueues ?se'). \<forall>t \<in> set (se_taskQueues ?se' ! i). at_home key_of (se_queueCount ?se') i t"
      using assms(1) d(1) all_queues_update [of "se_taskQueues ?se" "at_home key_of (se_queueCount ?se)"
          "se_taskQueues ?se ! ?i @ [task]" ?i]
      by (simp add: stripe_inv_def at_home_def [of _ _ _ task])
    ultimately have "stripe_inv key_of (r\<lparr>sr_executor := ?se', sr_accepted := sr_accepted r @ [task]\<rparr>)"
      using assms(1) unfolding stripe_inv_def by (simp del: append_assoc add: append_assoc [symmetric])
    with e show ?thesis by simp
  next
    case False
    then have "dispatch random (key_of task) task ?se = Inr (False, ?se)" using d(2) by simp
    with assms(1) show ?thesis by (auto simp: stripe_inv_def)
  qed
qed

lemma stripe_inv_round:
  assumes "stripe_inv key_of r"
  shows "\<exists>r'. stripe_step (Round i) r = Inr r' \<and> stripe_inv key_of r'"
proof (cases "i < length (se_taskQueues (sr_executor r)) \<and> se_taskQueues (sr_executor r) ! i \<noteq> []")
  case True
  let ?se = "sr_executor r"
  obtain task rest where q: "se_taskQueues ?se ! i = task # rest" using True by (cases "se_taskQueues ?se ! i") auto
  let ?se' = "?se\<lparr>se_taskQueues := (se_taskQueues ?se)[i := rest]\<rparr>"
  have e: "worker_round i ?se = (Some task, ?se')" using True q by (simp add: worker_round_def)
  have "stripe_wf ?se'" using stripe_wf_round [OF _ e] assms by (simp add: stripe_inv_def)
  moreover have home: "\<forall>j < length (se_taskQueues ?se). \<forall>t \<in> set (se_taskQueues ?se ! j). at_home key_of (se_queueCount ?se) j t"
    using assms by (simp add: stripe_inv_def)
  moreover have "\<forall>j < length (se_taskQueues ?se'). \<forall>t \<in> set (se_taskQueues ?se' ! j). at_home key_of (se_queueCount ?se') j t"
    using home True q all_queues_update [of "se_taskQueues ?se" "at_home key_of (se_queueCount ?se)" rest i] by simp
  moreover have "at_home key_of (se_queueCount ?se) i task" using home True q by simp
  then have "waiting key_of k ?se = (if key_of task = k then [task] else []) @ waiting key_of k ?se'" if "0 \<le> k" for k
    using that True q by (auto simp: waiting_def nth_list_update at_home_def)
  ultimately show ?thesis using assms e by (auto simp: stripe_inv_def)
next
  case False
  then have "worker_round i (sr_executor r) = (None, sr_executor r)" by (auto simp: worker_round_def)
  with assms show ?thesis by simp
qed

lemma stripe_inv_run:
  "list_all (keyed key_of) evs \<Longrightarrow> stripe_inv key_of r \<Longrightarrow> \<exists>r'. for_each stripe_step evs r = Inr r' \<and> stripe_inv key_of r'"
proof (induction evs arbitrary: r)
  case (Cons ev evs)
  have "\<exists>r'. stripe_step ev r = Inr r' \<and> stripe_inv key_of r'"
  proof (cases ev)
    case (Dispatch random key task)
    with Cons.prems show ?thesis using stripe_inv_dispatch [of key_of r random task] by (simp add: keyed_def)
  next
    case (Round i)
    with Cons.prems stripe_inv_round show ?thesis by simp
  qed
  with Cons show ?case by auto
qed simp

lemma stripe_inv_new:
  assumes "newStripeExecutorWithConfig n k = Inr se"
  shows "stripe_inv key_of \<lparr>sr_executor = se, sr_accepted = [], sr_executed = []\<rparr>"
proof -
  have "se_taskQueues se ! i = []" if "i < nat n" for i
    using assms that by (auto simp: newStripeExecutorWithConfig_def split: if_splits)
  with stripe_wf_new [OF assms] assms show ?thesis
    by (auto simp: stripe_inv_def waiting_def newStripeExecutorWithConfig_def split: if_splits)
qed

section \<open>Properties\<close>

text \<open>
  C37: in every interleaving of dispatches and workers no operation panics, and the tasks of a key are
  run in the order in which they were accepted: those already run, followed by those still queued,
  are exactly those accepted.
\<close>

theorem stripe_order:
  assumes "newStripeExecutorWithConfig queueCount queueSize = Inr se" "list_all (keyed key_of) evs" "0 \<le> k"
  shows "\<exists>r. stripe_events evs se = Inr r \<and> filter (\<lambda>t. key_of t = k) (sr_executed r) @ waiting key_of k (sr_executor r)
    = filter (\<lambda>t. key_of t = k) (sr_accepted r)"
  using stripe_inv_run [OF assms(2) stripe_inv_new [OF assms(1)]] assms(3)
  by (auto simp: stripe_events_def stripe_inv_def)

theorem stripe_order_witness:
  "\<exists>r. stripe_events [Dispatch 0 3 (3::int, True), Dispatch 0 1 (1, True), Dispatch 0 3 (3, False), Round 1, Round 1]
         \<lparr>se_taskQueues = [[], []], se_queueSize = 5, se_queueCount = 2\<rparr> = Inr r
     \<and> filter (\<lambda>t. fst t = 3) (sr_executed r) @ waiting fst 3 (sr_executor r) = filter (\<lambda>t. fst t = 3) (sr_accepted r)"
  by (rule stripe_order [of 2 5]) (simp_all add: newStripeExecutorWithConfig_def keyed_def numeral_2_eq_2)

end
