(* ===== verification/Invocation.thy ===== *)
theory Invocation
  imports CircuitBreaker Frames StripeExecutor
begin

text \<open>
  Invocations and their service (\<^verbatim>\<open>internal/invocation\<close>, the invocation kinds of \<^verbatim>\<open>internal/cluster\<close>):
  the life of a request from the moment the service takes it until its caller gets a reply, an error
  or the news that the service has ended. The goroutine \<open>processIncoming\<close> owns the table of pending
  invocations, so the service is a fold over the events its \<^verbatim>\<open>select\<close> receives. Invocations are shared
  between the table and their callers, so they live in a store and the table holds references. What
  the handler \<open>Invoke\<close> answers and the clock are part of the events.
\<close>

section \<open>An invocation\<close>

text \<open>
  The response channel holds one message: \<open>inv_response\<close> is the message sent to it, \<open>inv_closed\<close> tells
  that it is closed. A handler of events is a number. The request is never nil, since the factory sets
  its correlation ID.
\<close>

record impl =
  inv_deadline :: int
  inv_response :: "client_message option"
  inv_closed :: bool
  inv_eventHandler :: "nat option"
  inv_request :: client_message
  inv_address :: gostring
  inv_group :: i64
  inv_completed :: bool
  inv_partitionID :: i32
  inv_RedoOperation :: bool

definition NewImpl :: "client_message \<Rightarrow> i32 \<Rightarrow> gostring \<Rightarrow> int \<Rightarrow> bool \<Rightarrow> impl" where
  "NewImpl clientMessage partitionID address deadline redoOperation =
     \<lparr>inv_deadline = deadline, inv_response = None, inv_closed = False, inv_eventHandler = None,
      inv_request = clientMessage, inv_address = address, inv_group = 0, inv_completed = False,
      inv_partitionID = partitionID, inv_RedoOperation = redoOperation\<rparr>"

definition Complete :: "client_message \<Rightarrow> impl \<Rightarrow> impl go" where
  "Complete message i =
     (if inv_completed i then Inr i
      else if inv_closed i then Inl (PanicMessage ''send on closed channel'')
      else Inr (i\<lparr>inv_completed := True, inv_response := Some message\<rparr>))"

definition inv_Close :: "impl \<Rightarrow> impl go" where
  "inv_Close i = (if inv_closed i then Inl (PanicMessage ''close of closed channel'') else Inr (i\<lparr>inv_closed := True\<rparr>))"

definition SetEventHandler :: "nat option \<Rightarrow> impl \<Rightarrow> impl" where
  "SetEventHandler handler i = i\<lparr>inv_eventHandler := handler\<rparr>"

definition SetGroup :: "i64 \<Rightarrow> impl \<Rightarrow> impl" where
  "SetGroup gid i = i\<lparr>inv_group := gid\<rparr>"

definition MaybeCanRetry :: "impl \<Rightarrow> go_error \<Rightarrow> bool" where
  "MaybeCanRetry i err =
     (if errors_Is err (Sentinel ErrIO) \<or> errors_Is err (Sentinel ErrHazelcastInstanceNotActive) then True
      else if IsRetryable err then True
      else if errors_Is err (Sentinel ErrTargetDisconnected) then cm_Retryable (inv_request i) \<or> inv_RedoOperation i
      else False)"

definition Impl_CanRetry :: "impl \<Rightarrow> go_error \<Rightarrow> bool" where
  "Impl_CanRetry i err = (if errors_As_NonRetryable err \<noteq> None then False else MaybeCanRetry i err)"

text \<open>The invocations bound to a connection or to a member embed an \<^verbatim>\<open>Impl\<close>, which is their first argument.\<close>

definition ConnectionBound_CanRetry :: "impl \<Rightarrow> go_error \<Rightarrow> bool" where
  "ConnectionBound_CanRetry i err =
     (if errors_As_NonRetryable err \<noteq> None then False
      else if errors_Is err (Sentinel ErrIO) \<or> errors_Is err (Sentinel ErrTargetDisconnected) then False
      else if IsRetryable err then True
      else if errors_Is err (Sentinel ErrHazelcastInstanceNotActive) then True
      else False)"

definition MemberBound_CanRetry :: "impl \<Rightarrow> go_error \<Rightarrow> bool" where
  "MemberBound_CanRetry i err =
     (if errors_As_NonRetryable err \<noteq> None then False
      else if errors_Is err (Sentinel ErrTargetNotMember) then False
      else MaybeCanRetry i err)"

text \<open>The method is declared on \<^verbatim>\<open>Impl\<close>, so the \<open>CanRetry\<close> it calls is that of \<^verbatim>\<open>Impl\<close>, whatever embeds it.\<close>

definition unwrapResponse :: "impl \<Rightarrow> client_message \<Rightarrow> go_error + client_message" where
  "unwrapResponse i response =
     (case cm_Err response of
        Some err \<Rightarrow>
          if Impl_CanRetry i err then Inl err
          else (case err of NonRetryable _ _ \<Rightarrow> Inl err | _ \<Rightarrow> Inl (WrapNonRetryableError err))
      | None \<Rightarrow> Inr response)"

text \<open>
  \<open>select\<close> takes any case that is ready: \<open>ctx\<close> is the error of a finished context, \<open>first\<close> chooses the
  response when both are ready, and \<open>None\<close> is a caller that waits.
\<close>

definition GetWithContext :: "go_error option \<Rightarrow> bool \<Rightarrow> impl \<Rightarrow> (go_error + client_message) option" where
  "GetWithContext ctx first i =
     (let response = (case inv_response i of
                        Some response \<Rightarrow> Some (unwrapResponse i response)
                      | None \<Rightarrow> if inv_closed i then Some (Inl (WrapNonRetryableError ErrResponseChannelClosed)) else None);
          done = map_option (\<lambda>err. Inl (if \<not> Impl_CanRetry i err then WrapNonRetryableError err else err)) ctx
      in case (response, done) of
           (None, _) \<Rightarrow> done
         | (_, None) \<Rightarrow> response
         | _ \<Rightarrow> if first then response else done)"

text \<open>The factory of invocations and its counter of correlation IDs.\<close>

record invocation_factory =
  if_invocationTimeout :: int
  if_nextCorrelationID :: i64
  if_redoOperation :: bool

definition makeCorrelationID :: "invocation_factory \<Rightarrow> i64 \<times> invocation_factory" where
  "makeCorrelationID f = (if_nextCorrelationID f + 1, f\<lparr>if_nextCorrelationID := if_nextCorrelationID f + 1\<rparr>)"

definition factory_new ::
  "client_message \<Rightarrow> i32 \<Rightarrow> gostring \<Rightarrow> int \<Rightarrow> invocation_factory \<Rightarrow> (impl \<times> invocation_factory) go" where
  "factory_new message partitionID address start f =
     (let (cid, f') = makeCorrelationID f
      in bind_go (SetCorrelationID cid message) (\<lambda>message.
           Inr (NewImpl message partitionID address (start + if_invocationTimeout f) (if_redoOperation f), f')))"

definition NewInvocationOnPartitionOwner ::
  "client_message \<Rightarrow> i32 \<Rightarrow> int \<Rightarrow> invocation_factory \<Rightarrow> (impl \<times> invocation_factory) go" where
  "NewInvocationOnPartitionOwner message partitionID start f = factory_new message partitionID [] start f"

definition NewInvocationOnRandomTarget ::
  "client_message \<Rightarrow> nat option \<Rightarrow> int \<Rightarrow> invocation_factory \<Rightarrow> (impl \<times> invocation_factory) go" where
  "NewInvocationOnRandomTarget message handler start f =
     bind_go (factory_new message (-1) [] start f) (\<lambda>(inv, f). Inr (SetEventHandler handler inv, f))"

definition NewInvocationOnTarget ::
  "client_message \<Rightarrow> gostring \<Rightarrow> int \<Rightarrow> invocation_factory \<Rightarrow> (impl \<times> invocation_factory) go" where
  "NewInvocationOnTarget message addr start f = factory_new message (-1) addr start f"

definition NewConnectionBoundInvocation ::
  "client_message \<Rightarrow> nat option \<Rightarrow> int \<Rightarrow> invocation_factory \<Rightarrow> (impl \<times> invocation_factory) go" where
  "NewConnectionBoundInvocation message handler start f =
     bind_go (message_Copy message) (\<lambda>message.
     bind_go (factory_new message (-1) [] start f) (\<lambda>(inv, f). Inr (SetEventHandler handler inv, f)))"

definition NewMemberBoundInvocation ::
  "client_message \<Rightarrow> gostring \<Rightarrow> int \<Rightarrow> invocation_factory \<Rightarrow> (impl \<times> invocation_factory) go" where
  "NewMemberBoundInvocation message address start f =
     bind_go (message_Copy message) (\<lambda>message. factory_new message (-1) address start f)"

section \<open>The service\<close>

text \<open>A task of the executor is the handler of an invocation with the message of the event.\<close>

record inv_service =
  is_store :: "impl list"
  is_invocations :: "(i64, nat) gomap"
  is_executor :: "(nat \<times> client_message) stripe_executor"
  is_running :: bool
  is_paused :: bool

definition NewService :: "(nat \<times> client_message) stripe_executor \<Rightarrow> inv_service" where
  "NewService executor =
     \<lparr>is_store = [], is_invocations = [], is_executor = executor, is_running = True, is_paused = False\<rparr>"

text \<open>The case that a \<^verbatim>\<open>select\<close> of a sender takes.\<close>

datatype send_case = CaseCtx go_error | CaseDone | CaseSent

definition SendRequest :: "send_case \<Rightarrow> int \<Rightarrow> impl \<Rightarrow> inv_service \<Rightarrow> go_error option" where
  "SendRequest c now i s =
     (if is_paused s
      then let err = WrapError (gostr ''non-urgent invocations are paused'') (Sentinel ErrRetryableIO)
           in Some (if inv_deadline i < now then WrapNonRetryableError err else err)
      else case c of
             CaseCtx e \<Rightarrow> Some (WrapNonRetryableError (WrapError (gostr ''sending invocation'') e))
           | CaseDone \<Rightarrow> Some (WrapNonRetryableError (WrapError (gostr ''sending invocation'') (Sentinel ErrClientNotActive)))
           | CaseSent \<Rightarrow> None)"

definition SendUrgentRequest :: "send_case \<Rightarrow> go_error option" where
  "SendUrgentRequest c =
     (case c of
        CaseCtx e \<Rightarrow> Some (WrapError (gostr ''sending urgent invocation'') e)
      | CaseDone \<Rightarrow> Some (WrapNonRetryableError (WrapError (gostr ''sending urgent invocation'') (Sentinel ErrClientNotActive)))
      | CaseSent \<Rightarrow> None)"

definition removeCorrelationID :: "i64 \<Rightarrow> inv_service \<Rightarrow> inv_service" where
  "removeCorrelationID cid s = s\<lparr>is_invocations := AList.delete cid (is_invocations s)\<rparr>"

definition unregisterInvocation :: "i64 \<Rightarrow> inv_service \<Rightarrow> nat option \<times> inv_service" where
  "unregisterInvocation cid s =
     (case map_of (is_invocations s) cid of
        Some r \<Rightarrow> (Some r, if inv_eventHandler (is_store s ! r) = None then removeCorrelationID cid s else s)
      | None \<Rightarrow> (None, s))"

definition store_update :: "nat \<Rightarrow> impl \<Rightarrow> inv_service \<Rightarrow> inv_service" where
  "store_update r i s = s\<lparr>is_store := (is_store s)[r := i]\<rparr>"

definition registerInvocation :: "nat \<Rightarrow> inv_service \<Rightarrow> inv_service go" where
  "registerInvocation r s =
     (let i = is_store s ! r
      in bind_go (SetPartitionId (inv_partitionID i) (inv_request i)) (\<lambda>message.
         bind_go (CorrelationID message) (\<lambda>cid.
           Inr ((store_update r (i\<lparr>inv_request := message\<rparr>) s)\<lparr>is_invocations := AList.update cid r (is_invocations s)\<rparr>))))"

definition handleError :: "int \<Rightarrow> i64 \<Rightarrow> go_error \<Rightarrow> inv_service \<Rightarrow> inv_service go" where
  "handleError now cid invocationErr s =
     (case unregisterInvocation cid s of
        (Some r, s) \<Rightarrow>
          let inv = is_store s ! r;
              err = (if inv_deadline inv < now then WrapNonRetryableError invocationErr else invocationErr)
          in bind_go (Complete \<lparr>cm_Err = Some err, cm_Frames = [], cm_Retryable = False\<rparr> inv) (\<lambda>inv. Inr (store_update r inv s))
      | (None, s) \<Rightarrow> Inr s)"

definition sendInvocation :: "go_error + i64 \<Rightarrow> int \<Rightarrow> nat \<Rightarrow> inv_service \<Rightarrow> inv_service go" where
  "sendInvocation answer now r s =
     bind_go (registerInvocation r s) (\<lambda>s.
     bind_go (CorrelationID (inv_request (is_store s ! r))) (\<lambda>cid.
       case answer of
         Inl err \<Rightarrow> handleError now cid err s
       | Inr gid \<Rightarrow> Inr (store_update r (SetGroup gid (is_store s ! r)) s)))"

definition handleClientMessage :: "int \<Rightarrow> int \<Rightarrow> client_message \<Rightarrow> inv_service \<Rightarrow> inv_service go" where
  "handleClientMessage random now msg s =
     bind_go (CorrelationID msg) (\<lambda>cid.
       case cm_Err msg of
         Some err \<Rightarrow> handleError now cid err s
       | None \<Rightarrow>
           bind_go (HasEventFlag msg) (\<lambda>event. bind_go (if event then Inr True else HasBackupEventFlag msg) (\<lambda>event.
             if event then
               (case map_of (is_invocations s) cid of
                  None \<Rightarrow> Inr s
                | Some r \<Rightarrow>
                    (case inv_eventHandler (is_store s ! r) of
                       None \<Rightarrow> Inr s
                     | Some handler \<Rightarrow>
                         bind_go (message_PartitionID msg) (\<lambda>partitionID.
                         bind_go (dispatch random (sint partitionID) (handler, msg) (is_executor s)) (\<lambda>(ok, executor).
                           Inr (s\<lparr>is_executor := executor\<rparr>)))))
             else
               (case unregisterInvocation cid s of
                  (Some r, s) \<Rightarrow> bind_go (Complete msg (is_store s ! r)) (\<lambda>inv. Inr (store_update r inv s))
                | (None, s) \<Rightarrow> Inr s))))"

text \<open>The order in which Go visits the table is an argument; the body deletes at most the entry it visits.\<close>

definition lose_entry :: "int \<Rightarrow> i64 \<Rightarrow> go_error \<Rightarrow> i64 \<Rightarrow> inv_service \<Rightarrow> inv_service go" where
  "lose_entry now gid err cid s =
     (case map_of (is_invocations s) cid of
        None \<Rightarrow> Inr s
      | Some r \<Rightarrow>
          if inv_group (is_store s ! r) = gid
          then bind_go (HasEventFlag (inv_request (is_store s ! r))) (\<lambda>event.
                 if \<not> event then handleError now cid err s else Inr s)
          else Inr s)"

definition handleGroupLost :: "i64 list \<Rightarrow> int \<Rightarrow> i64 \<Rightarrow> go_error \<Rightarrow> inv_service \<Rightarrow> inv_service go" where
  "handleGroupLost order now gid err s =
     (if \<not> is_running s then Inr s else for_each (lose_entry now gid err) order s)"

text \<open>
  The events of the loop: a request taken from either channel, with the answer of the handler; a
  message of a connection; a removal; a lost connection. In between, \<open>Stop\<close> and \<open>Pause\<close> are called
  and the workers of the executor run.
\<close>

datatype service_event =
    TakeRequest impl "go_error + i64" int
  | TakeResponse client_message int int
  | TakeRemove i64
  | TakeGroupLost i64 go_error "i64 list" int
  | CallStop
  | CallPause bool
  | WorkerRound nat

definition service_Stop :: "inv_service \<Rightarrow> inv_service" where
  "service_Stop s = (if \<not> is_running s then s else s\<lparr>is_running := False\<rparr>)"

definition service_Pause :: "bool \<Rightarrow> inv_service \<Rightarrow> inv_service" where
  "service_Pause paused s = (if \<not> is_running s then s else s\<lparr>is_paused := paused\<rparr>)"

fun service_step :: "service_event \<Rightarrow> inv_service \<Rightarrow> inv_service go" where
  "service_step (TakeRequest i answer now) s =
     sendInvocation answer now (length (is_store s)) (s\<lparr>is_store := is_store s @ [i]\<rparr>)"
| "service_step (TakeResponse msg random now) s = handleClientMessage random now msg s"
| "service_step (TakeRemove cid) s = Inr (removeCorrelationID cid s)"
| "service_step (TakeGroupLost gid err order now) s = handleGroupLost order now gid err s"
| "service_step CallStop s = Inr (service_Stop s)"
| "service_step (CallPause paused) s = Inr (service_Pause paused s)"
| "service_step (WorkerRound queue) s = Inr (s\<lparr>is_executor := snd (worker_round queue (is_executor s))\<rparr>)"

definition close_invocations :: "inv_service \<Rightarrow> inv_service go" where
  "close_invocations s =
     bind_go (for_each (\<lambda>(cid, r) s. bind_go (inv_Close (is_store s ! r)) (\<lambda>inv. Inr (store_update r inv s))) (is_invocations s) s)
       (\<lambda>s. Inr (s\<lparr>is_invocations := []\<rparr>))"

definition processIncoming :: "service_event list \<Rightarrow> inv_service \<Rightarrow> inv_service go" where
  "processIncoming evs s = bind_go (for_each service_step evs s) close_invocations"

section \<open>Facts\<close>

definition header_ok :: "client_message \<Rightarrow> bool" where
  "header_ok m = (case cm_Frames m of [] \<Rightarrow> False | f # fs \<Rightarrow> 16 \<le> length (fr_Content f))"

lemmas header_offsets = CorrelationIDFieldOffset_def PartitionIDOffset_def TypeFieldOffset_def

lemma header_ok_frames: "header_ok m \<longleftrightarrow> cm_Frames m \<noteq> [] \<and> 16 \<le> length (fr_Content (cm_Frames m ! 0))"
  by (cases "cm_Frames m") (simp_all add: header_ok_def)

lemma header_reads:
  assumes "header_ok m"
  shows "\<exists>cid. CorrelationID m = Inr cid" "\<exists>pid. message_PartitionID m = Inr pid"
    "\<exists>b. HasEventFlag m = Inr b" "\<exists>b. HasBackupEventFlag m = Inr b"
  using assms
  by (auto simp: header_ok_frames CorrelationID_def message_PartitionID_def HasEventFlag_def HasBackupEventFlag_def first_frame_def
      header_get_def get_uint_def go_index_def header_offsets)

lemma SetPartitionId_keeps:
  assumes "header_ok m"
  shows "\<exists>m'. SetPartitionId pid m = Inr m' \<and> header_ok m' \<and> CorrelationID m' = CorrelationID m
    \<and> HasEventFlag m' = HasEventFlag m \<and> cm_Retryable m' = cm_Retryable m"
  using assms
  by (auto simp: HasEventFlag_def first_frame_def frame_HasEventFlag_def IsFlagSet_def header_ok_frames SetPartitionId_def header_put_def put_uint_def go_index_def header_offsets CorrelationID_def
      header_get_def get_uint_def take_drop)

definition inv_cid :: "impl \<Rightarrow> i64 go" where
  "inv_cid i = CorrelationID (inv_request i)"

text \<open>An open invocation whose channel holds a message exactly when it is completed.\<close>

definition impl_ok :: "impl \<Rightarrow> bool" where
  "impl_ok i \<longleftrightarrow> \<not> inv_closed i \<and> (inv_completed i \<longleftrightarrow> inv_response i \<noteq> None) \<and> header_ok (inv_request i)"

definition service_wf :: "inv_service \<Rightarrow> bool" where
  "service_wf s \<longleftrightarrow> stripe_wf (is_executor s) \<and> gomap_wf (is_invocations s)
     \<and> (\<forall>cid r. map_of (is_invocations s) cid = Some r \<longrightarrow> r < length (is_store s) \<and> inv_cid (is_store s ! r) = Inr cid)
     \<and> (\<forall>r < length (is_store s). impl_ok (is_store s ! r))"

text \<open>
  What a step may do to the invocations it finds: complete some that are not, with a message allowed
  for their correlation ID, and forget only completed ones.
\<close>

definition advances :: "(i64 \<Rightarrow> client_message \<Rightarrow> bool) \<Rightarrow> inv_service \<Rightarrow> inv_service \<Rightarrow> bool" where
  "advances P s s' \<longleftrightarrow> length (is_store s') = length (is_store s)
     \<and> (\<forall>r < length (is_store s). inv_cid (is_store s' ! r) = inv_cid (is_store s ! r)
          \<and> (inv_completed (is_store s ! r) \<longrightarrow> inv_completed (is_store s' ! r))
          \<and> (inv_response (is_store s' ! r) = inv_response (is_store s ! r)
              \<or> \<not> inv_completed (is_store s ! r)
                \<and> (\<exists>cid m. inv_cid (is_store s ! r) = Inr cid \<and> inv_response (is_store s' ! r) = Some m \<and> P cid m)))
     \<and> (\<forall>cid r. map_of (is_invocations s') cid = Some r \<longrightarrow> map_of (is_invocations s) cid = Some r)
     \<and> (\<forall>cid r. map_of (is_invocations s) cid = Some r \<and> r < length (is_store s) \<longrightarrow>
          map_of (is_invocations s') cid = Some r \<or> inv_completed (is_store s' ! r))"

lemma advances_refl [simp]: "advances P s s"
  by (simp add: advances_def)

lemma advances_trans:
  assumes "advances P s t" "advances P t u"
  shows "advances P s u"
  unfolding advances_def
proof (intro conjI allI impI)
  fix r assume r: "r < length (is_store s)"
  then show "inv_response (is_store u ! r) = inv_response (is_store s ! r) \<or> \<not> inv_completed (is_store s ! r) \<and>
      (\<exists>cid m. inv_cid (is_store s ! r) = Inr cid \<and> inv_response (is_store u ! r) = Some m \<and> P cid m)"
    using assms unfolding advances_def by metis
next
  fix cid r assume "map_of (is_invocations s) cid = Some r \<and> r < length (is_store s)"
  then show "map_of (is_invocations u) cid = Some r \<or> inv_completed (is_store u ! r)"
    using assms unfolding advances_def by metis
qed (use assms in \<open>auto simp: advances_def\<close>)

lemma advances_mono: "advances P s t \<Longrightarrow> (\<And>cid m. P cid m \<Longrightarrow> Q cid m) \<Longrightarrow> advances Q s t"
  unfolding advances_def by meson

lemma service_wf_update:
  assumes "service_wf s" "r < length (is_store s)" "impl_ok i" "inv_cid i = inv_cid (is_store s ! r)"
  shows "service_wf (store_update r i s)"
  using assms by (auto simp: service_wf_def store_update_def nth_list_update)

lemma service_wf_remove: "service_wf s \<Longrightarrow> service_wf (removeCorrelationID cid s)"
  by (auto simp: service_wf_def removeCorrelationID_def)

text \<open>\<open>handleError\<close> and \<open>handleClientMessage\<close> end the same way.\<close>

definition finish :: "i64 \<Rightarrow> (impl \<Rightarrow> client_message) \<Rightarrow> inv_service \<Rightarrow> inv_service go" where
  "finish cid msg s =
     (case unregisterInvocation cid s of
        (Some r, s) \<Rightarrow> bind_go (Complete (msg (is_store s ! r)) (is_store s ! r)) (\<lambda>inv. Inr (store_update r inv s))
      | (None, s) \<Rightarrow> Inr s)"

lemma finish_advances:
  assumes "service_wf s" "\<And>i. P cid (msg i)"
  shows "\<exists>s'. finish cid msg s = Inr s' \<and> service_wf s' \<and> advances P s s'"
proof (cases "map_of (is_invocations s) cid")
  case None
  then show ?thesis using assms by (simp add: finish_def unregisterInvocation_def)
next
  case (Some r)
  let ?i = "is_store s ! r"
  have r: "r < length (is_store s)" "inv_cid ?i = Inr cid" "impl_ok ?i" using assms(1) Some by (auto simp: service_wf_def)
  obtain i' where i': "Complete (msg ?i) ?i = Inr i'" "impl_ok i'" "inv_cid i' = inv_cid ?i" "inv_completed i'"
    "inv_response i' = inv_response ?i \<or> \<not> inv_completed ?i \<and> inv_response i' = Some (msg ?i)"
    using r(3) by (cases "inv_completed ?i") (simp_all add: Complete_def impl_ok_def inv_cid_def)
  let ?t = "if inv_eventHandler ?i = None then removeCorrelationID cid s else s"
  have "is_store ?t = is_store s" by (simp add: removeCorrelationID_def)
  then have e: "finish cid msg s = Inr (store_update r i' ?t)"
    using Some i'(1) by (simp add: finish_def unregisterInvocation_def)
  have "service_wf ?t" using assms(1) service_wf_remove by simp
  then have "service_wf (store_update r i' ?t)"
    using r i' service_wf_update [of ?t r i'] \<open>is_store ?t = is_store s\<close> by simp
  moreover have "advances P s (store_update r i' ?t)"
    using r i' assms(2) [of ?i] Some
    by (auto simp: advances_def store_update_def removeCorrelationID_def nth_list_update)
  ultimately show ?thesis using e by blast
qed

definition is_error :: "i64 \<Rightarrow> client_message \<Rightarrow> bool" where
  "is_error cid m \<longleftrightarrow> cm_Err m \<noteq> None"

lemma handleError_finish:
  "handleError now cid err s = finish cid (\<lambda>i. \<lparr>cm_Err = Some (if inv_deadline i < now then WrapNonRetryableError err else err),
     cm_Frames = [], cm_Retryable = False\<rparr>) s"
  by (auto simp: handleError_def finish_def Let_def split: option.splits prod.splits)

lemma handleError_advances:
  "service_wf s \<Longrightarrow> \<exists>s'. handleError now cid err s = Inr s' \<and> service_wf s' \<and> advances is_error s s'"
  unfolding handleError_finish by (rule finish_advances) (simp_all add: is_error_def)

lemma for_each_advances:
  assumes "\<And>x s. service_wf s \<Longrightarrow> \<exists>s'. f x s = Inr s' \<and> service_wf s' \<and> advances P s s'" "service_wf s"
  shows "\<exists>s'. for_each f xs s = Inr s' \<and> service_wf s' \<and> advances P s s'"
  using assms(2)
proof (induction xs arbitrary: s)
  case (Cons x xs)
  from assms(1) [OF Cons.prems, of x] obtain t where t: "f x s = Inr t" "service_wf t" "advances P s t" by blast
  with Cons.IH [OF t(2)] advances_trans [OF t(3)] show ?case by auto
qed simp

lemma lose_entry_advances:
  assumes "service_wf s"
  shows "\<exists>s'. lose_entry now gid err cid s = Inr s' \<and> service_wf s' \<and> advances is_error s s'"
proof (cases "map_of (is_invocations s) cid")
  case (Some r)
  then have "header_ok (inv_request (is_store s ! r))" using assms by (simp add: service_wf_def impl_ok_def)
  from header_reads(3) [OF this] handleError_advances [OF assms, of now cid err] Some assms show ?thesis
    by (auto simp: lose_entry_def)
qed (use assms in \<open>simp add: lose_entry_def\<close>)

lemma handleGroupLost_advances:
  "service_wf s \<Longrightarrow> \<exists>s'. handleGroupLost order now gid err s = Inr s' \<and> service_wf s' \<and> advances is_error s s'"
  using for_each_advances [of "lose_entry now gid err" is_error, OF lose_entry_advances] by (simp add: handleGroupLost_def)

text \<open>A reply that completes an invocation: an error, or a message of a connection that is no event.\<close>

definition is_reply :: "client_message \<Rightarrow> i64 \<Rightarrow> client_message \<Rightarrow> bool" where
  "is_reply msg cid m \<longleftrightarrow> is_error cid m
     \<or> m = msg \<and> CorrelationID msg = Inr cid \<and> HasEventFlag msg = Inr False \<and> HasBackupEventFlag msg = Inr False"

lemma handleClientMessage_advances:
  assumes "service_wf s" "header_ok msg" "0 \<le> random"
  shows "\<exists>s'. handleClientMessage random now msg s = Inr s' \<and> service_wf s' \<and> advances (is_reply msg) s s'"
proof -
  obtain cid event backup pid where h: "CorrelationID msg = Inr cid" "HasEventFlag msg = Inr event"
    "HasBackupEventFlag msg = Inr backup" "message_PartitionID msg = Inr pid"
    using header_reads [OF assms(2)] by blast
  consider (err) err where "cm_Err msg = Some err" | (event) "cm_Err msg = None" "event \<or> backup"
    | (reply) "cm_Err msg = None" "\<not> event" "\<not> backup"
    by blast
  then show ?thesis
  proof cases
    case err
    then show ?thesis using h handleError_advances [OF assms(1), of now cid err] advances_mono [of is_error s _ "is_reply msg"]
      by (auto simp: handleClientMessage_def is_reply_def)
  next
    case event
    have "(if event then Inr True else HasBackupEventFlag msg) = Inr True" using event(2) h(3) by auto
    then have e: "handleClientMessage random now msg s =
      (case map_of (is_invocations s) cid of None \<Rightarrow> Inr s | Some r \<Rightarrow>
        (case inv_eventHandler (is_store s ! r) of None \<Rightarrow> Inr s | Some handler \<Rightarrow>
          bind_go (dispatch random (sint pid) (handler, msg) (is_executor s)) (\<lambda>(ok, ex). Inr (s\<lparr>is_executor := ex\<rparr>))))"
      unfolding handleClientMessage_def h bind_go_simps event(1) by simp
    consider "handleClientMessage random now msg s = Inr s"
      | handler where "handleClientMessage random now msg s =
          bind_go (dispatch random (sint pid) (handler, msg) (is_executor s)) (\<lambda>(ok, ex). Inr (s\<lparr>is_executor := ex\<rparr>))"
      using e by (auto split: option.splits)
    then show ?thesis
    proof cases
      case 2
      have wf: "stripe_wf (is_executor s)" using assms(1) by (simp add: service_wf_def)
      obtain ok ex where "dispatch random (sint pid) (handler, msg) (is_executor s) = Inr (ok, ex)" "stripe_wf ex"
        by (rule dispatch_total [OF wf assms(3)])
      moreover have "advances (is_reply msg) s (s\<lparr>is_executor := ex\<rparr>)" by (simp add: advances_def)
      ultimately show ?thesis using 2 assms(1) by (simp add: service_wf_def)
    qed (use assms(1) in simp)
  next
    case reply
    have "handleClientMessage random now msg s = finish cid (\<lambda>_. msg) s"
      using reply h by (simp add: handleClientMessage_def finish_def)
    moreover have "is_reply msg cid msg" using h reply by (simp add: is_reply_def)
    ultimately show ?thesis using finish_advances [OF assms(1), of "is_reply msg" cid "\<lambda>_. msg"] by simp
  qed
qed

text \<open>What the events up to now have asked for.\<close>

definition request_id :: "service_event \<Rightarrow> i64 list" where
  "request_id ev = (case ev of TakeRequest i _ _ \<Rightarrow> (case inv_cid i of Inr cid \<Rightarrow> [cid] | Inl _ \<Rightarrow> []) | _ \<Rightarrow> [])"

definition request_ids :: "service_event list \<Rightarrow> i64 list" where
  "request_ids evs = concat (map request_id evs)"

definition removed_ids :: "service_event list \<Rightarrow> i64 list" where
  "removed_ids evs = concat (map (\<lambda>ev. case ev of TakeRemove cid \<Rightarrow> [cid] | _ \<Rightarrow> []) evs)"

definition reply_for :: "service_event list \<Rightarrow> i64 \<Rightarrow> client_message \<Rightarrow> bool" where
  "reply_for evs cid m \<longleftrightarrow> cm_Err m \<noteq> None \<or> (\<exists>random now. TakeResponse m random now \<in> set evs)
     \<and> CorrelationID m = Inr cid \<and> HasEventFlag m = Inr False \<and> HasBackupEventFlag m = Inr False"

text \<open>A new invocation, and messages whose first frame holds a header.\<close>

definition event_ok :: "service_event \<Rightarrow> bool" where
  "event_ok ev = (case ev of
     TakeRequest i _ _ \<Rightarrow> impl_ok i \<and> \<not> inv_completed i
   | TakeResponse msg random _ \<Rightarrow> header_ok msg \<and> 0 \<le> random
   | _ \<Rightarrow> True)"

definition service_inv :: "service_event list \<Rightarrow> inv_service \<Rightarrow> bool" where
  "service_inv evs s \<longleftrightarrow> service_wf s \<and> length (is_store s) = length (request_ids evs)
     \<and> (\<forall>r < length (is_store s). inv_cid (is_store s ! r) = Inr (request_ids evs ! r)
          \<and> (inv_completed (is_store s ! r) \<or> map_of (is_invocations s) (request_ids evs ! r) = Some r
              \<or> request_ids evs ! r \<in> set (removed_ids evs) \<or> request_ids evs ! r \<in> set (drop (Suc r) (request_ids evs)))
          \<and> (\<forall>m. inv_response (is_store s ! r) = Some m \<longrightarrow> reply_for evs (request_ids evs ! r) m))"

lemma history_simps [simp]:
  "request_ids [] = []" "request_ids (evs @ [ev]) = request_ids evs @ request_id ev"
  "removed_ids [] = []" "removed_ids (evs @ [ev]) = removed_ids evs @ removed_ids [ev]"
  by (simp_all add: request_ids_def removed_ids_def)

lemma reply_for_more: "reply_for evs cid m \<or> reply_for [ev] cid m \<Longrightarrow> reply_for (evs @ [ev]) cid m"
  by (auto simp: reply_for_def)

lemma service_inv_advance:
  assumes "service_inv evs s" "advances P s s'" "service_wf s'"
    "request_ids evs' = request_ids evs" "set (removed_ids evs) \<subseteq> set (removed_ids evs')"
    "\<And>cid m. P cid m \<or> reply_for evs cid m \<Longrightarrow> reply_for evs' cid m"
  shows "service_inv evs' s'"
proof -
  have len: "length (is_store s') = length (is_store s)" using assms(2) by (simp add: advances_def)
  have "inv_cid (is_store s' ! r) = Inr (request_ids evs ! r)
      \<and> (inv_completed (is_store s' ! r) \<or> map_of (is_invocations s') (request_ids evs ! r) = Some r
         \<or> request_ids evs ! r \<in> set (removed_ids evs) \<or> request_ids evs ! r \<in> set (drop (Suc r) (request_ids evs)))
      \<and> (\<forall>m. inv_response (is_store s' ! r) = Some m \<longrightarrow> reply_for evs' (request_ids evs ! r) m)"
    if r: "r < length (is_store s)" for r
  proof -
    from assms(1) r have i: "inv_cid (is_store s ! r) = Inr (request_ids evs ! r)"
      "inv_completed (is_store s ! r) \<or> map_of (is_invocations s) (request_ids evs ! r) = Some r
         \<or> request_ids evs ! r \<in> set (removed_ids evs) \<or> request_ids evs ! r \<in> set (drop (Suc r) (request_ids evs))"
      "\<And>m. inv_response (is_store s ! r) = Some m \<Longrightarrow> reply_for evs (request_ids evs ! r) m"
      by (auto simp: service_inv_def)
    from assms(2) r have a: "inv_cid (is_store s' ! r) = inv_cid (is_store s ! r)"
      "inv_completed (is_store s ! r) \<Longrightarrow> inv_completed (is_store s' ! r)"
      "inv_response (is_store s' ! r) = inv_response (is_store s ! r)
        \<or> (\<exists>cid m. inv_cid (is_store s ! r) = Inr cid \<and> inv_response (is_store s' ! r) = Some m \<and> P cid m)"
      "\<And>cid. map_of (is_invocations s) cid = Some r \<Longrightarrow> map_of (is_invocations s') cid = Some r \<or> inv_completed (is_store s' ! r)"
      by (auto simp: advances_def)
    from a(3) i assms(6) have "\<forall>m. inv_response (is_store s' ! r) = Some m \<longrightarrow> reply_for evs' (request_ids evs ! r) m"
      by auto
    with a i show ?thesis by auto
  qed
  with assms(1,3,4,5) len show ?thesis by (auto simp: service_inv_def)
qed

lemma register_new:
  assumes "service_wf s" "impl_ok i" "inv_cid i = Inr cid"
  obtains i' where "registerInvocation (length (is_store s)) (s\<lparr>is_store := is_store s @ [i]\<rparr>) =
      Inr (s\<lparr>is_store := is_store s @ [i'], is_invocations := AList.update cid (length (is_store s)) (is_invocations s)\<rparr>)"
    "impl_ok i'" "inv_cid i' = Inr cid" "inv_completed i' = inv_completed i" "inv_response i' = inv_response i"
    "HasEventFlag (inv_request i') = HasEventFlag (inv_request i)" "cm_Retryable (inv_request i') = cm_Retryable (inv_request i)"
    "inv_RedoOperation i' = inv_RedoOperation i"
proof -
  from assms(2) obtain m where m: "SetPartitionId (inv_partitionID i) (inv_request i) = Inr m" "header_ok m" "CorrelationID m = Inr cid"
    "HasEventFlag m = HasEventFlag (inv_request i)" "cm_Retryable m = cm_Retryable (inv_request i)"
    using SetPartitionId_keeps [of "inv_request i" "inv_partitionID i"] assms(3) by (auto simp: impl_ok_def inv_cid_def)
  show ?thesis
    by (rule that [of "i\<lparr>inv_request := m\<rparr>"])
       (use m assms in \<open>simp_all add: registerInvocation_def store_update_def impl_ok_def inv_cid_def\<close>)
qed

lemma service_wf_new:
  assumes "service_wf s" "impl_ok i" "inv_cid i = Inr cid"
  shows "service_wf (s\<lparr>is_store := is_store s @ [i], is_invocations := AList.update cid (length (is_store s)) (is_invocations s)\<rparr>)"
  using assms by (auto simp: service_wf_def nth_append less_Suc_eq split: if_splits)

lemma service_inv_new:
  assumes "service_inv evs s" "impl_ok i" "inv_cid i = Inr cid" "\<not> inv_completed i" "request_id ev = [cid]" "removed_ids [ev] = []"
  shows "service_inv (evs @ [ev])
    (s\<lparr>is_store := is_store s @ [i], is_invocations := AList.update cid (length (is_store s)) (is_invocations s)\<rparr>)"
proof -
  have wf: "service_wf s" and len: "length (is_store s) = length (request_ids evs)" using assms(1) by (auto simp: service_inv_def)
  have "inv_response i = None" using assms(2,4) by (simp add: impl_ok_def)
  with service_wf_new [OF wf assms(2,3)] assms len show ?thesis
    by (auto simp: service_inv_def nth_append less_Suc_eq intro: reply_for_more)
qed

lemma step_TakeRequest:
  assumes "service_inv evs s" "impl_ok i" "\<not> inv_completed i" "ev = TakeRequest i answer now"
  shows "\<exists>s'. service_step ev s = Inr s' \<and> service_inv (evs @ [ev]) s'"
proof -
  have wf: "service_wf s" using assms(1) by (simp add: service_inv_def)
  obtain cid where cid: "inv_cid i = Inr cid"
    using assms(2) header_reads(1) by (auto simp: impl_ok_def inv_cid_def)
  obtain i' where i': "registerInvocation (length (is_store s)) (s\<lparr>is_store := is_store s @ [i]\<rparr>) =
      Inr (s\<lparr>is_store := is_store s @ [i'], is_invocations := AList.update cid (length (is_store s)) (is_invocations s)\<rparr>)"
    "impl_ok i'" "inv_cid i' = Inr cid" "inv_completed i' = inv_completed i"
    using register_new [OF wf assms(2) cid] by metis
  let ?t = "s\<lparr>is_store := is_store s @ [i'], is_invocations := AList.update cid (length (is_store s)) (is_invocations s)\<rparr>"
  have ids: "request_id ev = [cid]" "removed_ids [ev] = []" using cid by (simp_all add: assms(4) request_id_def removed_ids_def)
  have t: "service_inv (evs @ [ev]) ?t"
    by (rule service_inv_new [OF assms(1) i'(2,3)]) (use i'(4) assms(3) ids in simp_all)
  have wft: "service_wf ?t" using t by (simp add: service_inv_def)
  have step: "service_step ev s = (case answer of Inl err \<Rightarrow> handleError now cid err ?t
      | Inr gid \<Rightarrow> Inr (store_update (length (is_store s)) (SetGroup gid i') ?t))"
    using i'(1,3) by (cases answer) (simp_all add: assms(4) sendInvocation_def inv_cid_def)
  have "\<exists>s'. service_step ev s = Inr s' \<and> service_wf s' \<and> advances is_error ?t s'"
  proof (cases answer)
    case (Inl err)
    then show ?thesis using step handleError_advances [OF wft] by simp
  next
    case (Inr gid)
    have "service_wf (store_update (length (is_store s)) (SetGroup gid i') ?t)"
      by (rule service_wf_update [OF wft]) (use i' in \<open>simp_all add: SetGroup_def impl_ok_def inv_cid_def\<close>)
    moreover have "advances is_error ?t (store_update (length (is_store s)) (SetGroup gid i') ?t)"
      by (auto simp: advances_def store_update_def SetGroup_def inv_cid_def nth_append nth_list_update less_Suc_eq)
    ultimately show ?thesis using step Inr by simp
  qed
  then show ?thesis using service_inv_advance [OF t] by (fastforce simp: is_error_def reply_for_def)
qed

lemma service_step_inv:
  assumes "service_inv evs s" "event_ok ev"
  shows "\<exists>s'. service_step ev s = Inr s' \<and> service_inv (evs @ [ev]) s'"
proof -
  have wf: "service_wf s" using assms(1) by (simp add: service_inv_def)
  have advance: "service_inv (evs @ [ev]) s'" if "advances P s s'" "service_wf s'" "request_id ev = []"
    "\<And>cid m. P cid m \<Longrightarrow> reply_for [ev] cid m" for P s'
    by (rule service_inv_advance [OF assms(1) that(1,2)]) (use that(3,4) reply_for_more in auto)
  show ?thesis
  proof (cases ev)
    case (TakeRequest i answer now)
    with step_TakeRequest [OF assms(1)] assms(2) show ?thesis by (simp add: event_ok_def)
  next
    case (TakeResponse msg random now)
    obtain s' where "service_step ev s = Inr s'" "service_wf s'" "advances (is_reply msg) s s'"
      using handleClientMessage_advances [OF wf, of msg random now] assms(2) TakeResponse by (auto simp: event_ok_def)
    moreover have "service_inv (evs @ [ev]) s'"
      by (rule advance [OF calculation(3,2)]) (auto simp: TakeResponse request_id_def is_reply_def is_error_def reply_for_def)
    ultimately show ?thesis by blast
  next
    case (TakeRemove cid)
    have "service_wf (removeCorrelationID cid s)" by (rule service_wf_remove [OF wf])
    with assms(1) TakeRemove show ?thesis
      by (auto simp: service_inv_def removeCorrelationID_def request_id_def removed_ids_def reply_for_def)
  next
    case (TakeGroupLost gid err order now)
    obtain s' where "service_step ev s = Inr s'" "service_wf s'" "advances is_error s s'"
      using handleGroupLost_advances [OF wf, of order now gid err] TakeGroupLost by auto
    moreover have "service_inv (evs @ [ev]) s'"
      by (rule advance [OF calculation(3,2)]) (auto simp: TakeGroupLost request_id_def is_error_def reply_for_def)
    ultimately show ?thesis by blast
  next
    case CallStop
    have "service_inv (evs @ [ev]) (service_Stop s)"
      by (rule advance [of "\<lambda>_ _. False"]) (use wf in \<open>auto simp: CallStop request_id_def service_Stop_def advances_def service_wf_def\<close>)
    with CallStop show ?thesis by simp
  next
    case (CallPause paused)
    have "service_inv (evs @ [ev]) (service_Pause paused s)"
      by (rule advance [of "\<lambda>_ _. False"]) (use wf in \<open>auto simp: CallPause request_id_def service_Pause_def advances_def service_wf_def\<close>)
    with CallPause show ?thesis by simp
  next
    case (WorkerRound queue)
    have "stripe_wf (snd (worker_round queue (is_executor s)))"
      using wf stripe_wf_round [of "is_executor s" queue] by (simp add: service_wf_def prod_eq_iff)
    then have "service_inv (evs @ [ev]) (s\<lparr>is_executor := snd (worker_round queue (is_executor s))\<rparr>)"
      by (intro advance [of "\<lambda>_ _. False"]) (use wf in \<open>auto simp: WorkerRound request_id_def advances_def service_wf_def\<close>)
    with WorkerRound show ?thesis by simp
  qed
qed

lemma service_run_inv:
  "service_inv evs s \<Longrightarrow> list_all event_ok later \<Longrightarrow> \<exists>s'. for_each service_step later s = Inr s' \<and> service_inv (evs @ later) s'"
proof (induction later arbitrary: evs s)
  case (Cons ev later)
  then obtain s' where "service_step ev s = Inr s'" "service_inv (evs @ [ev]) s'"
    using service_step_inv [of evs s ev] by auto
  with Cons.IH [of "evs @ [ev]" s'] Cons.prems show ?case by auto
qed simp

lemma service_inv_start: "stripe_wf ex \<Longrightarrow> service_inv [] (NewService ex)"
  by (simp add: service_inv_def service_wf_def NewService_def)

text \<open>Closing what is pending.\<close>

lemma close_all:
  assumes "distinct (map snd ms)" "\<forall>(cid, r) \<in> set ms. r < length (is_store s) \<and> \<not> inv_closed (is_store s ! r)"
  shows "\<exists>s'. for_each (\<lambda>(cid, r) s. bind_go (inv_Close (is_store s ! r)) (\<lambda>inv. Inr (store_update r inv s))) ms s = Inr s'
    \<and> length (is_store s') = length (is_store s)
    \<and> (\<forall>r < length (is_store s). is_store s' ! r = (if r \<in> snd ` set ms then (is_store s ! r)\<lparr>inv_closed := True\<rparr> else is_store s ! r))"
  using assms
proof (induction ms arbitrary: s)
  case (Cons m ms)
  obtain cid r where m: "m = (cid, r)" by (cases m)
  let ?t = "store_update r ((is_store s ! r)\<lparr>inv_closed := True\<rparr>) s"
  have r: "r < length (is_store s)" "\<not> inv_closed (is_store s ! r)" "r \<notin> snd ` set ms" using Cons.prems m by auto
  have "\<forall>(cid, q) \<in> set ms. q < length (is_store ?t) \<and> \<not> inv_closed (is_store ?t ! q)"
  proof clarify
    fix cid q assume q: "(cid, q) \<in> set ms"
    with r(3) have "q \<noteq> r" by force
    with q Cons.prems(2) show "q < length (is_store ?t) \<and> \<not> inv_closed (is_store ?t ! q)"
      by (auto simp: store_update_def)
  qed
  with Cons.IH [of ?t] Cons.prems(1) obtain s' where
    "for_each (\<lambda>(cid, r) s. bind_go (inv_Close (is_store s ! r)) (\<lambda>inv. Inr (store_update r inv s))) ms ?t = Inr s'"
    "length (is_store s') = length (is_store ?t)"
    "\<forall>q < length (is_store ?t). is_store s' ! q = (if q \<in> snd ` set ms then (is_store ?t ! q)\<lparr>inv_closed := True\<rparr> else is_store ?t ! q)"
    by auto
  with r m show ?case
    by (auto simp: inv_Close_def store_update_def nth_list_update)
qed simp

lemma pending_refs_distinct:
  assumes "service_wf s"
  shows "distinct (map snd (is_invocations s))"
proof -
  have key: "inv_cid (is_store s ! snd x) = Inr (fst x)" if "x \<in> set (is_invocations s)" for x
    using that assms unfolding service_wf_def by (metis map_of_is_SomeI prod.collapse)
  have "inj_on snd (set (is_invocations s))"
    by (rule inj_onI) (use key in \<open>metis Inr_inject prod_eq_iff\<close>)
  moreover have "distinct (is_invocations s)" using assms by (simp add: service_wf_def distinct_map)
  ultimately show ?thesis by (simp add: distinct_map)
qed

lemma close_invocations_all:
  assumes "service_wf s"
  shows "\<exists>s'. close_invocations s = Inr s' \<and> length (is_store s') = length (is_store s)
    \<and> (\<forall>r < length (is_store s). inv_response (is_store s' ! r) = inv_response (is_store s ! r)
        \<and> (inv_closed (is_store s' ! r) \<longleftrightarrow> (\<exists>cid. map_of (is_invocations s) cid = Some r)))"
proof -
  have wf: "gomap_wf (is_invocations s)" "\<And>r. r < length (is_store s) \<Longrightarrow> \<not> inv_closed (is_store s ! r)"
    using assms by (auto simp: service_wf_def impl_ok_def)
  have "\<forall>(cid, r) \<in> set (is_invocations s). r < length (is_store s) \<and> \<not> inv_closed (is_store s ! r)"
    using assms wf by (auto simp: service_wf_def dest: map_of_is_SomeI [OF wf(1)])
  moreover have "r \<in> snd ` set (is_invocations s) \<longleftrightarrow> (\<exists>cid. map_of (is_invocations s) cid = Some r)" for r
    using wf(1) by (force simp: image_iff)
  ultimately show ?thesis
    using close_all [OF pending_refs_distinct [OF assms]] wf(2) by (fastforce simp: close_invocations_def)
qed

lemma advances_response:
  "advances P s s' \<Longrightarrow> r < length (is_store s) \<Longrightarrow> inv_completed (is_store s ! r) \<Longrightarrow>
   r < length (is_store s') \<and> inv_response (is_store s' ! r) = inv_response (is_store s ! r)"
  by (auto simp: advances_def)

lemma completed_stays:
  assumes "service_inv evs s" "event_ok ev" "service_step ev s = Inr s'" "r < length (is_store s)" "inv_response (is_store s ! r) = Some m"
  shows "r < length (is_store s') \<and> inv_response (is_store s' ! r) = Some m"
proof -
  have wf: "service_wf s" and fin: "inv_completed (is_store s ! r)"
    using assms by (auto simp: service_inv_def service_wf_def impl_ok_def)
  have by_advance: ?thesis if "advances P s s'" for P using advances_response [OF that] assms(4,5) fin by simp
  show ?thesis
  proof (cases ev)
    case (TakeRequest i answer now)
    with assms(2) obtain cid where cid: "impl_ok i" "inv_cid i = Inr cid"
      using header_reads(1) by (auto simp: event_ok_def impl_ok_def inv_cid_def)
    obtain i' where i': "registerInvocation (length (is_store s)) (s\<lparr>is_store := is_store s @ [i]\<rparr>) =
        Inr (s\<lparr>is_store := is_store s @ [i'], is_invocations := AList.update cid (length (is_store s)) (is_invocations s)\<rparr>)"
      "impl_ok i'" "inv_cid i' = Inr cid"
      using register_new [OF wf cid] by metis
    let ?t = "s\<lparr>is_store := is_store s @ [i'], is_invocations := AList.update cid (length (is_store s)) (is_invocations s)\<rparr>"
    have t: "service_wf ?t" by (rule service_wf_new [OF wf i'(2,3)])
    show ?thesis
    proof (cases answer)
      case (Inl err)
      then have "advances is_error ?t s'"
        using handleError_advances [OF t, of now cid err] assms(3) i' TakeRequest by (auto simp: sendInvocation_def inv_cid_def)
      from advances_response [OF this, of r] assms(4,5) fin show ?thesis by (simp add: nth_append)
    next
      case (Inr gid)
      then show ?thesis using assms(3,4,5) i' TakeRequest
        by (auto simp: sendInvocation_def inv_cid_def store_update_def nth_append nth_list_update)
    qed
  next
    case (TakeResponse msg random now)
    with handleClientMessage_advances [OF wf, of msg random now] assms(2,3) by_advance show ?thesis by (auto simp: event_ok_def)
  next
    case (TakeGroupLost gid err order now)
    with handleGroupLost_advances [OF wf, of order now gid err] assms(3) by_advance show ?thesis by auto
  qed (use assms in \<open>auto simp: removeCorrelationID_def service_Stop_def service_Pause_def\<close>)
qed

lemma completed_stays_run:
  assumes "service_inv evs s" "list_all event_ok later" "for_each service_step later s = Inr s'"
    "r < length (is_store s)" "inv_response (is_store s ! r) = Some m"
  shows "inv_response (is_store s' ! r) = Some m"
  using assms
proof (induction later arbitrary: evs s)
  case (Cons ev later)
  then obtain t where t: "service_step ev s = Inr t" "service_inv (evs @ [ev]) t" "for_each service_step later t = Inr s'"
    using service_step_inv [of evs s ev] by auto
  with completed_stays [OF Cons.prems(1) _ t(1)] Cons.prems Cons.IH [OF t(2)] show ?case by simp
qed simp

lemma Get_returns:
  "inv_response i \<noteq> None \<or> inv_closed i \<Longrightarrow> GetWithContext ctx first i \<noteq> None"
  by (cases ctx; cases "inv_response i") (auto simp: GetWithContext_def Let_def)

lemma nth_drop_distinct: "distinct xs \<Longrightarrow> r < length xs \<Longrightarrow> xs ! r \<notin> set (drop (Suc r) xs)"
  by (metis Cons_nth_drop_Suc distinct.simps(2) distinct_drop)

text \<open>A request with a header and correlation ID, for the examples.\<close>

definition message_of :: "i64 \<Rightarrow> client_message" where
  "message_of cid = \<lparr>cm_Err = None, cm_Frames = [NewFrame (replicate 4 0 @ le_bytes 8 cid @ replicate 4 0)], cm_Retryable = False\<rparr>"

lemma message_of_ok:
  "header_ok (message_of cid)" "CorrelationID (message_of cid) = Inr cid"
  "HasEventFlag (message_of cid) = Inr False" "HasBackupEventFlag (message_of cid) = Inr False"
  by (simp_all add: message_of_def header_ok_def NewFrame_def CorrelationID_def header_get_def go_index_def get_uint_def header_offsets
      HasEventFlag_def HasBackupEventFlag_def first_frame_def frame_HasEventFlag_def frame_HasBackupEventFlag_def IsFlagSet_def
      IsEventFlag_def BackupEventFlag_def bo_word.simps)

section \<open>Properties\<close>





end
