(* ===== verification/Invoker.thy ===== *)
theory Invoker
  imports Invocation
begin

text \<open>
  The invoker (\<^verbatim>\<open>internal/client/invoker.go\<close>): every operation of the client runs through its circuit
  breaker, each attempt a new invocation handed to the service. The theory joins the error a closed
  connection publishes, the service that delivers it, the invocation that judges it and the breaker
  that decides on another attempt.
\<close>

section \<open>The invoker\<close>

definition NewInvoker :: "circuit_breaker go" where
  "NewInvoker = NewCircuitBreaker [OptMaxRetries (2 ^ 31 - 1)]"

text \<open>
  An attempt of \<open>invokeOnConnection\<close>, \<open>InvokeOnPartition\<close> and \<open>invokeOnRandomTarget\<close>: send the new
  invocation, and wait for its result if it was sent.
\<close>

definition invoke_attempt :: "go_error option \<Rightarrow> go_error + client_message \<Rightarrow> client_message observation" where
  "invoke_attempt sent got = HandlerReturns
     (case sent of
        Some err \<Rightarrow> (None, Some err)
      | None \<Rightarrow> (case got of Inl err \<Rightarrow> (None, Some err) | Inr m \<Rightarrow> (Some m, None)))"

definition TryInvoke ::
  "(nat \<Rightarrow> client_message observation) \<Rightarrow> circuit_breaker \<Rightarrow> ((go_error + client_message) \<times> circuit_breaker) go" where
  "TryInvoke world c =
     (case TryContext world c of
        ((res, Some err), c) \<Rightarrow> Inr (Inl err, c)
      | ((Some m, None), c) \<Rightarrow> Inr (Inr m, c)
      | ((None, None), c) \<Rightarrow> Inl TypeAssertionFailed)"

text \<open>The error of the event that a closed connection publishes for its invocations; an error is shown by its text.\<close>

definition close_groupErr :: "(go_error \<Rightarrow> gostring) \<Rightarrow> go_error option \<Rightarrow> go_error" where
  "close_groupErr text closeErr =
     (case closeErr of
        None \<Rightarrow> NewTargetDisconnectedError [] None
      | Some err \<Rightarrow> NewTargetDisconnectedError (text err) (Some err))"

section \<open>Facts\<close>

lemma try_loop_stops:
  assumes "\<not> retried (world j)" "\<And>i. i \<le> j \<Longrightarrow> world' i = world i" "a \<le> j"
  shows "try_loop k world' a ret = try_loop k world a ret"
  using assms(3)
proof (induction k arbitrary: a ret)
  case (Suc k)
  show ?case
  proof (cases "a = j")
    case True
    with assms show ?thesis by (simp add: try_loop_step del: try_loop.simps(2))
  next
    case False
    with Suc assms(2) [of a] show ?thesis by (simp add: try_loop_step del: try_loop.simps(2))
  qed
qed simp

lemma TryContext_stops:
  assumes "\<not> retried (world j)" "\<And>i. i \<le> j \<Longrightarrow> world' i = world i"
  shows "TryContext world' c = TryContext world c"
  using try_loop_stops [of world j world' 0] assms by (simp add: TryContext_def cb_try_def)

text \<open>An error that an invocation may not retry reaches the breaker marked, or as an error of the context.\<close>

lemma unwrap_not_retried:
  assumes "cm_Err m = Some err" "\<not> Impl_CanRetry i err"
  obtains err' where "unwrapResponse i m = Inl err'" "errors_As_NonRetryable err' \<noteq> None"
proof -
  show ?thesis
  proof (cases "\<exists>e p. err = NonRetryable e p")
    case True
    with assms show ?thesis by (intro that [of err]) (auto simp: unwrapResponse_def)
  next
    case False
    with assms show ?thesis
      by (intro that [of "WrapNonRetryableError err"]) (auto simp: unwrapResponse_def WrapNonRetryableError_def split: go_error.splits)
  qed
qed

lemma marked_not_retried: "errors_As_NonRetryable err \<noteq> None \<Longrightarrow> \<not> retried (invoke_attempt None (Inl err))"
  by (simp add: retried_def invoke_attempt_def)

text \<open>The loss of a connection, when its cause is neither an I/O error of the client nor an inactive instance.\<close>

definition plain_cause :: "go_error option \<Rightarrow> bool" where
  "plain_cause closeErr = (case closeErr of
     None \<Rightarrow> True
   | Some w \<Rightarrow> \<not> errors_Is w (Sentinel ErrIO) \<and> \<not> errors_Is w (Sentinel ErrHazelcastInstanceNotActive))"

lemma groupErr_not_retryable:
  assumes "plain_cause closeErr" "\<not> cm_Retryable (inv_request i)" "\<not> inv_RedoOperation i"
  shows "\<not> Impl_CanRetry i (close_groupErr text closeErr)" "\<not> Impl_CanRetry i (WrapNonRetryableError (close_groupErr text closeErr))"
  using assms
  by (auto simp: Impl_CanRetry_def MaybeCanRetry_def close_groupErr_def NewTargetDisconnectedError_def plain_cause_def IsRetryable_def
      ClientError_IsRetryable_def is_RetryableError_def retryable_sentinels_def WrapNonRetryableError_def split: option.splits)

text \<open>The loss of a connection completes the invocations of its group and leaves the others alone.\<close>

lemma lose_keeps:
  assumes "lose_entry now gid err cid' s = Inr s'" "inv_completed (is_store s ! r) \<or> map_of (is_invocations s) cid' \<noteq> Some r"
  shows "is_store s' ! r = is_store s ! r"
  using assms
  by (auto simp: lose_entry_def handleError_def unregisterInvocation_def Complete_def store_update_def removeCorrelationID_def Let_def
      elim!: bind_goE split: option.splits if_splits) (metis nth_list_update_neq)+

lemma lose_keeps_other:
  assumes "lose_entry now gid err cid' s = Inr s'" "cid' \<noteq> cid"
  shows "map_of (is_invocations s') cid = map_of (is_invocations s) cid"
  using assms
  by (auto simp: lose_entry_def handleError_def unregisterInvocation_def store_update_def removeCorrelationID_def Let_def
      elim!: bind_goE split: option.splits if_splits)

definition lost_message :: "int \<Rightarrow> go_error \<Rightarrow> impl \<Rightarrow> client_message" where
  "lost_message now err i =
     \<lparr>cm_Err = Some (if inv_deadline i < now then WrapNonRetryableError err else err), cm_Frames = [], cm_Retryable = False\<rparr>"

lemma lose_completed:
  assumes "service_wf s" "inv_completed (is_store s ! r)"
  shows "\<exists>s'. for_each (lose_entry now gid err) order s = Inr s' \<and> is_store s' ! r = is_store s ! r"
  using assms
proof (induction order arbitrary: s)
  case (Cons cid order)
  from lose_entry_advances [OF Cons.prems(1)] obtain t where t: "lose_entry now gid err cid s = Inr t" "service_wf t" by blast
  with lose_keeps [OF t(1)] Cons.prems(2) Cons.IH [OF t(2)] show ?case by simp
qed simp

lemma lose_hits:
  assumes "service_wf s" "map_of (is_invocations s) cid = Some r" "inv_group (is_store s ! r) = gid"
    "HasEventFlag (inv_request (is_store s ! r)) = Inr False" "\<not> inv_completed (is_store s ! r)"
  shows "\<exists>s'. lose_entry now gid err cid s = Inr s' \<and> service_wf s' \<and>
    is_store s' ! r = (is_store s ! r)\<lparr>inv_completed := True, inv_response := Some (lost_message now err (is_store s ! r))\<rparr>"
proof -
  have "r < length (is_store s)" "\<not> inv_closed (is_store s ! r)" using assms(1,2) by (auto simp: service_wf_def impl_ok_def)
  with assms lose_entry_advances [OF assms(1), of now gid err cid] show ?thesis
    by (auto simp: lose_entry_def handleError_def unregisterInvocation_def Complete_def store_update_def removeCorrelationID_def Let_def
        lost_message_def)
qed

lemma lose_all:
  assumes "service_wf s" "map_of (is_invocations s) cid = Some r" "inv_group (is_store s ! r) = gid"
    "HasEventFlag (inv_request (is_store s ! r)) = Inr False" "\<not> inv_completed (is_store s ! r)" "cid \<in> set order"
  shows "\<exists>s'. for_each (lose_entry now gid err) order s = Inr s' \<and>
    is_store s' ! r = (is_store s ! r)\<lparr>inv_completed := True, inv_response := Some (lost_message now err (is_store s ! r))\<rparr>"
  using assms
proof (induction order arbitrary: s)
  case (Cons cid' order)
  show ?case
  proof (cases "cid' = cid")
    case True
    from lose_hits [OF Cons.prems(1-5)] obtain t where "lose_entry now gid err cid s = Inr t" "service_wf t"
      "is_store t ! r = (is_store s ! r)\<lparr>inv_completed := True, inv_response := Some (lost_message now err (is_store s ! r))\<rparr>" by blast
    with lose_completed [of t r now gid err order] True show ?thesis by simp
  next
    case False
    from lose_entry_advances [OF Cons.prems(1)] obtain t where t: "lose_entry now gid err cid' s = Inr t" "service_wf t" by blast
    have "map_of (is_invocations s) cid' \<noteq> Some r"
      using Cons.prems(1,2) False unfolding service_wf_def by (metis Inr_inject)
    with lose_keeps [OF t(1), of r] have "is_store t ! r = is_store s ! r" by blast
    with lose_keeps_other [OF t(1) False] Cons.IH [OF t(2)] Cons.prems False t(1) show ?thesis by simp
  qed
qed simp

lemma lost_run:
  assumes "service_wf s" "is_running s" "impl_ok i" "\<not> inv_completed i" "inv_cid i = Inr cid"
    "HasEventFlag (inv_request i) = Inr False" "cid \<in> set order"
  shows "\<exists>s' i'. for_each service_step [TakeRequest i (Inr gid) now, TakeGroupLost gid err order later] s = Inr s'
    \<and> is_store s' ! length (is_store s) = i' \<and> inv_response i' = Some (lost_message later err i')
    \<and> cm_Retryable (inv_request i') = cm_Retryable (inv_request i) \<and> inv_RedoOperation i' = inv_RedoOperation i"
proof -
  let ?r = "length (is_store s)"
  obtain i' where i': "registerInvocation ?r (s\<lparr>is_store := is_store s @ [i]\<rparr>) =
      Inr (s\<lparr>is_store := is_store s @ [i'], is_invocations := AList.update cid ?r (is_invocations s)\<rparr>)"
    "impl_ok i'" "inv_cid i' = Inr cid" "inv_completed i' = inv_completed i"
    "HasEventFlag (inv_request i') = HasEventFlag (inv_request i)" "cm_Retryable (inv_request i') = cm_Retryable (inv_request i)"
    "inv_RedoOperation i' = inv_RedoOperation i"
    using register_new [OF assms(1,3,5)] by metis
  let ?t = "s\<lparr>is_store := is_store s @ [SetGroup gid i'], is_invocations := AList.update cid ?r (is_invocations s)\<rparr>"
  have t: "service_step (TakeRequest i (Inr gid) now) s = Inr ?t"
    using i'(1,3) by (simp add: sendInvocation_def store_update_def inv_cid_def)
  have "impl_ok (SetGroup gid i')" "inv_cid (SetGroup gid i') = Inr cid" using i'(2,3) by (simp_all add: SetGroup_def impl_ok_def inv_cid_def)
  then have wf: "service_wf ?t" by (rule service_wf_new [OF assms(1)])
  obtain s' where "for_each (lose_entry later gid err) order ?t = Inr s'" "is_store s' ! ?r =
      (is_store ?t ! ?r)\<lparr>inv_completed := True, inv_response := Some (lost_message later err (is_store ?t ! ?r))\<rparr>"
    using lose_all [OF wf, of cid ?r gid order later err] i' assms by (auto simp: SetGroup_def)
  with t i' assms(2) show ?thesis
    by (auto simp: handleGroupLost_def SetGroup_def lost_message_def)
qed

section \<open>Properties\<close>



text \<open>
  C39: the rule that a request bound to a connection is not repeated after an I/O error has no effect:
  \<open>ConnectionBound_CanRetry\<close> refuses it, but the error reaches the breaker as one to retry, since the
  method that consults \<open>CanRetry\<close> is that of the embedded \<^verbatim>\<open>Impl\<close>.
\<close>

theorem bound_io_error_retried:
  assumes "inv_response i = Some \<lparr>cm_Err = Some (NewIOError msg None), cm_Frames = fs, cm_Retryable = b\<rparr>"
  shows "\<not> ConnectionBound_CanRetry i (NewIOError msg None)
    \<and> GetWithContext None first i = Some (Inl (NewIOError msg None))
    \<and> retried (invoke_attempt None (Inl (NewIOError msg None)))"
  using assms
  by (simp add: ConnectionBound_CanRetry_def GetWithContext_def unwrapResponse_def Impl_CanRetry_def MaybeCanRetry_def NewIOError_def
      retried_def invoke_attempt_def contextErr_def)

theorem bound_io_error_retried_witness:
  "\<not> ConnectionBound_CanRetry ((NewImpl (message_of 7) (-1) [] 10 False)\<lparr>inv_completed := True,
       inv_response := Some \<lparr>cm_Err = Some (NewIOError [] None), cm_Frames = [], cm_Retryable = False\<rparr>\<rparr>) (NewIOError [] None)
     \<and> retried (invoke_attempt None (Inl (NewIOError [] None)))"
  using bound_io_error_retried [of "(NewImpl (message_of 7) (-1) [] 10 False)\<lparr>inv_completed := True,
       inv_response := Some \<lparr>cm_Err = Some (NewIOError [] None), cm_Frames = [], cm_Retryable = False\<rparr>\<rparr>" "[]" "[]" False True]
  by simp

end
