(* ===== verification/Members.thy ===== *)
theory Members
  imports MemberInfo Hzerrors
begin

text \<open>
  The member list of the cluster service (\<^verbatim>\<open>internal/cluster/cluster_service.go\<close>): the view of the
  cluster that versioned member lists update, the version of the larger group of members, and the
  member for SQL. The address translator is an interface and hence an argument; the two default
  translators are modelled. Go visits a map in any order, which here is the order of the list; only
  the order of the removed members and the choice of the SQL member depend on it.
\<close>

section \<open>Addresses\<close>

type_synonym translator = "member_info \<Rightarrow> go_error + address"

definition default_TranslateMember :: translator where
  "default_TranslateMember member = Inr (mi_Address member)"

definition public_TranslateMember :: translator where
  "public_TranslateMember member =
     (case PublicAddress member of (addr, True) \<Rightarrow> Inr addr | (_, False) \<Rightarrow> Inl (Sentinel ErrAddressNotFound))"

text \<open>The loop keeps the addresses seen so far and those returned, which are the same.\<close>

fun unique_loop :: "address list \<Rightarrow> address list \<Rightarrow> address list" where
  "unique_loop [] uniqueAddrs = uniqueAddrs"
| "unique_loop (a # addrs) uniqueAddrs =
     (if a \<in> set uniqueAddrs then unique_loop addrs uniqueAddrs else unique_loop addrs (uniqueAddrs @ [a]))"

definition UniqueAddrs :: "go_error option \<Rightarrow> go_error + address list \<Rightarrow> go_error + address list" where
  "UniqueAddrs ctxErr addresses =
     (case ctxErr of
        Some e \<Rightarrow> Inl e
      | None \<Rightarrow> (case addresses of Inl e \<Rightarrow> Inl e | Inr addrs \<Rightarrow> Inr (unique_loop addrs [])))"

section \<open>The larger group\<close>

record version_groups =
  vg_vs0 :: "16 word"
  vg_vs1 :: "16 word"
  vg_count0 :: nat
  vg_count1 :: nat
  vg_next :: nat

definition group_step :: "member_info \<Rightarrow> version_groups \<Rightarrow> go_error + version_groups" where
  "group_step mem g =
     (if mi_LiteMember mem then Inr g
      else let v = MajorMinor (mi_Version mem)
           in if v = vg_vs0 g then Inr (g\<lparr>vg_count0 := vg_count0 g + 1\<rparr>)
              else if v = vg_vs1 g then Inr (g\<lparr>vg_count1 := vg_count1 g + 1\<rparr>)
              else if vg_next g = 0 then Inr (g\<lparr>vg_vs0 := v, vg_count0 := vg_count0 g + 1, vg_next := 1\<rparr>)
              else if vg_next g = 1 then Inr (g\<lparr>vg_vs1 := v, vg_count1 := vg_count1 g + 1, vg_next := 2\<rparr>)
              else Inl (OtherError (gostr ''more than 2 distinct member versions found'')))"

definition LargerGroupMajorMinorVersion :: "member_info list \<Rightarrow> go_error + 16 word" where
  "LargerGroupMajorMinorVersion members =
     bind_go (for_each group_step members \<lparr>vg_vs0 = 0, vg_vs1 = 0, vg_count0 = 0, vg_count1 = 0, vg_next = 0\<rparr>) (\<lambda>g.
       Inr (if vg_count0 g = 0 then 0
            else if vg_count1 g < vg_count0 g then vg_vs0 g
            else if vg_count0 g < vg_count1 g then vg_vs1 g
            else if vg_vs1 g < vg_vs0 g then vg_vs0 g else vg_vs1 g))"

section \<open>The members map\<close>

record members_map =
  mm_members :: "(uuid, member_info) gomap"
  mm_addrToMemberUUID :: "(address, uuid) gomap"
  mm_orderedMembers :: "member_info list option"
  mm_majorityMajorMinor :: "16 word"
  mm_version :: i32

definition mm_reset :: "members_map \<Rightarrow> members_map" where
  "mm_reset m = m\<lparr>mm_members := [], mm_addrToMemberUUID := [], mm_version := -1\<rparr>"

definition newMembersMap :: members_map where
  "newMembersMap = mm_reset \<lparr>mm_members = [], mm_addrToMemberUUID = [], mm_orderedMembers = None,
     mm_majorityMajorMinor = 0, mm_version = 0\<rparr>"

definition addMember :: "translator \<Rightarrow> member_info \<Rightarrow> members_map \<Rightarrow> bool \<times> members_map" where
  "addMember translate member m =
     (let uid = mi_UUID member;
          addr = (case translate member of Inr a \<Rightarrow> a | Inl _ \<Rightarrow> mi_Address member)
      in if map_of (mm_members m) uid \<noteq> None then (False, m)
         else let members = (case map_of (mm_addrToMemberUUID m) addr of
                               Some existingUUID \<Rightarrow> AList.delete existingUUID (mm_members m)
                             | None \<Rightarrow> mm_members m)
              in (True, m\<lparr>mm_members := AList.update uid member members,
                          mm_addrToMemberUUID := AList.update addr uid (mm_addrToMemberUUID m)\<rparr>))"

definition removeMember :: "member_info \<Rightarrow> members_map \<Rightarrow> members_map" where
  "removeMember member m = m\<lparr>mm_members := AList.delete (mi_UUID member) (mm_members m),
     mm_addrToMemberUUID := AList.delete (mi_Address member) (mm_addrToMemberUUID m)\<rparr>"

primrec add_members :: "translator \<Rightarrow> member_info list \<Rightarrow> members_map \<Rightarrow> member_info list \<times> members_map" where
  "add_members translate [] m = ([], m)"
| "add_members translate (member # members) m =
     (let (ok, m) = addMember translate member m; (added, m) = add_members translate members m
      in (if ok then member # added else added, m))"

primrec remove_members :: "uuid list \<Rightarrow> member_info list \<Rightarrow> members_map \<Rightarrow> member_info list \<times> members_map" where
  "remove_members newUUIDs [] m = ([], m)"
| "remove_members newUUIDs (member # members) m =
     (if mi_UUID member \<notin> set newUUIDs
      then let (removed, m) = remove_members newUUIDs members (removeMember member m) in (member # removed, m)
      else remove_members newUUIDs members m)"

definition mm_Update ::
  "translator \<Rightarrow> member_info list \<Rightarrow> i32 \<Rightarrow> members_map \<Rightarrow> (member_info list \<times> member_info list) \<times> members_map" where
  "mm_Update translate members version m =
     (if sint (mm_version m) < sint version
      then let m = m\<lparr>mm_version := version, mm_orderedMembers := Some members\<rparr>;
               (added, m) = add_members translate members m;
               (removed, m) = remove_members (map mi_UUID members) (map snd (mm_members m)) m
           in ((added, removed),
               if added \<noteq> [] \<or> removed \<noteq> []
               then m\<lparr>mm_majorityMajorMinor := (case LargerGroupMajorMinorVersion members of Inr v \<Rightarrow> v | Inl _ \<Rightarrow> 0)\<rparr>
               else m)
      else (([], []), m))"

definition mm_Find :: "uuid \<Rightarrow> members_map \<Rightarrow> member_info option" where
  "mm_Find uid m = map_of (mm_members m) uid"

definition OrderedMembers :: "members_map \<Rightarrow> member_info list go" where
  "OrderedMembers m = (case mm_orderedMembers m of None \<Rightarrow> Inl TypeAssertionFailed | Some ms \<Rightarrow> Inr ms)"

definition SQLMember :: "members_map \<Rightarrow> member_info option" where
  "SQLMember m =
     (if mm_majorityMajorMinor m = 0 then None
      else find (\<lambda>mem. \<not> mi_LiteMember mem \<and> MajorMinor (mi_Version mem) = mm_majorityMajorMinor m) (map snd (mm_members m)))"

section \<open>Facts\<close>

text \<open>The versions of the data members, and how often each occurs.\<close>

definition data_versions :: "member_info list \<Rightarrow> 16 word list" where
  "data_versions members = map (\<lambda>m. MajorMinor (mi_Version m)) (filter (\<lambda>m. \<not> mi_LiteMember m) members)"

definition groups_ok :: "16 word list \<Rightarrow> version_groups \<Rightarrow> bool" where
  "groups_ok vs g \<longleftrightarrow> vg_next g \<le> 2 \<and> vg_count0 g = (if vg_next g = 0 then 0 else count_list vs (vg_vs0 g))
     \<and> vg_count1 g = (if vg_next g \<le> 1 then 0 else count_list vs (vg_vs1 g))
     \<and> (vg_next g = 0 \<longrightarrow> vs = [] \<and> vg_vs0 g = 0) \<and> (vg_next g \<le> 1 \<longrightarrow> vg_vs1 g = 0)
     \<and> set vs = set (take (vg_next g) [vg_vs0 g, vg_vs1 g]) \<and> distinct (take (vg_next g) [vg_vs0 g, vg_vs1 g])"

lemma count_list_snoc: "count_list (xs @ [x]) y = count_list xs y + (if x = y then 1 else 0)"
  by simp

lemma group_step_ok:
  assumes "groups_ok vs g" "\<not> mi_LiteMember mem" "0 \<notin> set (vs @ [MajorMinor (mi_Version mem)])"
  shows "case group_step mem g of
      Inr g' \<Rightarrow> groups_ok (vs @ [MajorMinor (mi_Version mem)]) g'
    | Inl _ \<Rightarrow> 2 < card (set (vs @ [MajorMinor (mi_Version mem)]))"
proof -
  let ?v = "MajorMinor (mi_Version mem)"
  have v: "?v \<noteq> 0" "0 \<notin> set vs" using assms(3) by auto
  have "vg_next g \<le> 2" using assms(1) by (simp add: groups_ok_def)
  then consider "vg_next g = 0" | "vg_next g = 1" | "vg_next g = 2" by linarith
  then show ?thesis
  proof cases
    case 1
    with assms v show ?thesis by (auto simp: groups_ok_def group_step_def Let_def)
  next
    case 2
    with assms v show ?thesis
      by (auto simp: groups_ok_def group_step_def Let_def numeral_2_eq_2)
  next
    case 3
    with assms v show ?thesis
      by (auto simp: groups_ok_def group_step_def Let_def numeral_2_eq_2)
  qed
qed

lemma group_loop_ok:
  "groups_ok vs g \<Longrightarrow> 0 \<notin> set (vs @ data_versions members) \<Longrightarrow>
   case for_each group_step members g of
     Inr g' \<Rightarrow> groups_ok (vs @ data_versions members) g' | Inl _ \<Rightarrow> 2 < card (set (vs @ data_versions members))"
proof (induction members arbitrary: vs g)
  case (Cons mem members)
  show ?case
  proof (cases "mi_LiteMember mem")
    case True
    have e: "group_step mem g = Inr g" "data_versions (mem # members) = data_versions members"
      using True by (simp_all add: group_step_def data_versions_def)
    show ?thesis using Cons.IH [OF Cons.prems(1)] Cons.prems(2) e(1) unfolding e(2) by simp
  next
    case False
    let ?vs = "vs @ [MajorMinor (mi_Version mem)]"
    have vs: "?vs @ data_versions members = vs @ data_versions (mem # members)" using False by (simp add: data_versions_def)
    have step: "case group_step mem g of Inr g' \<Rightarrow> groups_ok ?vs g' | Inl _ \<Rightarrow> 2 < card (set ?vs)"
      using group_step_ok [OF Cons.prems(1) False] Cons.prems(2) vs by (metis UnCI set_append)
    show ?thesis
    proof (cases "group_step mem g")
      case (Inl e)
      have "card (set ?vs) \<le> card (set (?vs @ data_versions members))" by (rule card_mono) auto
      with Inl step vs show ?thesis by simp
    next
      case (Inr g')
      then show ?thesis using Cons.IH [of ?vs g'] step Cons.prems(2) unfolding vs [symmetric] by simp
    qed
  qed
qed (simp add: data_versions_def)

text \<open>The most frequent version, and the newer one of two equally frequent.\<close>

definition is_majority :: "16 word list \<Rightarrow> 16 word \<Rightarrow> bool" where
  "is_majority vs v \<longleftrightarrow> v \<in> set vs \<and> list_all (\<lambda>w. count_list vs w < count_list vs v \<or> count_list vs w = count_list vs v \<and> w \<le> v) vs"

lemma larger_group:
  assumes "0 \<notin> set (data_versions members)"
  shows "case LargerGroupMajorMinorVersion members of
      Inr v \<Rightarrow> (if data_versions members = [] then v = 0 else is_majority (data_versions members) v)
    | Inl _ \<Rightarrow> 2 < card (set (data_versions members))"
proof -
  let ?g = "\<lparr>vg_vs0 = 0, vg_vs1 = 0, vg_count0 = 0, vg_count1 = 0, vg_next = 0\<rparr>"
  have "groups_ok [] ?g" by (simp add: groups_ok_def)
  from group_loop_ok [OF this, of members] assms
  have l: "case for_each group_step members ?g of Inr g' \<Rightarrow> groups_ok (data_versions members) g' | Inl _ \<Rightarrow> 2 < card (set (data_versions members))"
    unfolding append_Nil by simp
  show ?thesis
  proof (cases "for_each group_step members ?g")
    case (Inl e)
    with l show ?thesis by (simp add: LargerGroupMajorMinorVersion_def)
  next
    case (Inr g)
    with l have g: "groups_ok (data_versions members) g" by simp
    then have "vg_next g \<le> 2" by (simp add: groups_ok_def)
    then consider "vg_next g = 0" | "vg_next g = 1" | "vg_next g = 2" by linarith
    then show ?thesis
    proof cases
      case 1
      with g Inr show ?thesis by (simp add: LargerGroupMajorMinorVersion_def groups_ok_def)
    next
      case 2
      with g Inr show ?thesis by (auto simp: LargerGroupMajorMinorVersion_def groups_ok_def is_majority_def list_all_iff count_list_0_iff)
    next
      case 3
      with g Inr show ?thesis
        by (auto simp: LargerGroupMajorMinorVersion_def groups_ok_def is_majority_def list_all_iff count_list_0_iff numeral_2_eq_2)
    qed
  qed
qed

text \<open>
  The view. Each member has one translated address, its \<open>home\<close>, and the table of addresses never names
  a member under another one.
\<close>

definition member_addr :: "translator \<Rightarrow> member_info \<Rightarrow> address" where
  "member_addr translate member = (case translate member of Inr a \<Rightarrow> a | Inl _ \<Rightarrow> mi_Address member)"

definition view_ok :: "(uuid \<Rightarrow> address) \<Rightarrow> members_map \<Rightarrow> bool" where
  "view_ok home m \<longleftrightarrow> gomap_wf (mm_members m)
     \<and> (\<forall>u x. map_of (mm_members m) u = Some x \<longrightarrow> mi_UUID x = u)
     \<and> (\<forall>a u. map_of (mm_addrToMemberUUID m) a = Some u \<longrightarrow> home u = a)"

definition list_ok :: "translator \<Rightarrow> (uuid \<Rightarrow> address) \<Rightarrow> member_info list \<Rightarrow> bool" where
  "list_ok translate home members \<longleftrightarrow> list_all (\<lambda>x. member_addr translate x = home (mi_UUID x)) members
     \<and> distinct (map mi_UUID members) \<and> distinct (map (\<lambda>x. home (mi_UUID x)) members)"

text \<open>What the table holds for a member of the list: what it knew already, or the new description.\<close>

definition known :: "members_map \<Rightarrow> member_info \<Rightarrow> member_info" where
  "known m x = (case map_of (mm_members m) (mi_UUID x) of Some y \<Rightarrow> y | None \<Rightarrow> x)"

lemma addMember_view:
  assumes "view_ok home m" "member_addr translate x = home (mi_UUID x)" "addMember translate x m = (ok, m')"
  shows "view_ok home m'" "ok \<longleftrightarrow> map_of (mm_members m) (mi_UUID x) = None"
    "map_of (mm_members m') (mi_UUID x) = Some (known m x)"
    "u \<noteq> mi_UUID x \<Longrightarrow> map_of (mm_members m') u \<noteq> None \<Longrightarrow> map_of (mm_members m) u \<noteq> None"
    "home u \<noteq> home (mi_UUID x) \<Longrightarrow> map_of (mm_members m') u = map_of (mm_members m) u"
    "mm_version m' = mm_version m" "mm_orderedMembers m' = mm_orderedMembers m"
  using assms
  by (auto simp: addMember_def view_ok_def member_addr_def [symmetric] Let_def known_def
      simp del: map_of_eq_Some_iff Some_eq_map_of_iff split: if_splits option.splits)

lemma add_members_view:
  assumes "view_ok home m" "list_ok translate home members"
  shows "view_ok home (snd (add_members translate members m))
    \<and> fst (add_members translate members m) = filter (\<lambda>x. map_of (mm_members m) (mi_UUID x) = None) members
    \<and> (\<forall>x \<in> set members. map_of (mm_members (snd (add_members translate members m))) (mi_UUID x) = Some (known m x))
    \<and> (\<forall>u. u \<notin> mi_UUID ` set members \<longrightarrow> map_of (mm_members (snd (add_members translate members m))) u \<noteq> None \<longrightarrow>
         map_of (mm_members m) u \<noteq> None)
    \<and> (\<forall>u. home u \<notin> home ` mi_UUID ` set members \<longrightarrow>
         map_of (mm_members (snd (add_members translate members m))) u = map_of (mm_members m) u)
    \<and> mm_version (snd (add_members translate members m)) = mm_version m
    \<and> mm_orderedMembers (snd (add_members translate members m)) = mm_orderedMembers m"
  using assms
proof (induction members arbitrary: m)
  case (Cons x members)
  obtain ok m' where m': "addMember translate x m = (ok, m')" by fastforce
  have x: "member_addr translate x = home (mi_UUID x)" "list_ok translate home members"
    "mi_UUID x \<notin> mi_UUID ` set members" "home (mi_UUID x) \<notin> home ` mi_UUID ` set members"
    using Cons.prems(2) by (auto simp: list_ok_def image_image)
  note a = addMember_view [OF Cons.prems(1) x(1) m']
  note ih = Cons.IH [OF a(1) x(2)]
  have same: "map_of (mm_members m') (mi_UUID y) = map_of (mm_members m) (mi_UUID y)" if "y \<in> set members" for y
    using a(5) [of "mi_UUID y"] x(4) that by (metis imageI)
  then have "filter (\<lambda>y. map_of (mm_members m') (mi_UUID y) = None) members = filter (\<lambda>y. map_of (mm_members m) (mi_UUID y) = None) members"
    by (intro filter_cong) simp_all
  moreover have "map_of (mm_members (snd (add_members translate members m'))) (mi_UUID x) = Some (known m x)"
    using ih x(4) a(3) by metis
  moreover have "known m' y = known m y" if "y \<in> set members" for y using same [OF that] by (simp add: known_def)
  ultimately show ?case using ih a m' by (auto simp: split_def Let_def)
qed simp

lemma remove_members_view:
  assumes "view_ok home m"
  shows "view_ok home (snd (remove_members news xs m))
    \<and> (\<forall>u. map_of (mm_members (snd (remove_members news xs m))) u
         = (if u \<in> mi_UUID ` set xs \<and> u \<notin> set news then None else map_of (mm_members m) u))
    \<and> fst (remove_members news xs m) = filter (\<lambda>x. mi_UUID x \<notin> set news) xs
    \<and> mm_version (snd (remove_members news xs m)) = mm_version m
    \<and> mm_orderedMembers (snd (remove_members news xs m)) = mm_orderedMembers m"
  using assms
proof (induction xs arbitrary: m)
  case (Cons x xs)
  have "view_ok home (removeMember x m)"
    using Cons.prems by (auto simp: view_ok_def removeMember_def simp del: map_of_eq_Some_iff)
  from Cons.IH [OF this] Cons.IH [OF Cons.prems] Cons.prems show ?case
    by (auto simp: split_def Let_def removeMember_def)
qed simp

lemma view_ok_start: "view_ok home newMembersMap"
  by (simp add: view_ok_def newMembersMap_def mm_reset_def)

lemma Update_view:
  assumes "view_ok home m" "list_ok translate home members" "sint (mm_version m) < sint version"
    "mm_Update translate members version m = ((added, removed), m')"
  shows "view_ok home m'" "mm_version m' = version" "mm_orderedMembers m' = Some members"
    "x \<in> set members \<Longrightarrow> map_of (mm_members m') (mi_UUID x) = Some (known m x)"
    "u \<notin> mi_UUID ` set members \<Longrightarrow> map_of (mm_members m') u = None"
    "added = filter (\<lambda>x. map_of (mm_members m) (mi_UUID x) = None) members"
    "y \<in> set removed \<Longrightarrow> mi_UUID y \<notin> mi_UUID ` set members"
    "added \<noteq> [] \<or> removed \<noteq> [] \<Longrightarrow>
      mm_majorityMajorMinor m' = (case LargerGroupMajorMinorVersion members of Inr v \<Rightarrow> v | Inl _ \<Rightarrow> 0)"
proof -
  let ?m0 = "m\<lparr>mm_version := version, mm_orderedMembers := Some members\<rparr>"
  have m0: "view_ok home ?m0" using assms(1) by (simp add: view_ok_def)
  obtain ad m1 where m1: "add_members translate members ?m0 = (ad, m1)" by fastforce
  note a = add_members_view [OF m0 assms(2), unfolded m1 fst_conv snd_conv]
  then have v1: "view_ok home m1" by blast
  obtain rem m2 where m2: "remove_members (map mi_UUID members) (map snd (mm_members m1)) m1 = (rem, m2)" by fastforce
  note r = remove_members_view [OF v1, of "map mi_UUID members" "map snd (mm_members m1)", unfolded m2 fst_conv snd_conv]
  have keys: "u \<in> mi_UUID ` set (map snd (mm_members m1))" if "map_of (mm_members m1) u = Some z" for u z
    using v1 that map_of_SomeD [OF that] unfolding view_ok_def by force
  have "((added, removed), m') = ((ad, rem), if ad \<noteq> [] \<or> rem \<noteq> []
      then m2\<lparr>mm_majorityMajorMinor := (case LargerGroupMajorMinorVersion members of Inr v \<Rightarrow> v | Inl _ \<Rightarrow> 0)\<rparr> else m2)"
    using assms(4) unfolding mm_Update_def if_P [OF assms(3)] by (simp only: Let_def m1 m2 prod.case)
  then have added: "added = ad" and removed: "removed = rem" and m': "m' = (if added \<noteq> [] \<or> removed \<noteq> []
      then m2\<lparr>mm_majorityMajorMinor := (case LargerGroupMajorMinorVersion members of Inr v \<Rightarrow> v | Inl _ \<Rightarrow> 0)\<rparr> else m2)"
    by (simp_all only: prod.inject)
  have same: "mm_members m' = mm_members m2" "mm_addrToMemberUUID m' = mm_addrToMemberUUID m2"
    "mm_version m' = mm_version m2" "mm_orderedMembers m' = mm_orderedMembers m2" by (simp_all add: m')
  have k0: "known ?m0 x = known m x" for x by (simp add: known_def)
  have a1: "\<forall>x \<in> set members. map_of (mm_members m1) (mi_UUID x) = Some (known ?m0 x)" "mm_version m1 = mm_version ?m0"
    "mm_orderedMembers m1 = mm_orderedMembers ?m0" "ad = filter (\<lambda>x. map_of (mm_members ?m0) (mi_UUID x) = None) members"
    using a by blast+
  have r1: "view_ok home m2" "mm_version m2 = mm_version m1" "mm_orderedMembers m2 = mm_orderedMembers m1"
    "rem = filter (\<lambda>x. mi_UUID x \<notin> set (map mi_UUID members)) (map snd (mm_members m1))" using r by blast+
  have r2: "map_of (mm_members m2) u = (if u \<in> mi_UUID ` set (map snd (mm_members m1)) \<and> u \<notin> set (map mi_UUID members)
      then None else map_of (mm_members m1) u)" for u using r by blast
  show "view_ok home m'" using r1(1) same by (simp add: view_ok_def)
  show "mm_version m' = version" "mm_orderedMembers m' = Some members" using r1 same a1(2,3) by simp_all
  show "added = filter (\<lambda>x. map_of (mm_members m) (mi_UUID x) = None) members" using a1(4) added by simp
  show "y \<in> set removed \<Longrightarrow> mi_UUID y \<notin> mi_UUID ` set members" using r1(4) removed by simp
  show "x \<in> set members \<Longrightarrow> map_of (mm_members m') (mi_UUID x) = Some (known m x)"
    using a1(1) unfolding same(1) r2 k0 by simp
  show "u \<notin> mi_UUID ` set members \<Longrightarrow> map_of (mm_members m') u = None"
    using keys [of u] unfolding same(1) r2 by (cases "map_of (mm_members m1) u") simp_all
  show "added \<noteq> [] \<or> removed \<noteq> [] \<Longrightarrow>
      mm_majorityMajorMinor m' = (case LargerGroupMajorMinorVersion members of Inr v \<Rightarrow> v | Inl _ \<Rightarrow> 0)" using m' by simp
qed

text \<open>A member and a second one that took over its address, for the examples.\<close>

definition example_member :: "64 word \<Rightarrow> member_info" where
  "example_member k = \<lparr>mi_Attributes = [], mi_AddressMap = [], mi_Address = gostr ''10.0.0.1:5701'', mi_UUID = NewUUIDWith 0 k,
     mi_Version = \<lparr>mv_Major = 5, mv_Minor = 1, mv_Patch = 0\<rparr>, mi_LiteMember = False\<rparr>"

lemma example_list_ok: "list_ok default_TranslateMember (\<lambda>_. gostr ''10.0.0.1:5701'') [example_member 1]"
  by (simp add: list_ok_def member_addr_def default_TranslateMember_def example_member_def)

section \<open>Properties\<close>

text \<open>
  C4: after a member list with a newer version the view has exactly the members of that list, each
  under its UUID, and exactly the members that were unknown are reported as added, provided that a
  member keeps its address and two members of the list never share one. The invariant of the view is
  kept. A member that was known keeps the description it had.
\<close>

theorem update_exact_view:
  assumes "view_ok home m" "list_ok translate home members" "sint (mm_version m) < sint version"
    "mm_Update translate members version m = ((added, removed), m')"
  shows "view_ok home m' \<and> mm_version m' = version \<and> OrderedMembers m' = Inr members
    \<and> (\<forall>u. mm_Find u m' \<noteq> None \<longleftrightarrow> u \<in> mi_UUID ` set members)
    \<and> (\<forall>x \<in> set members. mm_Find (mi_UUID x) m' = Some (known m x))
    \<and> added = filter (\<lambda>x. mm_Find (mi_UUID x) m = None) members
    \<and> (\<forall>y \<in> set removed. mi_UUID y \<notin> mi_UUID ` set members)"
  using Update_view [OF assms] by (force simp: mm_Find_def OrderedMembers_def)

theorem update_exact_view_witness:
  "\<forall>u. mm_Find u (snd (mm_Update default_TranslateMember [example_member 1] 1 newMembersMap)) \<noteq> None
     \<longleftrightarrow> u \<in> mi_UUID ` set [example_member 1]"
  using update_exact_view [of "\<lambda>_. gostr ''10.0.0.1:5701''" newMembersMap default_TranslateMember "[example_member 1]" 1
      "fst (fst (mm_Update default_TranslateMember [example_member 1] 1 newMembersMap))"
      "snd (fst (mm_Update default_TranslateMember [example_member 1] 1 newMembersMap))"
      "snd (mm_Update default_TranslateMember [example_member 1] 1 newMembersMap)"] view_ok_start
  by (simp add: list_ok_def member_addr_def default_TranslateMember_def example_member_def newMembersMap_def mm_reset_def)

text \<open>
  C38: after a change of the cluster the member chosen for SQL is a data member of the new list, and
  its version is the one most data members have, the newer one if two are equally frequent; there is
  always such a member unless the list has no data member or more than two versions.
\<close>

theorem sql_member_majority:
  assumes "view_ok home m" "list_ok translate home members" "sint (mm_version m) < sint version"
    "mm_Update translate members version m = ((added, removed), m')" "added \<noteq> [] \<or> removed \<noteq> []"
    "\<forall>x \<in> set members. known m x = x" "0 \<notin> set (data_versions members)" "data_versions members \<noteq> []"
    "card (set (data_versions members)) \<le> 2"
  shows "\<exists>x \<in> set members. SQLMember m' = Some x \<and> \<not> mi_LiteMember x \<and> is_majority (data_versions members) (MajorMinor (mi_Version x))"
proof -
  note u = Update_view [OF assms(1-4)]
  obtain v where v: "LargerGroupMajorMinorVersion members = Inr v" "is_majority (data_versions members) v"
    using larger_group [OF assms(7)] assms(8,9) by (cases "LargerGroupMajorMinorVersion members") auto
  then have maj: "mm_majorityMajorMinor m' = v" "v \<noteq> 0"
    using u(8) assms(5,7) by (auto simp: is_majority_def)
  have vals: "set (map snd (mm_members m')) = set members"
  proof (intro set_eqI iffI)
    fix x assume "x \<in> set (map snd (mm_members m'))"
    then obtain k where "map_of (mm_members m') k = Some x" using u(1) by (auto simp: view_ok_def)
    moreover from this u(5) [of k] obtain z where "z \<in> set members" "k = mi_UUID z" by fastforce
    ultimately show "x \<in> set members" using u(4) [of z] assms(6) by simp
  next
    fix x assume "x \<in> set members"
    with u(4) assms(6) have "map_of (mm_members m') (mi_UUID x) = Some x" by simp
    from map_of_SomeD [OF this] show "x \<in> set (map snd (mm_members m'))" by force
  qed
  obtain x where "x \<in> set members" "\<not> mi_LiteMember x" "MajorMinor (mi_Version x) = v"
    using v(2) by (auto simp: is_majority_def data_versions_def)
  moreover have sql: "SQLMember m' = find (\<lambda>y. \<not> mi_LiteMember y \<and> MajorMinor (mi_Version y) = v) (map snd (mm_members m'))"
    using maj by (simp add: SQLMember_def)
  ultimately have "SQLMember m' \<noteq> None" using vals unfolding sql find_None_iff by blast
  then obtain y where y: "SQLMember m' = Some y" by blast
  then obtain i where "i < length (map snd (mm_members m'))" "y = map snd (mm_members m') ! i" "\<not> mi_LiteMember y" "MajorMinor (mi_Version y) = v"
    unfolding sql find_Some_iff by blast
  with vals v(2) y nth_mem [of i "map snd (mm_members m')"] show ?thesis by blast
qed

theorem sql_member_majority_witness:
  "\<exists>x \<in> set [example_member 1]. SQLMember (snd (mm_Update default_TranslateMember [example_member 1] 1 newMembersMap)) = Some x
     \<and> \<not> mi_LiteMember x \<and> is_majority (data_versions [example_member 1]) (MajorMinor (mi_Version x))"
proof -
  obtain added removed m' where u: "mm_Update default_TranslateMember [example_member 1] 1 newMembersMap = ((added, removed), m')"
    by (metis surj_pair)
  have start: "map_of (mm_members newMembersMap) k = None" "sint (mm_version newMembersMap) < sint (1 :: i32)" for k
    by (simp_all add: newMembersMap_def mm_reset_def)
  have "added \<noteq> []" using Update_view(6) [OF view_ok_start example_list_ok start(2) u] start(1) by simp
  then have "added \<noteq> [] \<or> removed \<noteq> []" by blast
  from sql_member_majority [OF view_ok_start example_list_ok start(2) u this] start(1) u show ?thesis
    by (simp add: known_def data_versions_def example_member_def MajorMinor_def)
qed

text \<open>
  C40: a member that restarts under the same address with a new UUID replaces the old one in the view,
  but the old one is not reported as removed, so that no event announces that it left.
\<close>

theorem replaced_member_not_reported:
  assumes "member_addr translate a = member_addr translate b" "mi_UUID a \<noteq> mi_UUID b"
    "mm_Update translate [a] 1 newMembersMap = (r1, m1)" "mm_Update translate [b] 2 m1 = ((added, removed), m2)"
  shows "mm_Find (mi_UUID a) m1 = Some a \<and> mm_Find (mi_UUID a) m2 = None \<and> added = [b] \<and> removed = []"
proof -
  let ?v = "\<lambda>x. case LargerGroupMajorMinorVersion [x] of Inr v \<Rightarrow> v | Inl _ \<Rightarrow> 0"
  have m1: "m1 = \<lparr>mm_members = [(mi_UUID a, a)], mm_addrToMemberUUID = [(member_addr translate a, mi_UUID a)],
      mm_orderedMembers = Some [a], mm_majorityMajorMinor = ?v a, mm_version = 1\<rparr>"
    using assms(3) by (simp add: mm_Update_def newMembersMap_def mm_reset_def addMember_def member_addr_def [symmetric] Let_def)
  have "added = [b] \<and> removed = [] \<and> mm_members m2 = [(mi_UUID b, b)]"
    using assms(1,2,4) by (simp add: m1 mm_Update_def addMember_def member_addr_def [symmetric] Let_def split_def) auto
  with m1 assms(2) show ?thesis by (simp add: mm_Find_def)
qed

theorem replaced_member_not_reported_witness:
  "snd (fst (mm_Update default_TranslateMember [example_member 2] 2
      (snd (mm_Update default_TranslateMember [example_member 1] 1 newMembersMap)))) = []"
  using replaced_member_not_reported [of default_TranslateMember "example_member 1" "example_member 2"
      "fst (mm_Update default_TranslateMember [example_member 1] 1 newMembersMap)"
      "snd (mm_Update default_TranslateMember [example_member 1] 1 newMembersMap)"
      "fst (fst (mm_Update default_TranslateMember [example_member 2] 2 (snd (mm_Update default_TranslateMember [example_member 1] 1 newMembersMap))))"
      "snd (fst (mm_Update default_TranslateMember [example_member 2] 2 (snd (mm_Update default_TranslateMember [example_member 1] 1 newMembersMap))))"
      "snd (mm_Update default_TranslateMember [example_member 2] 2 (snd (mm_Update default_TranslateMember [example_member 1] 1 newMembersMap)))"]
  by (simp add: member_addr_def default_TranslateMember_def example_member_def NewUUIDWith_def)

end
