(* ===== verification/FieldKind.thy ===== *)
theory FieldKind
  imports Prelude
begin

text \<open>The kinds of the fields of compact objects (\<^verbatim>\<open>serialization/api.go\<close>) and their sizes (\<^verbatim>\<open>internal/serialization/field_kind_size.go\<close>).\<close>

section \<open>Field kinds\<close>

datatype (plugins only: code) field_kind =
    FieldKindNotAvailable | FieldKindBoolean | FieldKindArrayOfBoolean | FieldKindInt8 | FieldKindArrayOfInt8
    | FieldKindChar | FieldKindArrayOfChar | FieldKindInt16 | FieldKindArrayOfInt16 | FieldKindInt32
    | FieldKindArrayOfInt32 | FieldKindInt64 | FieldKindArrayOfInt64 | FieldKindFloat32 | FieldKindArrayOfFloat32
    | FieldKindFloat64 | FieldKindArrayOfFloat64 | FieldKindString | FieldKindArrayOfString | FieldKindDecimal
    | FieldKindArrayOfDecimal | FieldKindTime | FieldKindArrayOfTime | FieldKindDate | FieldKindArrayOfDate
    | FieldKindTimestamp | FieldKindArrayOfTimestamp | FieldKindTimestampWithTimezone
    | FieldKindArrayOfTimestampWithTimezone | FieldKindCompact | FieldKindArrayOfCompact | FieldKindPortable
    | FieldKindArrayOfPortable | FieldKindNullableBoolean | FieldKindArrayOfNullableBoolean | FieldKindNullableInt8
    | FieldKindArrayOfNullableInt8 | FieldKindNullableInt16 | FieldKindArrayOfNullableInt16
    | FieldKindNullableInt32 | FieldKindArrayOfNullableInt32 | FieldKindNullableInt64
    | FieldKindArrayOfNullableInt64 | FieldKindNullableFloat32 | FieldKindArrayOfNullableFloat32
    | FieldKindNullableFloat64 | FieldKindArrayOfNullableFloat64

text \<open>The number of a kind is its place in this list.\<close>

definition field_kinds :: "field_kind list" where
  "field_kinds =
    [FieldKindNotAvailable, FieldKindBoolean, FieldKindArrayOfBoolean, FieldKindInt8, FieldKindArrayOfInt8,
     FieldKindChar, FieldKindArrayOfChar, FieldKindInt16, FieldKindArrayOfInt16, FieldKindInt32,
     FieldKindArrayOfInt32, FieldKindInt64, FieldKindArrayOfInt64, FieldKindFloat32, FieldKindArrayOfFloat32,
     FieldKindFloat64, FieldKindArrayOfFloat64, FieldKindString, FieldKindArrayOfString, FieldKindDecimal,
     FieldKindArrayOfDecimal, FieldKindTime, FieldKindArrayOfTime, FieldKindDate, FieldKindArrayOfDate,
     FieldKindTimestamp, FieldKindArrayOfTimestamp, FieldKindTimestampWithTimezone, FieldKindArrayOfTimestampWithTimezone, FieldKindCompact,
     FieldKindArrayOfCompact, FieldKindPortable, FieldKindArrayOfPortable, FieldKindNullableBoolean, FieldKindArrayOfNullableBoolean,
     FieldKindNullableInt8, FieldKindArrayOfNullableInt8, FieldKindNullableInt16, FieldKindArrayOfNullableInt16, FieldKindNullableInt32,
     FieldKindArrayOfNullableInt32, FieldKindNullableInt64, FieldKindArrayOfNullableInt64, FieldKindNullableFloat32, FieldKindArrayOfNullableFloat32,
     FieldKindNullableFloat64, FieldKindArrayOfNullableFloat64]"

primrec kind_index :: "field_kind \<Rightarrow> field_kind list \<Rightarrow> i32" where
  "kind_index k [] = 0"
| "kind_index k (x # xs) = (if x = k then 0 else 1 + kind_index k xs)"

definition kind_code :: "field_kind \<Rightarrow> i32" where
  "kind_code k = kind_index k field_kinds"

definition variableKindSize :: i32 where "variableKindSize = - 1"

definition FieldKindSize :: "field_kind \<Rightarrow> i32" where
  "FieldKindSize k = (case k of
     FieldKindNotAvailable \<Rightarrow> - 2
   | FieldKindBoolean \<Rightarrow> 0
   | FieldKindInt8 \<Rightarrow> 1
   | FieldKindChar \<Rightarrow> 0
   | FieldKindInt16 \<Rightarrow> 2
   | FieldKindInt32 \<Rightarrow> 4
   | FieldKindInt64 \<Rightarrow> 8
   | FieldKindFloat32 \<Rightarrow> 4
   | FieldKindFloat64 \<Rightarrow> 8
   | _ \<Rightarrow> variableKindSize)"

lemma kind_index_nth: "k \<in> set ks \<Longrightarrow> length ks < 2 ^ 31 \<Longrightarrow> unat (kind_index k ks) < length ks \<and> ks ! unat (kind_index k ks) = k"
proof (induction ks)
  case (Cons x ks)
  show ?case
  proof (cases "x = k")
    case False
    with Cons have IH: "unat (kind_index k ks) < length ks" "ks ! unat (kind_index k ks) = k" by auto
    then have "unat (1 + kind_index k ks) = Suc (unat (kind_index k ks))"
      using Cons.prems(2) by (subst unat_word_ariths) simp
    with IH False show ?thesis by simp
  qed simp
qed simp

lemma kind_code_inj: "kind_code k = kind_code k' \<longleftrightarrow> k = k'"
proof -
  have mem: "k \<in> set field_kinds" for k by (cases k) (simp_all add: field_kinds_def)
  have "length field_kinds < 2 ^ 31" by (simp add: field_kinds_def)
  from kind_index_nth [OF mem this] show ?thesis unfolding kind_code_def by metis
qed

lemma FieldKindSize_range:
  "k \<noteq> FieldKindNotAvailable \<Longrightarrow> FieldKindSize k \<noteq> variableKindSize \<Longrightarrow> 0 \<le> sint (FieldKindSize k) \<and> sint (FieldKindSize k) \<le> 8"
  by (cases k) (simp_all add: FieldKindSize_def variableKindSize_def)

lemma Boolean_not_variable [simp]: "FieldKindSize FieldKindBoolean \<noteq> variableKindSize"
  by (simp add: FieldKindSize_def variableKindSize_def)

end
