(* ===== verification/Schema.thy ===== *)
theory Schema
  imports FieldKind "HOL-Library.List_Lexorder"
begin

text \<open>
  Schemas of compact objects (\<^verbatim>\<open>internal/serialization/schema.go\<close>, \<^verbatim>\<open>schema_writer.go\<close>) and their fingerprint (\<^verbatim>\<open>rabin.go\<close>). A schema gives each field of a fixed
  size its place in the data, each boolean its bit, and each field of a variable size its index in
  the table of offsets.
\<close>

unbundle bit_operations_syntax

record field_descriptor =
  fd_Name :: gostring
  fd_Kind :: field_kind
  fd_index :: i32
  fd_offset :: i32
  fd_bitOffset :: "8 word"

definition NewFieldDescriptor :: "gostring \<Rightarrow> field_kind \<Rightarrow> field_descriptor" where
  "NewFieldDescriptor fieldName fieldKind =
     \<lparr>fd_Name = fieldName, fd_Kind = fieldKind, fd_index = - 1, fd_offset = - 1, fd_bitOffset = - 1\<rparr>"

section \<open>The fingerprint\<close>

definition rabinFingerPrintInit :: i64 where "rabinFingerPrintInit = - 4513414715797952619"

definition rabin_step :: "i64 \<Rightarrow> i64" where
  "rabin_step fp = drop_bit 1 fp XOR (rabinFingerPrintInit AND - (fp AND 1))"

definition rabin_table :: "nat \<Rightarrow> i64" where
  "rabin_table i = (rabin_step ^^ 8) (word_of_nat i)"

definition rabin_ofByte :: "i64 \<Rightarrow> byte \<Rightarrow> i64" where
  "rabin_ofByte f b =
     (let rightShifted = (if 0 \<le> sint f then signed_drop_bit 8 f else drop_bit 8 f)
      in rightShifted XOR rabin_table (unat ((f XOR ucast b) AND 0xff)))"

definition rabin_ofInt32 :: "i64 \<Rightarrow> i32 \<Rightarrow> i64" where
  "rabin_ofInt32 f v =
     (let fp = rabin_ofByte f (ucast (v AND 0xff));
          fp = rabin_ofByte fp (ucast (signed_drop_bit 8 v AND 0xff));
          fp = rabin_ofByte fp (ucast (signed_drop_bit 16 v AND 0xff))
      in rabin_ofByte fp (ucast (signed_drop_bit 24 v AND 0xff)))"

definition rabin_ofString :: "i64 \<Rightarrow> gostring \<Rightarrow> i64" where
  "rabin_ofString f v = foldl rabin_ofByte (rabin_ofInt32 f (word_of_nat (length v))) v"

section \<open>The schema\<close>

record schema =
  sc_TypeName :: gostring
  sc_Fields :: "(gostring, field_descriptor) gomap"
  sc_fieldDefinitions :: "field_descriptor list"
  sc_id :: i64
  sc_numberOfVarSizeFields :: i32
  sc_fixedSizeFieldsLength :: i32

definition OfSchema :: "schema \<Rightarrow> i64" where
  "OfSchema sc =
     (let fp = rabin_ofString rabinFingerPrintInit (sc_TypeName sc);
          fp = rabin_ofInt32 fp (word_of_nat (length (sc_fieldDefinitions sc)))
      in foldl (\<lambda>fp fd. rabin_ofInt32 (rabin_ofString fp (fd_Name fd)) (kind_code (fd_Kind fd))) fp (sc_fieldDefinitions sc))"

text \<open>A descriptor is put back at its index and under its name.\<close>

definition put_field :: "nat \<Rightarrow> field_descriptor \<Rightarrow> schema \<Rightarrow> schema" where
  "put_field i fd sc = sc\<lparr>sc_fieldDefinitions := (sc_fieldDefinitions sc)[i := fd],
     sc_Fields := AList.update (fd_Name fd) fd (sc_Fields sc)\<rparr>"

primrec fixed_loop :: "(nat \<times> field_descriptor) list \<Rightarrow> i32 \<Rightarrow> schema \<Rightarrow> i32 \<times> schema" where
  "fixed_loop [] offset sc = (offset, sc)"
| "fixed_loop (x # xs) offset sc =
     (let fd = (snd x)\<lparr>fd_offset := offset\<rparr>
      in fixed_loop xs (offset + FieldKindSize (fd_Kind fd)) (put_field (fst x) fd sc))"

primrec boolean_loop :: "(nat \<times> field_descriptor) list \<Rightarrow> nat \<Rightarrow> i32 \<Rightarrow> schema \<Rightarrow> nat \<times> i32 \<times> schema" where
  "boolean_loop [] bitOffset offset sc = (bitOffset, offset, sc)"
| "boolean_loop (x # xs) bitOffset offset sc =
     (let fd = (snd x)\<lparr>fd_offset := offset, fd_bitOffset := word_of_nat (bitOffset mod 8)\<rparr>;
          bitOffset = bitOffset + 1
      in boolean_loop xs bitOffset (if bitOffset mod 8 = 0 then offset + 1 else offset) (put_field (fst x) fd sc))"

primrec var_loop :: "(nat \<times> field_descriptor) list \<Rightarrow> nat \<Rightarrow> schema \<Rightarrow> schema" where
  "var_loop [] i sc = sc"
| "var_loop (x # xs) i sc = var_loop xs (i + 1) (put_field (fst x) ((snd x)\<lparr>fd_index := word_of_nat i\<rparr>) sc)"

definition schema_init :: "schema \<Rightarrow> schema" where
  "schema_init sc =
     (let fdis = enumerate 0 (sc_fieldDefinitions sc);
          varSizeFields = filter (\<lambda>x. FieldKindSize (fd_Kind (snd x)) = variableKindSize) fdis;
          sized = filter (\<lambda>x. FieldKindSize (fd_Kind (snd x)) \<noteq> variableKindSize) fdis;
          booleanFields = filter (\<lambda>x. fd_Kind (snd x) = FieldKindBoolean) sized;
          fixedSizeFields = sort_key (\<lambda>x. - sint (FieldKindSize (fd_Kind (snd x)))) (filter (\<lambda>x. fd_Kind (snd x) \<noteq> FieldKindBoolean) sized);
          (offset, sc) = fixed_loop fixedSizeFields 0 sc;
          (bitOffset, offset, sc) = boolean_loop booleanFields 0 offset sc;
          offset = (if bitOffset mod 8 \<noteq> 0 then offset + 1 else offset);
          sc = var_loop varSizeFields 0 (sc\<lparr>sc_fixedSizeFieldsLength := offset\<rparr>);
          sc = sc\<lparr>sc_numberOfVarSizeFields := word_of_nat (length varSizeFields)\<rparr>
      in sc\<lparr>sc_id := OfSchema sc\<rparr>)"

definition NewSchema :: "gostring \<Rightarrow> (gostring, field_descriptor) gomap \<Rightarrow> schema" where
  "NewSchema typeName fieldDefinitionMap =
     schema_init \<lparr>sc_TypeName = typeName, sc_Fields = [], sc_fieldDefinitions = sort_key fd_Name (map snd fieldDefinitionMap),
       sc_id = 0, sc_numberOfVarSizeFields = 0, sc_fixedSizeFieldsLength = 0\<rparr>"

definition GetField :: "gostring \<Rightarrow> schema \<Rightarrow> field_descriptor option" where
  "GetField fieldName sc = map_of (sc_Fields sc) fieldName"

text \<open>The writer that a serializer fills with its fields to learn the schema.\<close>

record schema_writer =
  sw_typeName :: gostring
  sw_fieldDefinitionMap :: "(gostring, field_descriptor) gomap"

definition NewSchemaWriter :: "gostring \<Rightarrow> schema_writer" where
  "NewSchemaWriter typeName = \<lparr>sw_typeName = typeName, sw_fieldDefinitionMap = []\<rparr>"

definition sw_addField :: "field_descriptor \<Rightarrow> schema_writer \<Rightarrow> schema_writer go" where
  "sw_addField fd s =
     (if map_of (sw_fieldDefinitionMap s) (fd_Name fd) \<noteq> None then Inl (PanicIllegalArgument (gostr ''field '' @ fd_Name fd @ gostr '' already exists''))
      else Inr (s\<lparr>sw_fieldDefinitionMap := AList.update (fd_Name fd) fd (sw_fieldDefinitionMap s)\<rparr>))"

definition sw_Build :: "schema_writer \<Rightarrow> schema" where
  "sw_Build s = NewSchema (sw_typeName s) (sw_fieldDefinitionMap s)"

text \<open>
  Its write methods add a field of their kind and ignore the value: a serializer is the list of the
  names and kinds it writes.
\<close>

definition sw_write :: "(gostring \<times> field_kind) list \<Rightarrow> schema_writer \<Rightarrow> schema_writer go" where
  "sw_write = for_each (\<lambda>(name, kind). sw_addField (NewFieldDescriptor name kind))"

definition makeSchema :: "gostring \<Rightarrow> (gostring \<times> field_kind) list \<Rightarrow> schema go" where
  "makeSchema typeName nks = bind_go (sw_write nks (NewSchemaWriter typeName)) (\<lambda>s. Inr (sw_Build s))"

section \<open>The fingerprint bit by bit\<close>

lemma rabin_step_bit: "rabin_step fp = drop_bit 1 fp XOR (if bit fp 0 then rabinFingerPrintInit else 0)"
proof -
  have "fp AND 1 = (if bit fp 0 then 1 else 0)"
    by (rule bit_word_eqI) (auto simp: bit_simps intro: ccontr)
  then show ?thesis by (simp add: rabin_step_def)
qed

lemma rabin_step_xor: "rabin_step (x XOR y) = rabin_step x XOR rabin_step y"
  by (rule bit_word_eqI) (auto simp: rabin_step_bit bit_simps)

lemma rabin_steps_xor: "(rabin_step ^^ n) (x XOR y) = (rabin_step ^^ n) x XOR (rabin_step ^^ n) y"
  by (induction n) (simp_all add: rabin_step_xor)

lemma rabin_steps_shift: "(\<forall>k < n. \<not> bit x k) \<Longrightarrow> (rabin_step ^^ n) x = drop_bit n x"
proof (induction n)
  case (Suc n)
  then have "(rabin_step ^^ n) x = drop_bit n x" "\<not> bit x n" by auto
  moreover from this(2) have "rabin_step (drop_bit n x) = drop_bit (Suc n) x"
    by (simp add: rabin_step_bit bit_simps)
  ultimately show ?case by simp
qed simp

lemma signed_drop_nonneg:
  assumes "0 \<le> sint (f :: i64)"
  shows "signed_drop_bit n f = drop_bit n f"
proof (rule bit_word_eqI)
  fix k assume "k < LENGTH(64)"
  have top: "\<not> bit f (LENGTH(64) - 1)"
    using assms bit_last_iff [of f] by (simp only: One_nat_def not_less)
  have out: "LENGTH(64) - n \<le> k \<Longrightarrow> \<not> bit f (n + k)"
    using bit_imp_le_length [of f "n + k"] by linarith
  show "bit (signed_drop_bit n f) k = bit (drop_bit n f) k"
    by (simp only: bit_signed_drop_bit_iff bit_drop_bit_eq comp_def) (use top out in \<open>simp only: split: if_split; blast\<close>)
qed

lemma rabin_table_steps: "rabin_table (unat x) = (rabin_step ^^ 8) x"
  unfolding rabin_table_def by (simp only: of_nat_unat ucast_id)

lemma byte_split: "f XOR ucast (b :: byte) = push_bit 8 (drop_bit 8 f) XOR ((f XOR ucast b) AND mask 8)"
  for f :: i64
proof (rule bit_word_eqI)
  fix k assume "k < LENGTH(64)"
  moreover have "bit b k \<Longrightarrow> k < 8" using bit_imp_le_length [of b k] by simp
  ultimately show "bit (f XOR ucast b) k = bit (push_bit 8 (drop_bit 8 f) XOR ((f XOR ucast b) AND mask 8)) k"
    by (cases "k < 8") (auto simp: bit_simps)
qed

lemma rabin_ofByte_steps: "rabin_ofByte f b = (rabin_step ^^ 8) (f XOR ucast b)"
proof -
  let ?lo = "(f XOR ucast b) AND mask 8" and ?hi = "push_bit 8 (drop_bit 8 f)"
  have m: "(0xff :: i64) = mask 8" by (simp add: mask_eq_exp_minus_1)
  have "(rabin_step ^^ 8) ?hi = drop_bit 8 ?hi" by (rule rabin_steps_shift) (simp add: bit_simps)
  also have "\<dots> = drop_bit 8 f"
  proof (rule bit_word_eqI)
    fix k assume "k < LENGTH(64)"
    then show "bit (drop_bit 8 ?hi) k = bit (drop_bit 8 f) k"
      using bit_imp_le_length [of f "8 + k"] by (auto simp: bit_simps)
  qed
  finally have hi: "(rabin_step ^^ 8) ?hi = drop_bit 8 f" .
  have "(rabin_step ^^ 8) (f XOR ucast b) = (rabin_step ^^ 8) (?hi XOR ?lo)" by (rule arg_cong [OF byte_split])
  also have "\<dots> = drop_bit 8 f XOR rabin_table (unat ?lo)" by (simp only: rabin_steps_xor hi rabin_table_steps)
  finally show ?thesis by (simp only: rabin_ofByte_def Let_def m signed_drop_nonneg if_cancel cong: if_cong)
qed

section \<open>The fingerprint of a byte string\<close>

text \<open>
  The reference: the bytes that describe a schema, each length and kind in four bytes with the lowest
  first, and the remainder of such a string computed bit by bit.
\<close>

definition lsb_bytes :: "i32 \<Rightarrow> byte list" where
  "lsb_bytes v = [ucast v, ucast (drop_bit 8 v), ucast (drop_bit 16 v), ucast (drop_bit 24 v)]"

definition string_bytes :: "gostring \<Rightarrow> byte list" where
  "string_bytes s = lsb_bytes (word_of_nat (length s)) @ s"

definition schema_bytes :: "gostring \<Rightarrow> (gostring \<times> field_kind) list \<Rightarrow> byte list" where
  "schema_bytes t nks = string_bytes t @ lsb_bytes (word_of_nat (length nks))
     @ concat (map (\<lambda>(n, k). string_bytes n @ lsb_bytes (kind_code k)) nks)"

definition crc_bits :: "byte list \<Rightarrow> i64" where
  "crc_bits = foldl (\<lambda>fp b. (rabin_step ^^ 8) (fp XOR ucast b)) rabinFingerPrintInit"

definition field_name_kind :: "field_descriptor \<Rightarrow> gostring \<times> field_kind" where
  "field_name_kind fd = (fd_Name fd, fd_Kind fd)"

lemma low_byte: "ucast (signed_drop_bit n v AND 0xff) = (ucast (drop_bit n v) :: byte)" if "n \<le> 24" for v :: i32
proof -
  have "ucast (signed_drop_bit n v AND mask 8) = (ucast (drop_bit n v) :: byte)"
    by (rule bit_word_eqI) (use that in \<open>auto simp: bit_simps\<close>)
  moreover have "(0xff :: i32) = mask 8" by (simp add: mask_eq_exp_minus_1)
  ultimately show ?thesis by simp
qed

lemma rabin_ofInt32_bytes: "rabin_ofInt32 f v = foldl rabin_ofByte f (lsb_bytes v)"
  using low_byte [of 0 v] low_byte [of 8 v] low_byte [of 16 v] low_byte [of 24 v]
  by (simp add: rabin_ofInt32_def lsb_bytes_def Let_def)

lemma rabin_ofString_bytes: "rabin_ofString f s = foldl rabin_ofByte f (string_bytes s)"
  by (simp add: rabin_ofString_def string_bytes_def rabin_ofInt32_bytes)

lemma OfSchema_fields:
  "foldl (\<lambda>fp fd. rabin_ofInt32 (rabin_ofString fp (fd_Name fd)) (kind_code (fd_Kind fd))) f fds
   = foldl rabin_ofByte f (concat (map (\<lambda>(n, k). string_bytes n @ lsb_bytes (kind_code k)) (map field_name_kind fds)))"
  by (induction fds arbitrary: f) (simp_all add: rabin_ofInt32_bytes rabin_ofString_bytes field_name_kind_def)

lemma OfSchema_crc: "OfSchema sc = crc_bits (schema_bytes (sc_TypeName sc) (map field_name_kind (sc_fieldDefinitions sc)))"
proof -
  have "rabin_ofByte = (\<lambda>fp b. (rabin_step ^^ 8) (fp XOR ucast b))" by (intro ext) (rule rabin_ofByte_steps)
  then have "crc_bits bs = foldl rabin_ofByte rabinFingerPrintInit bs" for bs by (simp add: crc_bits_def)
  then show ?thesis
    unfolding OfSchema_def Let_def OfSchema_fields
    by (simp add: schema_bytes_def rabin_ofString_bytes rabin_ofInt32_bytes)
qed

text \<open>The description determines the type name and the fields.\<close>

lemma length_lsb_bytes [simp]: "length (lsb_bytes v) = 4"
  by (simp add: lsb_bytes_def)

lemma byte_of_eqD: "ucast (drop_bit n v) = (ucast (drop_bit n w) :: byte) \<Longrightarrow> k < 8 \<Longrightarrow> bit v (n + k) = bit w (n + k)"
  for v w :: i32
  by (drule arg_cong [where f = "\<lambda>b. bit b k"]) (simp add: bit_simps)

lemma lsb_bytes_inj: "lsb_bytes v = lsb_bytes w \<longleftrightarrow> v = w"
proof
  assume eq: "lsb_bytes v = lsb_bytes w"
  show "v = w"
  proof (rule bit_word_eqI)
    fix k assume "k < LENGTH(32)"
    then consider "k < 8" | "8 \<le> k" "k < 16" | "16 \<le> k" "k < 24" | "24 \<le> k" "k < 32" by fastforce
    then show "bit v k = bit w k"
    proof cases
      case 1 then show ?thesis using eq byte_of_eqD [of 0 v w k] by (simp add: lsb_bytes_def)
    next
      case 2 then show ?thesis using eq byte_of_eqD [of 8 v w "k - 8"] by (simp add: lsb_bytes_def)
    next
      case 3 then show ?thesis using eq byte_of_eqD [of 16 v w "k - 16"] by (simp add: lsb_bytes_def)
    next
      case 4 then show ?thesis using eq byte_of_eqD [of 24 v w "k - 24"] by (simp add: lsb_bytes_def)
    qed
  qed
qed simp

lemma len_word_inj: "m < 2 ^ 32 \<Longrightarrow> n < 2 ^ 32 \<Longrightarrow> (word_of_nat m :: i32) = word_of_nat n \<longleftrightarrow> m = n"
  by (simp add: word_of_nat_eq_iff take_bit_nat_eq_self)

lemma string_bytes_inj:
  "length s < 2 ^ 32 \<Longrightarrow> length s' < 2 ^ 32 \<Longrightarrow> string_bytes s @ r = string_bytes s' @ r' \<longleftrightarrow> s = s' \<and> r = r'"
  by (auto simp: string_bytes_def append_eq_append_conv lsb_bytes_inj len_word_inj)

definition names_short :: "gostring \<Rightarrow> (gostring \<times> field_kind) list \<Rightarrow> bool" where
  "names_short t nks \<longleftrightarrow> length t < 2 ^ 32 \<and> length nks < 2 ^ 32 \<and> list_all (\<lambda>(n, k). length n < 2 ^ 32) nks"

lemma field_bytes_inj:
  assumes "length xs = length ys" "list_all (\<lambda>(n, k). length n < 2 ^ 32) xs" "list_all (\<lambda>(n, k). length n < 2 ^ 32) ys"
  shows "concat (map (\<lambda>(n, k). string_bytes n @ lsb_bytes (kind_code k)) xs)
    = concat (map (\<lambda>(n, k). string_bytes n @ lsb_bytes (kind_code k)) ys) \<longleftrightarrow> xs = ys"
  using assms
proof (induction xs ys rule: list_induct2)
  case (Cons x xs y ys)
  then show ?case
    by (cases x; cases y) (auto simp: string_bytes_inj lsb_bytes_inj kind_code_inj)
qed simp

lemma schema_bytes_inj:
  assumes "names_short t nks" "names_short t' nks'"
  shows "schema_bytes t nks = schema_bytes t' nks' \<longleftrightarrow> t = t' \<and> nks = nks'"
proof
  assume "schema_bytes t nks = schema_bytes t' nks'"
  with assms have "t = t'" "length nks = length nks'"
    and "concat (map (\<lambda>(n, k). string_bytes n @ lsb_bytes (kind_code k)) nks)
      = concat (map (\<lambda>(n, k). string_bytes n @ lsb_bytes (kind_code k)) nks')"
    by (auto simp: schema_bytes_def names_short_def string_bytes_inj lsb_bytes_inj len_word_inj)
  with assms show "t = t' \<and> nks = nks'" by (simp add: field_bytes_inj names_short_def)
qed simp

section \<open>Building a schema\<close>

text \<open>The loops put back the descriptors that these functions compute.\<close>

definition puts :: "(nat \<times> field_descriptor) list \<Rightarrow> schema \<Rightarrow> schema" where
  "puts ps sc = foldl (\<lambda>sc (i, fd). put_field i fd sc) sc ps"

primrec fixed_fds :: "(nat \<times> field_descriptor) list \<Rightarrow> i32 \<Rightarrow> (nat \<times> field_descriptor) list" where
  "fixed_fds [] offset = []"
| "fixed_fds (x # xs) offset = (fst x, (snd x)\<lparr>fd_offset := offset\<rparr>) # fixed_fds xs (offset + FieldKindSize (fd_Kind (snd x)))"

primrec boolean_fds :: "(nat \<times> field_descriptor) list \<Rightarrow> nat \<Rightarrow> i32 \<Rightarrow> (nat \<times> field_descriptor) list" where
  "boolean_fds [] n offset = []"
| "boolean_fds (x # xs) n offset =
     (fst x, (snd x)\<lparr>fd_offset := offset, fd_bitOffset := word_of_nat (n mod 8)\<rparr>)
     # boolean_fds xs (n + 1) (if (n + 1) mod 8 = 0 then offset + 1 else offset)"

primrec var_fds :: "(nat \<times> field_descriptor) list \<Rightarrow> nat \<Rightarrow> (nat \<times> field_descriptor) list" where
  "var_fds [] i = []"
| "var_fds (x # xs) i = (fst x, (snd x)\<lparr>fd_index := word_of_nat i\<rparr>) # var_fds xs (i + 1)"

lemma puts_simps [simp]: "puts [] sc = sc" "puts (p # ps) sc = puts ps (put_field (fst p) (snd p) sc)"
  "puts (ps @ qs) sc = puts qs (puts ps sc)"
  by (simp_all add: puts_def split_beta)

lemma fixed_loop_puts:
  "fixed_loop xs offset sc = (offset + (\<Sum>x\<leftarrow>xs. FieldKindSize (fd_Kind (snd x))), puts (fixed_fds xs offset) sc)"
  by (induction xs arbitrary: offset sc) (simp_all add: Let_def add.assoc)

lemma boolean_loop_puts:
  "boolean_loop xs n offset sc = (n + length xs, fst (snd (boolean_loop xs n offset sc)), puts (boolean_fds xs n offset) sc)"
proof (induction xs arbitrary: n offset sc)
  case (Cons x xs)
  show ?case using Cons [of "n + 1"] by (simp add: Let_def)
qed simp

lemma var_loop_puts: "var_loop xs i sc = puts (var_fds xs i) sc"
  by (induction xs arbitrary: i sc) simp_all

lemma puts_more [simp]:
  "sc_TypeName (puts ps sc) = sc_TypeName sc" "sc_id (puts ps sc) = sc_id sc"
  "sc_numberOfVarSizeFields (puts ps sc) = sc_numberOfVarSizeFields sc"
  "sc_fixedSizeFieldsLength (puts ps sc) = sc_fixedSizeFieldsLength sc"
  by (induction ps arbitrary: sc) (simp_all add: put_field_def)

lemma puts_Fields:
  "sc_Fields (puts ps sc) = foldl (\<lambda>m p. AList.update (fd_Name (snd p)) (snd p) m) (sc_Fields sc) ps"
  by (induction ps arbitrary: sc) (simp_all add: put_field_def)

lemma puts_fieldDefinitions:
  "sc_fieldDefinitions (puts ps sc) = foldl (\<lambda>fds p. fds[fst p := snd p]) (sc_fieldDefinitions sc) ps"
  by (induction ps arbitrary: sc) (simp_all add: put_field_def)

text \<open>The fields in the order in which they are placed.\<close>

definition var_part :: "field_descriptor list \<Rightarrow> (nat \<times> field_descriptor) list" where
  "var_part fds = filter (\<lambda>x. FieldKindSize (fd_Kind (snd x)) = variableKindSize) (enumerate 0 fds)"

definition boolean_part :: "field_descriptor list \<Rightarrow> (nat \<times> field_descriptor) list" where
  "boolean_part fds = filter (\<lambda>x. fd_Kind (snd x) = FieldKindBoolean)
     (filter (\<lambda>x. FieldKindSize (fd_Kind (snd x)) \<noteq> variableKindSize) (enumerate 0 fds))"

definition fixed_part :: "field_descriptor list \<Rightarrow> (nat \<times> field_descriptor) list" where
  "fixed_part fds = sort_key (\<lambda>x. - sint (FieldKindSize (fd_Kind (snd x)))) (filter (\<lambda>x. fd_Kind (snd x) \<noteq> FieldKindBoolean)
     (filter (\<lambda>x. FieldKindSize (fd_Kind (snd x)) \<noteq> variableKindSize) (enumerate 0 fds)))"

definition fixed_end :: "field_descriptor list \<Rightarrow> i32" where
  "fixed_end fds = (\<Sum>x\<leftarrow>fixed_part fds. FieldKindSize (fd_Kind (snd x)))"

definition placed :: "field_descriptor list \<Rightarrow> (nat \<times> field_descriptor) list" where
  "placed fds = fixed_fds (fixed_part fds) 0 @ boolean_fds (boolean_part fds) 0 (fixed_end fds) @ var_fds (var_part fds) 0"

definition blank_schema :: "gostring \<Rightarrow> field_descriptor list \<Rightarrow> schema" where
  "blank_schema t fds = \<lparr>sc_TypeName = t, sc_Fields = [], sc_fieldDefinitions = fds,
     sc_id = 0, sc_numberOfVarSizeFields = 0, sc_fixedSizeFieldsLength = 0\<rparr>"

lemma boolean_loop_offset:
  "fst (snd (boolean_loop xs n offset sc)) = offset + word_of_nat ((n + length xs) div 8 - n div 8)"
proof (induction xs arbitrary: n offset sc)
  case (Cons x xs)
  have "(if (n + 1) mod 8 = 0 then offset + 1 else offset) = offset + word_of_nat ((n + 1) div 8 - n div 8)"
    by (auto simp: div_Suc)
  moreover have "(n + 1) div 8 - n div 8 + ((n + 1 + length xs) div 8 - (n + 1) div 8) = (n + Suc (length xs)) div 8 - n div 8"
    using div_le_mono [of n "n + 1" 8] div_le_mono [of "n + 1" "n + 1 + length xs" 8] by simp
  ultimately show ?case using Cons [of "n + 1"] by (simp add: Let_def add.assoc flip: of_nat_add)
qed simp

lemma boolean_loop_eq:
  "boolean_loop xs n offset sc
   = (n + length xs, offset + word_of_nat ((n + length xs) div 8 - n div 8), puts (boolean_fds xs n offset) sc)"
  using boolean_loop_puts [of xs n offset sc] boolean_loop_offset [of xs n offset sc] by (metis prod.collapse fst_conv snd_conv)

definition set_lengths :: "i32 \<Rightarrow> i32 \<Rightarrow> schema \<Rightarrow> schema" where
  "set_lengths len num sc = sc\<lparr>sc_fixedSizeFieldsLength := len, sc_numberOfVarSizeFields := num\<rparr>"

lemma put_field_set_length:
  "put_field i fd (sc\<lparr>sc_fixedSizeFieldsLength := len\<rparr>) = (put_field i fd sc)\<lparr>sc_fixedSizeFieldsLength := len\<rparr>"
  by (cases sc) (simp add: put_field_def)

lemma puts_set_length: "puts ps (sc\<lparr>sc_fixedSizeFieldsLength := len\<rparr>) = (puts ps sc)\<lparr>sc_fixedSizeFieldsLength := len\<rparr>"
  by (induction ps arbitrary: sc) (simp_all add: put_field_set_length)

definition fixed_length :: "field_descriptor list \<Rightarrow> i32" where
  "fixed_length fds = fixed_end fds + word_of_nat ((length (boolean_part fds) + 7) div 8)"

lemma schema_init_placed:
  "schema_init (blank_schema t fds) =
     (let sc = set_lengths (fixed_length fds) (word_of_nat (length (var_part fds))) (puts (placed fds) (blank_schema t fds))
      in sc\<lparr>sc_id := OfSchema sc\<rparr>)"
proof -
  have up: "0 < n mod 8 \<Longrightarrow> (n + 7) div 8 = Suc (n div 8)" "n mod 8 = 0 \<Longrightarrow> (n + 7) div 8 = n div 8" for n :: nat
    by presburger+
  have defs: "sc_fieldDefinitions (blank_schema t fds) = fds" by (simp add: blank_schema_def)
  have "fixed_loop (fixed_part fds) 0 (blank_schema t fds) = (fixed_end fds, puts (fixed_fds (fixed_part fds) 0) (blank_schema t fds))"
    by (simp add: fixed_loop_puts fixed_end_def)
  then show ?thesis
    unfolding schema_init_def defs var_part_def [symmetric] boolean_part_def [symmetric] fixed_part_def [symmetric] Let_def
    by (simp add: boolean_loop_eq up var_loop_puts puts_set_length placed_def set_lengths_def fixed_length_def ac_simps)
qed

text \<open>What the placement keeps of the fields.\<close>

lemma fixed_fds_name_kind: "map (\<lambda>p. (fst p, field_name_kind (snd p))) (fixed_fds xs off) = map (\<lambda>p. (fst p, field_name_kind (snd p))) xs"
  by (induction xs arbitrary: off) (simp_all add: field_name_kind_def)

lemma boolean_fds_name_kind: "map (\<lambda>p. (fst p, field_name_kind (snd p))) (boolean_fds xs n off) = map (\<lambda>p. (fst p, field_name_kind (snd p))) xs"
  by (induction xs arbitrary: n off) (simp_all add: field_name_kind_def)

lemma var_fds_name_kind: "map (\<lambda>p. (fst p, field_name_kind (snd p))) (var_fds xs i) = map (\<lambda>p. (fst p, field_name_kind (snd p))) xs"
  by (induction xs arbitrary: i) (simp_all add: field_name_kind_def)

lemma mset_filter_not: "mset (filter P xs) + mset (filter (\<lambda>x. \<not> P x) xs) = mset xs"
  by (induction xs) simp_all

lemma mset_parts: "mset (fixed_part fds @ boolean_part fds @ var_part fds) = mset (enumerate 0 fds)"
proof -
  let ?s = "\<lambda>x :: nat \<times> field_descriptor. FieldKindSize (fd_Kind (snd x)) = variableKindSize"
  let ?b = "\<lambda>x :: nat \<times> field_descriptor. fd_Kind (snd x) = FieldKindBoolean"
  note 1 = mset_filter_not [of ?s "enumerate 0 fds"]
  note 2 = mset_filter_not [of ?b "filter (\<lambda>x. \<not> ?s x) (enumerate 0 fds)"]
  have "mset (fixed_part fds @ boolean_part fds @ var_part fds)
      = mset (boolean_part fds) + mset (fixed_part fds) + mset (var_part fds)"
    by (simp only: mset_append ac_simps)
  also have "\<dots> = mset (filter (\<lambda>x. \<not> ?s x) (enumerate 0 fds)) + mset (var_part fds)"
    unfolding boolean_part_def fixed_part_def mset_sort 2 ..
  also have "\<dots> = mset (enumerate 0 fds)" unfolding var_part_def by (subst add.commute) (rule 1)
  finally show ?thesis .
qed

lemma placed_name_kind:
  "mset (map (\<lambda>p. (fst p, field_name_kind (snd p))) (placed fds)) = mset (map (\<lambda>p. (fst p, field_name_kind (snd p))) (enumerate 0 fds))"
proof -
  have "map (\<lambda>p. (fst p, field_name_kind (snd p))) (placed fds)
      = map (\<lambda>p. (fst p, field_name_kind (snd p))) (fixed_part fds @ boolean_part fds @ var_part fds)"
    by (simp add: placed_def fixed_fds_name_kind boolean_fds_name_kind var_fds_name_kind)
  then show ?thesis by (simp only: mset_map mset_parts)
qed

lemma placed_index:
  assumes "p \<in> set (placed fds)"
  shows "fst p < length fds \<and> field_name_kind (snd p) = field_name_kind (fds ! fst p)"
proof -
  have "(fst p, field_name_kind (snd p)) \<in> set (map (\<lambda>p. (fst p, field_name_kind (snd p))) (placed fds))"
    using assms by simp
  then have "(fst p, field_name_kind (snd p)) \<in> set (map (\<lambda>p. (fst p, field_name_kind (snd p))) (enumerate 0 fds))"
    unfolding mset_eq_setD [OF placed_name_kind] .
  then show ?thesis by (auto simp: in_set_enumerate_eq)
qed

lemma placed_names: "mset (map (\<lambda>p. field_name_kind (snd p)) (placed fds)) = mset (map field_name_kind fds)"
proof -
  have "image_mset snd (mset (map (\<lambda>p. (fst p, field_name_kind (snd p))) (placed fds)))
      = image_mset snd (mset (map (\<lambda>p. (fst p, field_name_kind (snd p))) (enumerate 0 fds)))"
    by (simp only: placed_name_kind)
  moreover have "map (\<lambda>p. field_name_kind (snd p)) (enumerate 0 fds) = map field_name_kind (map snd (enumerate 0 fds))"
    by (simp only: list.map_comp comp_def)
  ultimately show ?thesis by (simp add: comp_def multiset.map_comp flip: mset_map)
qed

lemma placed_distinct: "distinct (map fd_Name fds) \<Longrightarrow> distinct (map (\<lambda>p. fd_Name (snd p)) (placed fds))"
proof -
  assume d: "distinct (map fd_Name fds)"
  have "image_mset fst (mset (map (\<lambda>p. field_name_kind (snd p)) (placed fds))) = image_mset fst (mset (map field_name_kind fds))"
    by (simp only: placed_names)
  then have "mset (map (\<lambda>p. fd_Name (snd p)) (placed fds)) = mset (map fd_Name fds)"
    by (simp add: field_name_kind_def comp_def multiset.map_comp)
  with d show ?thesis using mset_eq_imp_distinct_iff by blast
qed

lemma update_fresh: "k \<notin> fst ` set m \<Longrightarrow> AList.update k v m = m @ [(k, v)]"
  by (induction m) auto

lemma updates_append:
  "distinct (map (\<lambda>p. fd_Name (snd p)) ps) \<Longrightarrow> (\<And>p. p \<in> set ps \<Longrightarrow> fd_Name (snd p) \<notin> fst ` set m) \<Longrightarrow>
   foldl (\<lambda>m p. AList.update (fd_Name (snd p)) (snd p) m) m ps = m @ map (\<lambda>p. (fd_Name (snd p), snd p)) ps"
proof (induction ps arbitrary: m)
  case (Cons p ps)
  have u: "AList.update (fd_Name (snd p)) (snd p) m = m @ [(fd_Name (snd p), snd p)]"
    using Cons.prems(2) [of p] by (intro update_fresh) simp
  have "fd_Name (snd q) \<notin> fst ` set (m @ [(fd_Name (snd p), snd p)])" if "q \<in> set ps" for q
    using Cons.prems(1) Cons.prems(2) [of q] that by (auto simp: image_iff)
  from Cons.IH [OF _ this] Cons.prems(1) show ?case by (simp add: u)
qed simp

lemma puts_keep:
  "(\<And>p. p \<in> set ps \<Longrightarrow> fst p < length fds \<and> f (snd p) = f (fds ! fst p)) \<Longrightarrow>
   map f (foldl (\<lambda>fds p. fds[fst p := snd p]) fds ps) = map f fds"
proof (induction ps arbitrary: fds)
  case (Cons p ps)
  have "fst p < length fds" "f (snd p) = f (fds ! fst p)" using Cons.prems [of p] by auto
  then have m: "map f (fds[fst p := snd p]) = map f fds" by (simp add: map_update list_update_same_conv)
  have "f (snd q) = f (fds[fst p := snd p] ! fst q)" if "q \<in> set ps" for q
    using Cons.prems [of q] that arg_cong [OF m, of "\<lambda>xs. xs ! fst q"] by simp
  with Cons.IH [of "fds[fst p := snd p]"] Cons.prems m show ?case by simp
qed simp

lemma schema_fields:
  assumes "distinct (map fd_Name fds)" "sc = schema_init (blank_schema t fds)"
  shows "sc_Fields sc = map (\<lambda>p. (fd_Name (snd p), snd p)) (placed fds)"
    and "map field_name_kind (sc_fieldDefinitions sc) = map field_name_kind fds"
    and "sc_TypeName sc = t" "sc_fixedSizeFieldsLength sc = fixed_length fds"
    and "sc_numberOfVarSizeFields sc = word_of_nat (length (var_part fds))"
    and "sc_id sc = crc_bits (schema_bytes t (map field_name_kind fds))"
proof -
  let ?sc = "set_lengths (fixed_length fds) (word_of_nat (length (var_part fds))) (puts (placed fds) (blank_schema t fds))"
  have sc: "sc = ?sc\<lparr>sc_id := OfSchema ?sc\<rparr>" using schema_init_placed [of t fds] assms(2) by (simp add: Let_def)
  show "sc_Fields sc = map (\<lambda>p. (fd_Name (snd p), snd p)) (placed fds)"
    using updates_append [OF placed_distinct [OF assms(1)], of "[]"]
    by (simp add: sc set_lengths_def puts_Fields blank_schema_def)
  have defs: "map field_name_kind (sc_fieldDefinitions ?sc) = map field_name_kind fds"
    using puts_keep [of "placed fds" fds field_name_kind] placed_index
    by (simp add: set_lengths_def puts_fieldDefinitions blank_schema_def)
  then show "map field_name_kind (sc_fieldDefinitions sc) = map field_name_kind fds" by (simp add: sc)
  show "sc_id sc = crc_bits (schema_bytes t (map field_name_kind fds))"
    using defs by (simp add: sc OfSchema_crc) (simp add: set_lengths_def blank_schema_def)
qed (simp_all add: assms(2) schema_init_placed Let_def set_lengths_def, simp_all add: blank_schema_def)

section \<open>The layout\<close>

text \<open>The bits of a field of fixed size, counted from the start of the data.\<close>

definition field_start :: "field_descriptor \<Rightarrow> int" where
  "field_start fd = 8 * sint (fd_offset fd) + (if fd_Kind fd = FieldKindBoolean then uint (fd_bitOffset fd) else 0)"

definition field_width :: "field_descriptor \<Rightarrow> int" where
  "field_width fd = (if fd_Kind fd = FieldKindBoolean then 1 else 8 * sint (FieldKindSize (fd_Kind fd)))"

definition var_field :: "field_descriptor \<Rightarrow> bool" where
  "var_field fd \<longleftrightarrow> FieldKindSize (fd_Kind fd) = variableKindSize"

text \<open>Two fields do not share a bit of the data or an offset; the first lies before the second.\<close>

definition apart :: "field_descriptor \<Rightarrow> field_descriptor \<Rightarrow> bool" where
  "apart fd fd' \<longleftrightarrow>
     (if var_field fd \<and> var_field fd' then fd_index fd \<noteq> fd_index fd'
      else if \<not> var_field fd \<and> \<not> var_field fd' then field_start fd + field_width fd \<le> field_start fd'
      else True)"

definition inside :: "schema \<Rightarrow> field_descriptor \<Rightarrow> bool" where
  "inside sc fd \<longleftrightarrow>
     (if var_field fd then 0 \<le> sint (fd_index fd) \<and> sint (fd_index fd) < sint (sc_numberOfVarSizeFields sc)
      else 0 \<le> sint (fd_offset fd) \<and> (fd_Kind fd = FieldKindBoolean \<longrightarrow> uint (fd_bitOffset fd) < 8)
        \<and> field_start fd + field_width fd \<le> 8 * sint (sc_fixedSizeFieldsLength sc))"

definition schema_wf :: "schema \<Rightarrow> bool" where
  "schema_wf sc \<longleftrightarrow> list_all (\<lambda>(n, fd). fd_Name fd = n \<and> inside sc fd) (sc_Fields sc)
     \<and> sorted_wrt (\<lambda>(n, fd) (n', fd'). n \<noteq> n' \<and> apart fd fd') (sc_Fields sc)
     \<and> 0 \<le> sint (sc_fixedSizeFieldsLength sc) \<and> 0 \<le> sint (sc_numberOfVarSizeFields sc)"

primrec contiguous :: "int \<Rightarrow> field_descriptor list \<Rightarrow> bool" where
  "contiguous lo [] \<longleftrightarrow> True"
| "contiguous lo (fd # fds) \<longleftrightarrow> field_start fd = lo \<and> contiguous (lo + field_width fd) fds"

lemma contiguous_append:
  "contiguous lo (xs @ ys) \<longleftrightarrow> contiguous lo xs \<and> contiguous (lo + (\<Sum>fd\<leftarrow>xs. field_width fd)) ys"
  by (induction xs arbitrary: lo) (auto simp: add.assoc)

lemma contiguous_bounds:
  "contiguous lo fds \<Longrightarrow> list_all (\<lambda>fd. 0 \<le> field_width fd) fds \<Longrightarrow> fd \<in> set fds \<Longrightarrow>
   lo \<le> field_start fd \<and> field_start fd + field_width fd \<le> lo + (\<Sum>fd\<leftarrow>fds. field_width fd)"
proof (induction fds arbitrary: lo)
  case (Cons x xs)
  have "0 \<le> (\<Sum>fd\<leftarrow>xs. field_width fd)" using Cons.prems(2) by (intro sum_list_nonneg) (auto simp: list_all_iff)
  with Cons show ?case by (cases "fd = x") fastforce+
qed simp

lemma contiguous_ordered:
  "contiguous lo fds \<Longrightarrow> list_all (\<lambda>fd. 0 \<le> field_width fd) fds \<Longrightarrow>
   sorted_wrt (\<lambda>a b. field_start a + field_width a \<le> field_start b) fds"
proof (induction fds arbitrary: lo)
  case (Cons x xs)
  then show ?case using contiguous_bounds [of "lo + field_width x" xs] by auto
qed simp

lemma sum_bounded: "(\<And>x. x \<in> set xs \<Longrightarrow> (f x :: int) \<le> 8) \<Longrightarrow> (\<Sum>x\<leftarrow>xs. f x) \<le> 8 * int (length xs)"
  by (induction xs) force+

lemma fixed_fds_contiguous:
  assumes "\<And>x. x \<in> set xs \<Longrightarrow> 0 \<le> sint (FieldKindSize (fd_Kind (snd x))) \<and> sint (FieldKindSize (fd_Kind (snd x))) \<le> 8
      \<and> fd_Kind (snd x) \<noteq> FieldKindBoolean"
    and "0 \<le> sint off" "sint off + 8 * int (length xs) < 2 ^ 31"
  shows "contiguous (8 * sint off) (map snd (fixed_fds xs off))
    \<and> sint (off + (\<Sum>x\<leftarrow>xs. FieldKindSize (fd_Kind (snd x)))) = sint off + (\<Sum>x\<leftarrow>xs. sint (FieldKindSize (fd_Kind (snd x))))"
  using assms
proof (induction xs arbitrary: off)
  case (Cons x xs)
  let ?s = "FieldKindSize (fd_Kind (snd x))"
  have s: "sint (off + ?s) = sint off + sint ?s"
    using Cons.prems(1) [of x] Cons.prems(2,3) by (intro sint32_add) auto
  have "0 \<le> sint (off + ?s)" "sint (off + ?s) + 8 * int (length xs) < 2 ^ 31"
    using Cons.prems(1) [of x] Cons.prems(2,3) by (auto simp: s)
  note IH = Cons.IH [OF Cons.prems(1) this]
  show ?case using IH s Cons.prems(1) [of x]
    by (simp add: field_start_def field_width_def algebra_simps)
qed simp

lemma uint_mod8: "uint (word_of_nat (n mod 8) :: byte) = int (n mod 8)"
proof -
  have "n mod 8 < 2 ^ 8" by (rule less_trans [OF mod_less_divisor]) simp_all
  then show ?thesis by (simp add: unsigned_of_nat take_bit_nat_eq_self)
qed

lemma boolean_fds_contiguous:
  assumes "\<And>x. x \<in> set xs \<Longrightarrow> fd_Kind (snd x) = FieldKindBoolean"
    and "0 \<le> sint base" "sint base + int (n + length xs) < 2 ^ 31" "off = base + word_of_nat (n div 8)"
  shows "contiguous (8 * sint base + int n) (map snd (boolean_fds xs n off))"
  using assms
proof (induction xs arbitrary: n off)
  case (Cons x xs)
  have nat: "n < 2 ^ 31" using Cons.prems(2,3) by simp
  then have "sint (word_of_nat (n div 8) :: i32) = int (n div 8)" by (intro sint32_of_nat) linarith
  with Cons.prems(2-4) have off: "sint off = sint base + int (n div 8)" by (simp add: sint32_add)
  have "8 * int (n div 8) + int (n mod 8) = int n"
    using arg_cong [OF mult_div_mod_eq [of 8 n], of int] by (simp only: of_nat_add of_nat_mult of_nat_numeral)
  with off have start: "8 * sint off + int (n mod 8) = 8 * sint base + int n" by linarith
  have "(if (n + 1) mod 8 = 0 then off + 1 else off) = base + word_of_nat ((n + 1) div 8)"
    using Cons.prems(4) by (auto simp: div_Suc)
  then have "contiguous (8 * sint base + int (n + 1)) (map snd (boolean_fds xs (n + 1) (if (n + 1) mod 8 = 0 then off + 1 else off)))"
    using Cons.prems(1-3) by (intro Cons.IH) auto
  then show ?case using Cons.prems(1) [of x] start by (simp add: field_start_def field_width_def uint_mod8 add.assoc add.commute [of 1])
qed simp

lemma boolean_fds_bit: "p \<in> set (boolean_fds xs n off) \<Longrightarrow> uint (fd_bitOffset (snd p)) < 8"
  by (induction xs arbitrary: n off) (auto simp: uint_mod8 split: if_splits)

lemma var_fds_index: "map (\<lambda>p. fd_index (snd p)) (var_fds xs i) = map word_of_nat [i..<i + length xs]"
proof (induction xs arbitrary: i)
  case (Cons x xs)
  then show ?case using upt_conv_Cons [of i "i + Suc (length xs)"] by simp
qed simp

lemma var_fds_distinct:
  assumes "i + length xs < 2 ^ 31"
  shows "distinct (map (\<lambda>p. fd_index (snd p)) (var_fds xs i))"
    and "p \<in> set (var_fds xs i) \<Longrightarrow> int i \<le> sint (fd_index (snd p)) \<and> sint (fd_index (snd p)) < int (i + length xs)"
proof -
  have "sint (word_of_nat k :: i32) = int k" if "k < i + length xs" for k
    using assms that by (intro sint32_of_nat) linarith
  then have s: "map sint (map (\<lambda>p. fd_index (snd p)) (var_fds xs i)) = map int [i..<i + length xs]"
    unfolding var_fds_index by simp
  then have "distinct (map sint (map (\<lambda>p. fd_index (snd p)) (var_fds xs i)))" by (simp add: distinct_map inj_on_def)
  then show "distinct (map (\<lambda>p. fd_index (snd p)) (var_fds xs i))" by (rule distinct_map [THEN iffD1, THEN conjunct1])
  assume "p \<in> set (var_fds xs i)"
  then have "sint (fd_index (snd p)) \<in> set (map sint (map (\<lambda>p. fd_index (snd p)) (var_fds xs i)))" by simp
  then show "int i \<le> sint (fd_index (snd p)) \<and> sint (fd_index (snd p)) < int (i + length xs)" unfolding s by auto
qed

text \<open>The kinds of the parts.\<close>

lemma fds_kinds:
  "map (\<lambda>p. fd_Kind (snd p)) (fixed_fds xs off) = map (\<lambda>p. fd_Kind (snd p)) xs"
  "map (\<lambda>p. fd_Kind (snd p)) (boolean_fds xs n off) = map (\<lambda>p. fd_Kind (snd p)) xs"
  "map (\<lambda>p. fd_Kind (snd p)) (var_fds xs n) = map (\<lambda>p. fd_Kind (snd p)) xs"
  by (induction xs arbitrary: off n) simp_all

lemma part_kinds:
  "p \<in> set (fixed_part fds) \<Longrightarrow> fd_Kind (snd p) \<in> fd_Kind ` set fds \<and> FieldKindSize (fd_Kind (snd p)) \<noteq> variableKindSize
     \<and> fd_Kind (snd p) \<noteq> FieldKindBoolean"
  "p \<in> set (boolean_part fds) \<Longrightarrow> fd_Kind (snd p) = FieldKindBoolean"
  "p \<in> set (var_part fds) \<Longrightarrow> FieldKindSize (fd_Kind (snd p)) = variableKindSize"
  by (auto simp: fixed_part_def boolean_part_def var_part_def in_set_enumerate_eq dest: nth_mem)

lemma fds_kindD:
  "p \<in> set (fixed_fds xs off) \<Longrightarrow> \<exists>q \<in> set xs. fd_Kind (snd p) = fd_Kind (snd q)"
  "p \<in> set (boolean_fds xs n off) \<Longrightarrow> \<exists>q \<in> set xs. fd_Kind (snd p) = fd_Kind (snd q)"
  "p \<in> set (var_fds xs n) \<Longrightarrow> \<exists>q \<in> set xs. fd_Kind (snd p) = fd_Kind (snd q)"
  using arg_cong [OF fds_kinds(1) [of xs off], of set] arg_cong [OF fds_kinds(2) [of xs n off], of set]
    arg_cong [OF fds_kinds(3) [of xs n], of set]
  by (auto simp: image_iff set_eq_iff)

lemma parts_length: "length (fixed_part fds) + length (boolean_part fds) + length (var_part fds) = length fds"
  using arg_cong [OF mset_parts [of fds], of size] by simp

lemma fixed_widths:
  "(\<And>x. x \<in> set xs \<Longrightarrow> fd_Kind (snd x) \<noteq> FieldKindBoolean) \<Longrightarrow>
   (\<Sum>fd\<leftarrow>map snd (fixed_fds xs off). field_width fd) = 8 * (\<Sum>x\<leftarrow>xs. sint (FieldKindSize (fd_Kind (snd x))))"
  by (induction xs arbitrary: off) (simp_all add: field_width_def)

lemma boolean_widths:
  "(\<And>x. x \<in> set xs \<Longrightarrow> fd_Kind (snd x) = FieldKindBoolean) \<Longrightarrow>
   (\<Sum>fd\<leftarrow>map snd (boolean_fds xs n off). field_width fd) = int (length xs)"
  by (induction xs arbitrary: n off) (simp_all add: field_width_def)

lemma fixed_section:
  assumes "FieldKindNotAvailable \<notin> fd_Kind ` set fds" "length fds < 2 ^ 27"
  defines "F \<equiv> map snd (fixed_fds (fixed_part fds) 0) @ map snd (boolean_fds (boolean_part fds) 0 (fixed_end fds))"
  shows "contiguous 0 F" "list_all (\<lambda>fd. 0 \<le> field_width fd \<and> \<not> var_field fd) F" "0 \<le> sint (fixed_length fds)"
    and "(\<Sum>fd\<leftarrow>F. field_width fd) \<le> 8 * sint (fixed_length fds)"
proof -
  let ?fs = "fixed_part fds" and ?bs = "boolean_part fds"
  have len: "length ?fs + length ?bs < 2 ^ 27" using parts_length [of fds] assms(2) by linarith
  have sizes: "0 \<le> sint (FieldKindSize (fd_Kind (snd x))) \<and> sint (FieldKindSize (fd_Kind (snd x))) \<le> 8
      \<and> fd_Kind (snd x) \<noteq> FieldKindBoolean" if "x \<in> set ?fs" for x
    using part_kinds(1) [OF that] FieldKindSize_range assms(1) by metis
  have fc: "contiguous (8 * sint (0 :: i32)) (map snd (fixed_fds ?fs 0))
      \<and> sint (0 + (\<Sum>x\<leftarrow>?fs. FieldKindSize (fd_Kind (snd x)))) = sint (0 :: i32) + (\<Sum>x\<leftarrow>?fs. sint (FieldKindSize (fd_Kind (snd x))))"
    using sizes len by (intro fixed_fds_contiguous) auto
  let ?e = "\<Sum>x\<leftarrow>?fs. sint (FieldKindSize (fd_Kind (snd x)))"
  have e: "sint (fixed_end fds) = ?e" using fc by (simp add: fixed_end_def)
  have e_le: "0 \<le> ?e" "?e \<le> 8 * int (length ?fs)"
    using sizes by (auto intro!: sum_list_nonneg) (use sizes in \<open>auto intro!: sum_bounded\<close>)
  have w: "(\<Sum>fd\<leftarrow>map snd (fixed_fds ?fs 0). field_width fd) = 8 * ?e"
    using sizes by (intro fixed_widths) blast
  have bw: "(\<Sum>fd\<leftarrow>map snd (boolean_fds ?bs 0 (fixed_end fds)). field_width fd) = int (length ?bs)"
    using part_kinds(2) by (intro boolean_widths) blast
  have bc: "contiguous (8 * sint (fixed_end fds) + int 0) (map snd (boolean_fds ?bs 0 (fixed_end fds)))"
    using part_kinds(2) e e_le len by (intro boolean_fds_contiguous) auto
  show "contiguous 0 F" using fc bc w e by (simp add: F_def contiguous_append)
  have sl: "sint (word_of_nat ((length ?bs + 7) div 8) :: i32) = int ((length ?bs + 7) div 8)"
    using len by (intro sint32_of_nat) simp
  have L: "sint (fixed_length fds) = ?e + int ((length ?bs + 7) div 8)"
  proof -
    have "int (length ?fs) + int (length ?bs) < 134217728" using len by simp
    moreover have "int ((length ?bs + 7) div 8) \<le> int (length ?bs) + 7" by simp
    ultimately show ?thesis
      unfolding fixed_length_def using e e_le sl by (subst sint32_add) simp_all
  qed
  then show "0 \<le> sint (fixed_length fds)" using e_le by simp
  have "length ?bs \<le> 8 * ((length ?bs + 7) div 8)" by linarith
  then show "(\<Sum>fd\<leftarrow>F. field_width fd) \<le> 8 * sint (fixed_length fds)"
    unfolding F_def by (simp add: w [simplified] bw [simplified] L)
  have "0 \<le> field_width fd \<and> \<not> var_field fd" if "fd \<in> set (map snd (fixed_fds ?fs 0))" for fd
  proof -
    from that obtain q where "q \<in> set ?fs" "fd_Kind fd = fd_Kind (snd q)" using fds_kindD(1) by fastforce
    then show ?thesis using sizes [of q] part_kinds(1) [of q fds] by (simp add: field_width_def var_field_def)
  qed
  moreover have "0 \<le> field_width fd \<and> \<not> var_field fd" if "fd \<in> set (map snd (boolean_fds ?bs 0 (fixed_end fds)))" for fd
    using that part_kinds(2) fds_kindD(2) by (fastforce simp: field_width_def var_field_def)
  ultimately show "list_all (\<lambda>fd. 0 \<le> field_width fd \<and> \<not> var_field fd) F" by (auto simp: F_def list_all_iff)
qed

lemma distinct_map_sorted_wrt: "distinct (map f xs) \<longleftrightarrow> sorted_wrt (\<lambda>a b. f a \<noteq> f b) xs"
  by (induction xs) auto

lemma apart_sections:
  assumes "sorted_wrt (\<lambda>a b. field_start a + field_width a \<le> field_start b) F" "list_all (\<lambda>fd. \<not> var_field fd) F"
    and "distinct (map fd_index V)" "list_all var_field V"
  shows "sorted_wrt apart (F @ V)"
proof -
  have "sorted_wrt apart F"
    using assms(2) by (intro sorted_wrt_mono_rel [OF _ assms(1)]) (simp add: apart_def list_all_iff)
  moreover have V: "sorted_wrt (\<lambda>a b. fd_index a \<noteq> fd_index b) V" using assms(3) by (simp only: distinct_map_sorted_wrt)
  have "sorted_wrt apart V"
    using assms(4) by (intro sorted_wrt_mono_rel [OF _ V]) (simp add: apart_def list_all_iff)
  ultimately show ?thesis using assms(2,4) by (auto simp: sorted_wrt_append apart_def list_all_iff)
qed

lemma fixed_section_bit:
  assumes "fd \<in> set (map snd (fixed_fds (fixed_part fds) 0) @ map snd (boolean_fds (boolean_part fds) 0 (fixed_end fds)))"
    and "fd_Kind fd = FieldKindBoolean"
  shows "uint (fd_bitOffset fd) < 8"
proof -
  have "fd \<notin> snd ` set (fixed_fds (fixed_part fds) 0)"
  proof
    assume "fd \<in> snd ` set (fixed_fds (fixed_part fds) 0)"
    then obtain p where p: "p \<in> set (fixed_fds (fixed_part fds) 0)" "fd = snd p" by auto
    obtain q where "q \<in> set (fixed_part fds)" "fd_Kind fd = fd_Kind (snd q)" using fds_kindD(1) [OF p(1)] p(2) by auto
    then show False using part_kinds(1) [of q] assms(2) by simp
  qed
  with assms(1) obtain p where "p \<in> set (boolean_fds (boolean_part fds) 0 (fixed_end fds))" "fd = snd p" by auto
  then show ?thesis using boolean_fds_bit by simp
qed

lemma schema_init_wf:
  assumes "distinct (map fd_Name fds)" "FieldKindNotAvailable \<notin> fd_Kind ` set fds" "length fds < 2 ^ 27"
  shows "schema_wf (schema_init (blank_schema t fds))"
proof -
  let ?sc = "schema_init (blank_schema t fds)"
  let ?B = "boolean_fds (boolean_part fds) 0 (fixed_end fds)" and ?V = "var_fds (var_part fds) 0"
  let ?F = "map snd (fixed_fds (fixed_part fds) 0) @ map snd ?B"
  note sc = schema_fields [OF assms(1) refl, of t] and F = fixed_section [OF assms(2,3)]
  have placed: "map snd (placed fds) = ?F @ map snd ?V" by (simp add: placed_def)
  have vlen: "length (var_part fds) < 2 ^ 31" using parts_length [of fds] assms(3) by simp
  then have num: "sint (sc_numberOfVarSizeFields ?sc) = int (length (var_part fds))"
    unfolding sc(5) by (rule sint32_of_nat)
  have V: "var_field fd \<and> 0 \<le> sint (fd_index fd) \<and> sint (fd_index fd) < int (length (var_part fds))" if fd: "fd \<in> set (map snd ?V)" for fd
  proof -
    obtain p where p: "p \<in> set ?V" "fd = snd p" using fd by auto
    obtain q where "q \<in> set (var_part fds)" "fd_Kind fd = fd_Kind (snd q)" using fds_kindD(3) [OF p(1)] p(2) by auto
    then have "var_field fd" using part_kinds(3) [of q] by (simp add: var_field_def)
    then show ?thesis using var_fds_distinct(2) [of 0 "var_part fds" p] vlen p by simp
  qed
  have inF: "inside ?sc fd" if "fd \<in> set ?F" for fd
  proof -
    have "\<not> var_field fd" "0 \<le> field_start fd" "field_start fd + field_width fd \<le> 8 * sint (sc_fixedSizeFieldsLength ?sc)"
      using F(2,4) contiguous_bounds [OF F(1) _ that] that by (auto simp: list_all_iff sc(4))
    moreover have "fd_Kind fd = FieldKindBoolean \<Longrightarrow> uint (fd_bitOffset fd) < 8"
      using that by (rule fixed_section_bit)
    ultimately show ?thesis
      by (cases "fd_Kind fd = FieldKindBoolean") (auto simp: inside_def field_start_def)
  qed
  have inV: "inside ?sc fd" if "fd \<in> set (map snd ?V)" for fd using V [OF that] num by (simp add: inside_def)
  have ordered: "sorted_wrt apart (?F @ map snd ?V)"
  proof (rule apart_sections)
    show "sorted_wrt (\<lambda>a b. field_start a + field_width a \<le> field_start b) ?F"
      by (rule contiguous_ordered [OF F(1)]) (use F(2) in \<open>simp only: list_all_iff; blast\<close>)
    show "list_all (\<lambda>fd. \<not> var_field fd) ?F" using F(2) by (simp only: list_all_iff) blast
    show "distinct (map fd_index (map snd ?V))"
      using var_fds_distinct(1) [of 0 "var_part fds"] vlen by (simp add: comp_def)
    show "list_all var_field (map snd ?V)" unfolding list_all_iff using V by blast
  qed
  have names: "sorted_wrt (\<lambda>p q. fd_Name (snd p) \<noteq> fd_Name (snd q)) (placed fds)"
    using placed_distinct [OF assms(1)] by (simp only: distinct_map_sorted_wrt)
  have "list_all (\<lambda>p. inside ?sc (snd p)) (placed fds)"
    unfolding list_all_iff
  proof
    fix p assume "p \<in> set (placed fds)"
    then have "snd p \<in> set (map snd (placed fds))" by simp
    then have "snd p \<in> set ?F \<or> snd p \<in> set (map snd ?V)" unfolding placed by (simp only: set_append Un_iff)
    then show "inside ?sc (snd p)" using inF inV by blast
  qed
  moreover have "sorted_wrt (\<lambda>p q. apart (snd p) (snd q)) (placed fds)"
    using ordered by (simp only: placed [symmetric] sorted_wrt_map)
  with names have "sorted_wrt (\<lambda>p q. fd_Name (snd p) \<noteq> fd_Name (snd q) \<and> apart (snd p) (snd q)) (placed fds)"
    by (simp add: sorted_wrt_iff_nth_less)
  ultimately show ?thesis using F(3) num
    by (simp add: schema_wf_def sc(1,4) sorted_wrt_map list_all_iff)
qed

end
