(* ===== verification/Spec2Isabelle.thy ===== *)
theory Spec2Isabelle
  imports MessageReader CustomCodec SerializationService Invoker Members Schema
begin

text \<open>
  A verification of the Hazelcast Go client.
\<close>

end
